(* ===== verification/Prelude.thy ===== *)
theory Prelude
  imports Main "HOL-Library.Word"
begin

text \<open>
  Shared vocabulary of the development.

  A Go \<open>string\<close> and a Go \<open>[]byte\<close> are both sequences of bytes; HOL's \<open>string\<close> is a list of
  8-bit characters, so both are modelled by it and a conversion between the two is the identity.
  An \<open>error\<close> value is its message; a call that returns \<open>(T, error)\<close> is a value of
  \<open>'a result\<close>, with \<open>Inl\<close> for the error, and a call that may also panic is an \<open>'a outcome\<close>.
\<close>

type_synonym bytes = string

type_synonym 'a result = "string + 'a"

type_synonym i64 = "64 word"

text \<open>A call that returns a value, returns an error, or panics.\<close>

datatype 'a outcome = Ret 'a | Fail string | Panic string

text \<open>
  The collections the component theories add to: \<open>go_defs\<close> gathers the definitions that a
  concrete run unfolds, so that a witness is evaluated by \<open>simp add: go_defs\<close>.
\<close>

named_theorems go_defs \<open>definitions unfolded when a concrete run is evaluated\<close>

section \<open>Results\<close>

definition is_ok :: "'e + 'a \<Rightarrow> bool" where
  "is_ok r = (case r of Inl _ \<Rightarrow> False | Inr _ \<Rightarrow> True)"

lemma is_ok_simps [simp]:
  "is_ok (Inr x)"
  "\<not> is_ok (Inl e)"
  by (simp_all add: is_ok_def)

lemma is_ok_iff: "is_ok r \<longleftrightarrow> (\<exists>x. r = Inr x)"
  by (cases r) auto

section \<open>Lists\<close>

lemma takeWhile_append_stop:
  "(\<forall>x\<in>set xs. P x) \<Longrightarrow> (ys = [] \<or> \<not> P (hd ys)) \<Longrightarrow> takeWhile P (xs @ ys) = xs"
  by (induction xs) (cases ys; auto)+

lemma dropWhile_append_stop:
  "(\<forall>x\<in>set xs. P x) \<Longrightarrow> (ys = [] \<or> \<not> P (hd ys)) \<Longrightarrow> dropWhile P (xs @ ys) = ys"
  by (induction xs) (cases ys; auto)+

lemma length_dropWhile_less:
  "x # xs = ys \<Longrightarrow> length (dropWhile P xs) < length ys"
  by (metis length_Cons length_dropWhile_le less_Suc_eq_le)

text \<open>\<open>strings.HasPrefix\<close>, \<open>strings.Join\<close>.\<close>

definition has_prefix :: "string \<Rightarrow> string \<Rightarrow> bool" where
  "has_prefix s p = (take (length p) s = p)"

lemma has_prefix_append [simp]: "has_prefix (p @ s) p"
  by (simp add: has_prefix_def)

lemma has_prefix_drop: "has_prefix s p \<Longrightarrow> s = p @ drop (length p) s"
  unfolding has_prefix_def by (metis append_take_drop_id)

fun join :: "'a list \<Rightarrow> 'a list list \<Rightarrow> 'a list" where
  "join sep [] = []"
| "join sep [x] = x"
| "join sep (x # xs) = x @ sep @ join sep xs"

text \<open>Two splits of one list at the first occurrence of a separator are the same split.\<close>

lemma split_first_unique:
  assumes "xs @ c # ys = xs' @ c # ys'" and "c \<notin> set xs" and "c \<notin> set xs'"
  shows "xs = xs' \<and> ys = ys'"
  using assms
proof (induction xs arbitrary: xs')
  case Nil
  then show ?case by (cases xs') auto
next
  case (Cons x xs)
  then obtain z zs where "xs' = z # zs" by (cases xs') auto
  with Cons show ?case by auto
qed

text \<open>Induction three elements at a time, as an encoder of three-byte groups consumes a list.\<close>

lemma triple_induct [case_names 1 2 3 4]:
  assumes "P []" and "\<And>a. P [a]" and "\<And>a b. P [a, b]"
    and "\<And>a b c rest. P rest \<Longrightarrow> P (a # b # c # rest)"
  shows "P xs"
proof (induction xs rule: length_induct)
  case (1 xs)
  then show ?case
    using assms by (cases xs; cases "tl xs"; cases "tl (tl xs)") auto
qed

section \<open>Machine integers\<close>

text \<open>The range of \<open>int64\<close>, as integers.\<close>

definition max_int64 :: int where
  "max_int64 = 9223372036854775807"

definition min_int64 :: int where
  "min_int64 = -9223372036854775808"

definition in_int64 :: "int \<Rightarrow> bool" where
  "in_int64 i = (min_int64 \<le> i \<and> i \<le> max_int64)"

lemma sint_i64_bounds: "in_int64 (sint (w :: i64))"
  using sint_range_size [of w] by (simp add: in_int64_def min_int64_def max_int64_def word_size)

lemma sint_word_of_int_i64: "in_int64 i \<Longrightarrow> sint (word_of_int i :: i64) = i"
  unfolding in_int64_def min_int64_def max_int64_def
  by (simp add: sint_sbintrunc' signed_take_bit_int_eq_self)

end
