(* ===== verification/Utf8.thy ===== *)
theory Utf8
  imports Prelude
begin

text \<open>
  UTF-8 as Go's \<open>unicode/utf8\<close> reads and writes it. A string is decoded rune by rune; a byte that
  starts no well-formed sequence counts as one replacement rune U+FFFD of width 1. Runes are
  natural numbers, widths are counted in bytes.
\<close>

definition rune_error :: nat where
  "rune_error = 65533"

definition byte_in :: "nat \<Rightarrow> nat \<Rightarrow> char \<Rightarrow> bool" where
  "byte_in lo hi c = (lo \<le> of_char c \<and> of_char c \<le> hi)"

text \<open>\<open>utf8.DecodeRuneInString\<close>: the first rune and its width.\<close>

fun decode_rune :: "string \<Rightarrow> nat \<times> nat" where
  "decode_rune [] = (rune_error, 0)"
| "decode_rune (c0 # s) =
     (if of_char c0 < (128 :: nat) then (of_char c0, 1)
      else if byte_in 194 223 c0 then
        (case s of
           c1 # _ \<Rightarrow>
             if byte_in 128 191 c1
             then ((of_char c0 - 192) * 64 + (of_char c1 - 128), 2)
             else (rune_error, 1)
         | _ \<Rightarrow> (rune_error, 1))
      else if byte_in 224 239 c0 then
        (case s of
           c1 # c2 # _ \<Rightarrow>
             if byte_in (if of_char c0 = (224 :: nat) then 160 else 128)
                        (if of_char c0 = (237 :: nat) then 159 else 191) c1
                \<and> byte_in 128 191 c2
             then ((of_char c0 - 224) * 4096 + (of_char c1 - 128) * 64 + (of_char c2 - 128), 3)
             else (rune_error, 1)
         | _ \<Rightarrow> (rune_error, 1))
      else if byte_in 240 244 c0 then
        (case s of
           c1 # c2 # c3 # _ \<Rightarrow>
             if byte_in (if of_char c0 = (240 :: nat) then 144 else 128)
                        (if of_char c0 = (244 :: nat) then 143 else 191) c1
                \<and> byte_in 128 191 c2 \<and> byte_in 128 191 c3
             then ((of_char c0 - 240) * 262144 + (of_char c1 - 128) * 4096
                    + (of_char c2 - 128) * 64 + (of_char c3 - 128), 4)
             else (rune_error, 1)
         | _ \<Rightarrow> (rune_error, 1))
      else (rune_error, 1))"

definition surrogate :: "nat \<Rightarrow> bool" where
  "surrogate r = (55296 \<le> r \<and> r \<le> 57343)"

definition valid_rune :: "nat \<Rightarrow> bool" where
  "valid_rune r = (r \<le> 1114111 \<and> \<not> surrogate r)"

text \<open>\<open>utf8.EncodeRune\<close>; a value that is no rune is written as U+FFFD.\<close>

definition encode_rune :: "nat \<Rightarrow> string" where
  "encode_rune r =
     (if r < 128 then [char_of r]
      else if r < 2048 then [char_of (192 + r div 64), char_of (128 + r mod 64)]
      else if \<not> valid_rune r then [char_of (239 :: nat), char_of (191 :: nat), char_of (189 :: nat)]
      else if r < 65536 then
        [char_of (224 + r div 4096), char_of (128 + r div 64 mod 64), char_of (128 + r mod 64)]
      else
        [char_of (240 + r div 262144), char_of (128 + r div 4096 mod 64),
         char_of (128 + r div 64 mod 64), char_of (128 + r mod 64)])"

text \<open>The five ways a non-empty string can start.\<close>

lemma decode_rune_cases [consumes 1, case_names ascii two three four bad]:
  assumes "decode_rune (c0 # s) = (r, n)"
  obtains "of_char c0 < (128 :: nat)" "r = of_char c0" "n = 1"
  | c1 t where "s = c1 # t" "byte_in 194 223 c0" "byte_in 128 191 c1"
      "r = (of_char c0 - 192) * 64 + (of_char c1 - 128)" "n = 2"
  | c1 c2 t where "s = c1 # c2 # t" "byte_in 224 239 c0" "byte_in 128 191 c1" "byte_in 128 191 c2"
      "of_char c0 = (224 :: nat) \<Longrightarrow> 160 \<le> (of_char c1 :: nat)"
      "of_char c0 = (237 :: nat) \<Longrightarrow> of_char c1 \<le> (159 :: nat)"
      "r = (of_char c0 - 224) * 4096 + (of_char c1 - 128) * 64 + (of_char c2 - 128)" "n = 3"
  | c1 c2 c3 t where "s = c1 # c2 # c3 # t" "byte_in 240 244 c0" "byte_in 128 191 c1"
      "byte_in 128 191 c2" "byte_in 128 191 c3"
      "of_char c0 = (240 :: nat) \<Longrightarrow> 144 \<le> (of_char c1 :: nat)"
      "of_char c0 = (244 :: nat) \<Longrightarrow> of_char c1 \<le> (143 :: nat)"
      "r = (of_char c0 - 240) * 262144 + (of_char c1 - 128) * 4096
             + (of_char c2 - 128) * 64 + (of_char c3 - 128)" "n = 4"
  | "128 \<le> (of_char c0 :: nat)" "r = rune_error" "n = 1"
proof -
  consider (1) "of_char c0 < (128 :: nat)"
    | (2) "128 \<le> (of_char c0 :: nat)" "byte_in 194 223 c0"
    | (3) "128 \<le> (of_char c0 :: nat)" "\<not> byte_in 194 223 c0" "byte_in 224 239 c0"
    | (4) "128 \<le> (of_char c0 :: nat)" "\<not> byte_in 194 223 c0" "\<not> byte_in 224 239 c0"
        "byte_in 240 244 c0"
    | (5) "128 \<le> (of_char c0 :: nat)" "\<not> byte_in 194 223 c0" "\<not> byte_in 224 239 c0"
        "\<not> byte_in 240 244 c0"
    by (metis not_le)
  then show ?thesis
  proof cases
    case 1
    with assms have "r = of_char c0 \<and> n = 1" by simp
    with 1 that(1) show ?thesis by blast
  next
    case 2
    with assms have "(\<exists>c1 t. s = c1 # t \<and> byte_in 128 191 c1
        \<and> r = (of_char c0 - 192) * 64 + (of_char c1 - 128) \<and> n = 2) \<or> (r = rune_error \<and> n = 1)"
      by (simp split: list.splits if_splits)
    with 2 that(2,5) show ?thesis by blast
  next
    case 3
    with assms have "(\<exists>c1 c2 t. s = c1 # c2 # t
        \<and> byte_in (if of_char c0 = (224 :: nat) then 160 else 128)
                  (if of_char c0 = (237 :: nat) then 159 else 191) c1 \<and> byte_in 128 191 c2
        \<and> r = (of_char c0 - 224) * 4096 + (of_char c1 - 128) * 64 + (of_char c2 - 128) \<and> n = 3)
      \<or> (r = rune_error \<and> n = 1)"
      by (simp split: list.splits if_split_asm)
    then show ?thesis
    proof (elim disjE exE conjE, goal_cases)
      case (1 c1 c2 t)
      moreover from 1(2) have "byte_in 128 191 c1"
        "of_char c0 = (224 :: nat) \<Longrightarrow> 160 \<le> (of_char c1 :: nat)"
        "of_char c0 = (237 :: nat) \<Longrightarrow> of_char c1 \<le> (159 :: nat)"
        by (simp_all add: byte_in_def split: if_splits)
      ultimately show ?case using 3(3) that(3) by blast
    next
      case 2
      with 3(1) that(5) show ?case by blast
    qed
  next
    case 4
    with assms have "(\<exists>c1 c2 c3 t. s = c1 # c2 # c3 # t
        \<and> byte_in (if of_char c0 = (240 :: nat) then 144 else 128)
                  (if of_char c0 = (244 :: nat) then 143 else 191) c1
        \<and> byte_in 128 191 c2 \<and> byte_in 128 191 c3
        \<and> r = (of_char c0 - 240) * 262144 + (of_char c1 - 128) * 4096
                + (of_char c2 - 128) * 64 + (of_char c3 - 128) \<and> n = 4)
      \<or> (r = rune_error \<and> n = 1)"
      by (simp split: list.splits if_split_asm)
    then show ?thesis
    proof (elim disjE exE conjE, goal_cases)
      case (1 c1 c2 c3 t)
      moreover from 1(2) have "byte_in 128 191 c1"
        "of_char c0 = (240 :: nat) \<Longrightarrow> 144 \<le> (of_char c1 :: nat)"
        "of_char c0 = (244 :: nat) \<Longrightarrow> of_char c1 \<le> (143 :: nat)"
        by (simp_all add: byte_in_def split: if_splits)
      ultimately show ?case using 4(4) that(4) by blast
    next
      case 2
      with 4(1) that(5) show ?case by blast
    qed
  next
    case 5
    with assms have "r = rune_error \<and> n = 1" by simp
    with 5(1) that(5) show ?thesis by blast
  qed
qed

lemma decode_rune_width: "decode_rune (c # s) = (r, n) \<Longrightarrow> 0 < n \<and> n \<le> length (c # s)"
  by (erule decode_rune_cases) auto

declare decode_rune.simps [simp del]

text \<open>The runes of a string with the bytes each was read from: \<open>for _, r := range s\<close>.\<close>

function pieces :: "string \<Rightarrow> (nat \<times> string) list" where
  "pieces [] = []"
| "pieces (c # s) =
     (let (r, n) = decode_rune (c # s)
      in (r, take n (c # s)) # pieces (drop n (c # s)))"
  by pat_completeness auto
termination
  by (relation "measure length") (auto dest: decode_rune_width [OF sym])

declare pieces.simps [simp del]

definition runes :: "string \<Rightarrow> nat list" where
  "runes s = map fst (pieces s)"

text \<open>\<open>string(rs)\<close> for a slice of runes.\<close>

definition string_of_runes :: "nat list \<Rightarrow> string" where
  "string_of_runes rs = concat (map encode_rune rs)"

definition bad_piece :: "nat \<times> string \<Rightarrow> bool" where
  "bad_piece p = (fst p = rune_error \<and> length (snd p) = 1)"

text \<open>\<open>utf8.ValidString\<close>, and the string with every bad byte replaced by U+FFFD.\<close>

definition valid_utf8 :: "string \<Rightarrow> bool" where
  "valid_utf8 s = list_all (\<lambda>p. \<not> bad_piece p) (pieces s)"

definition to_valid :: "string \<Rightarrow> string" where
  "to_valid s = string_of_runes (runes s)"

section \<open>Decoding and encoding agree\<close>

lemma digit64: "(y :: nat) < 64 \<Longrightarrow> (x * 64 + y) mod 64 = y \<and> (x * 64 + y) div 64 = x"
  by (simp add: mod_mult_self3)

lemma encode_decode2:
  assumes "194 \<le> a" "a \<le> 223" "128 \<le> b" "b \<le> (191 :: nat)"
  defines "r \<equiv> (a - 192) * 64 + (b - 128)"
  shows "192 + r div 64 = a" "128 + r mod 64 = b" "128 \<le> r" "r < 2048"
proof -
  from assms have bl: "b - 128 < 64" by linarith
  have d: "r div 64 = a - 192" and m: "r mod 64 = b - 128"
    unfolding r_def using digit64 [OF bl] by blast+
  from d assms show "192 + r div 64 = a" by simp
  from m assms show "128 + r mod 64 = b" by simp
  from assms show "128 \<le> r" "r < 2048" by (auto simp: r_def)
qed

lemma encode_decode3:
  assumes "224 \<le> a" "a \<le> 239" "128 \<le> b" "b \<le> 191" "128 \<le> c" "c \<le> (191 :: nat)"
    and "a = 224 \<longrightarrow> 160 \<le> b" and "a = 237 \<longrightarrow> b \<le> 159"
  defines "r \<equiv> (a - 224) * 4096 + (b - 128) * 64 + (c - 128)"
  shows "224 + r div 4096 = a" "128 + r div 64 mod 64 = b" "128 + r mod 64 = c"
    "2048 \<le> r" "r < 65536" "valid_rune r"
proof -
  from assms have bl: "b - 128 < 64" and cl: "c - 128 < 64" by linarith+
  have r1: "r = ((a - 224) * 64 + (b - 128)) * 64 + (c - 128)" by (simp add: r_def)
  have m: "r mod 64 = c - 128" and d: "r div 64 = (a - 224) * 64 + (b - 128)"
    unfolding r1 using digit64 [OF cl] by blast+
  have m2: "r div 64 mod 64 = b - 128" and d2: "r div 64 div 64 = a - 224"
    unfolding d using digit64 [OF bl] by blast+
  from d2 have "r div 4096 = a - 224" by (simp add: div_mult2_eq [symmetric])
  with assms show "224 + r div 4096 = a" by simp
  from m2 assms show "128 + r div 64 mod 64 = b" by simp
  from m assms show "128 + r mod 64 = c" by simp
  define A B C where "A = a - 224" and "B = b - 128" and "C = c - 128"
  note abc = assms(1-8) bl cl A_def B_def C_def
  have r2: "r = A * 4096 + B * 64 + C" by (simp add: r_def A_def B_def C_def)
  from abc have A: "A \<le> 15" "B < 64" "C < 64" "A = 0 \<longrightarrow> 32 \<le> B" "A = 13 \<longrightarrow> B < 32"
    by linarith+
  then show "2048 \<le> r" unfolding r2 by linarith
  from A show r3: "r < 65536" unfolding r2 by linarith
  consider "A \<le> 12" | "A = 13" | "14 \<le> A" by linarith
  then have "r < 55296 \<or> 57343 < r"
    using A unfolding r2 by cases linarith+
  with r3 show "valid_rune r" by (auto simp: valid_rune_def surrogate_def)
qed

lemma encode_decode4:
  assumes "240 \<le> a" "a \<le> 244" "128 \<le> b" "b \<le> 191" "128 \<le> c" "c \<le> 191"
    and "128 \<le> d" "d \<le> (191 :: nat)"
    and "a = 240 \<longrightarrow> 144 \<le> b" and "a = 244 \<longrightarrow> b \<le> 143"
  defines "r \<equiv> (a - 240) * 262144 + (b - 128) * 4096 + (c - 128) * 64 + (d - 128)"
  shows "240 + r div 262144 = a" "128 + r div 4096 mod 64 = b" "128 + r div 64 mod 64 = c"
    "128 + r mod 64 = d" "65536 \<le> r" "valid_rune r"
proof -
  from assms have bl: "b - 128 < 64" and cl: "c - 128 < 64" and dl: "d - 128 < 64" by linarith+
  have r1: "r = (((a - 240) * 64 + (b - 128)) * 64 + (c - 128)) * 64 + (d - 128)"
    by (simp add: r_def)
  have m: "r mod 64 = d - 128" and d: "r div 64 = ((a - 240) * 64 + (b - 128)) * 64 + (c - 128)"
    unfolding r1 using digit64 [OF dl] by blast+
  have m2: "r div 64 mod 64 = c - 128" and d2: "r div 64 div 64 = (a - 240) * 64 + (b - 128)"
    unfolding d using digit64 [OF cl] by blast+
  have m3: "r div 64 div 64 mod 64 = b - 128" and d3: "r div 64 div 64 div 64 = a - 240"
    unfolding d2 using digit64 [OF bl] by blast+
  have e: "r div 4096 = r div 64 div 64" "r div 262144 = r div 64 div 64 div 64"
    by (simp_all add: div_mult2_eq [symmetric])
  from d3 assms e show "240 + r div 262144 = a" by simp
  from m3 assms e show "128 + r div 4096 mod 64 = b" by simp
  from m2 assms show "128 + r div 64 mod 64 = c" by simp
  from m assms show "128 + r mod 64 = d" by simp
  define A B C D where "A = a - 240" and "B = b - 128" and "C = c - 128" and "D = d - 128"
  note abcd = assms(1-10) bl cl dl A_def B_def C_def D_def
  have r2: "r = A * 262144 + B * 4096 + C * 64 + D" by (simp add: r_def A_def B_def C_def D_def)
  from abcd have A: "A \<le> 4" "B < 64" "C < 64" "D < 64" "A = 0 \<longrightarrow> 16 \<le> B" "A = 4 \<longrightarrow> B < 16"
    by linarith+
  then show lo: "65536 \<le> r" unfolding r2 by linarith
  consider "A \<le> 3" | "A = 4" using A(1) by linarith
  then have "r \<le> 1114111" using A unfolding r2 by cases linarith+
  with lo show "valid_rune r" by (simp add: valid_rune_def surrogate_def)
qed

text \<open>A decoded rune is a valid rune, and unless the piece is bad its bytes are its encoding.\<close>

lemma decode_rune_sound:
  assumes "decode_rune (c # s) = (r, n)"
  shows "valid_rune r \<and> (\<not> bad_piece (r, take n (c # s)) \<longrightarrow> encode_rune r = take n (c # s))
    \<and> (1 < n \<longrightarrow> 128 \<le> r)"
  using assms
proof (cases rule: decode_rune_cases)
  case ascii
  then show ?thesis by (simp add: valid_rune_def surrogate_def encode_rune_def)
next
  case (two c1 t)
  then have b: "194 \<le> (of_char c :: nat)" "of_char c \<le> (223 :: nat)" "128 \<le> (of_char c1 :: nat)"
    "of_char c1 \<le> (191 :: nat)"
    by (simp_all add: byte_in_def)
  note e = encode_decode2 [OF b, folded two(4)]
  from e(3,4) have "encode_rune r = [c, c1]" "valid_rune r"
    by (simp_all add: encode_rune_def e(1,2) valid_rune_def surrogate_def)
  with two e(3) show ?thesis by simp
next
  case (three c1 c2 t)
  then have b: "224 \<le> (of_char c :: nat)" "of_char c \<le> (239 :: nat)" "128 \<le> (of_char c1 :: nat)"
    "of_char c1 \<le> (191 :: nat)" "128 \<le> (of_char c2 :: nat)" "of_char c2 \<le> (191 :: nat)"
    "of_char c = (224 :: nat) \<longrightarrow> 160 \<le> (of_char c1 :: nat)"
    "of_char c = (237 :: nat) \<longrightarrow> of_char c1 \<le> (159 :: nat)"
    by (simp_all add: byte_in_def)
  note e = encode_decode3 [OF b, folded three(7)]
  from e(4-6) have "encode_rune r = [c, c1, c2]"
    by (simp add: encode_rune_def e(1-3))
  with three e(4,6) show ?thesis by simp
next
  case (four c1 c2 c3 t)
  then have b: "240 \<le> (of_char c :: nat)" "of_char c \<le> (244 :: nat)" "128 \<le> (of_char c1 :: nat)"
    "of_char c1 \<le> (191 :: nat)" "128 \<le> (of_char c2 :: nat)" "of_char c2 \<le> (191 :: nat)"
    "128 \<le> (of_char c3 :: nat)" "of_char c3 \<le> (191 :: nat)"
    "of_char c = (240 :: nat) \<longrightarrow> 144 \<le> (of_char c1 :: nat)"
    "of_char c = (244 :: nat) \<longrightarrow> of_char c1 \<le> (143 :: nat)"
    by (simp_all add: byte_in_def)
  note e = encode_decode4 [OF b, folded four(8)]
  from e(5,6) have "encode_rune r = [c, c1, c2, c3]"
    by (simp add: encode_rune_def e(1-4))
  with four e(5,6) show ?thesis by simp
next
  case bad
  then show ?thesis by (simp add: valid_rune_def surrogate_def rune_error_def bad_piece_def)
qed

lemma pieces_Nil [simp]: "pieces [] = []"
  by (simp add: pieces.simps)

lemma pieces_Cons:
  assumes "decode_rune (c # s) = (r, n)"
  shows "pieces (c # s) = (r, take n (c # s)) # pieces (drop n (c # s))"
  using assms by (simp add: pieces.simps)

text \<open>Induction over the pieces of a string.\<close>

lemma pieces_induct [case_names Nil Cons]:
  assumes "P []"
    and "\<And>c s r n. decode_rune (c # s) = (r, n) \<Longrightarrow> P (drop n (c # s)) \<Longrightarrow> P (c # s)"
  shows "P s"
proof (induction s rule: length_induct)
  case (1 s)
  show ?case
  proof (cases s)
    case (Cons c t)
    obtain r n where d: "decode_rune (c # t) = (r, n)" by fastforce
    with decode_rune_width [OF d] 1 Cons have "P (drop n (c # t))" by simp
    with assms(2) [OF d] Cons show ?thesis by simp
  qed (simp add: assms(1))
qed

lemma concat_pieces: "concat (map snd (pieces s)) = s"
proof (induction s rule: pieces_induct)
  case (Cons c s r n)
  then show ?case by (simp add: pieces_Cons del: take_Cons drop_Cons)
qed (simp add: pieces.simps)

lemma pieces_sound:
  "(r, bs) \<in> set (pieces s) \<Longrightarrow> valid_rune r \<and> (\<not> bad_piece (r, bs) \<longrightarrow> encode_rune r = bs)"
proof (induction s rule: pieces_induct)
  case (Cons c s r' n)
  with decode_rune_sound [OF Cons.hyps] show ?case
    by (auto simp: pieces_Cons)
qed (simp add: pieces.simps)

text \<open>What a piece reads as does not depend on what follows it.\<close>

lemma decode_rune_take:
  assumes "decode_rune (c # s) = (r, n)" and "\<not> bad_piece (r, take n (c # s))"
  shows "decode_rune (take n (c # s) @ rest) = (r, n)"
  using assms
proof (cases rule: decode_rune_cases)
  case bad
  with assms(2) show ?thesis by (simp add: bad_piece_def)
qed (auto simp: decode_rune.simps byte_in_def)

lemma decode_piece:
  "(r, bs) \<in> set (pieces s) \<Longrightarrow> \<not> bad_piece (r, bs) \<Longrightarrow> decode_rune (bs @ rest) = (r, length bs)"
proof (induction s rule: pieces_induct)
  case (Cons c s r' n)
  with decode_rune_take [OF Cons.hyps, of rest] decode_rune_width [OF Cons.hyps] show ?case
    by (auto simp: pieces_Cons min_def split: if_splits)
qed simp

lemma piece_bytes:
  assumes "(r, bs) \<in> set (pieces s)"
  shows "if r < 128 then bs = [char_of r] else bs \<noteq> [] \<and> (\<forall>c\<in>set bs. 128 \<le> (of_char c :: nat))"
  using assms
proof (induction s rule: pieces_induct)
  case (Cons c s r' n)
  have "if r' < 128 then take n (c # s) = [char_of r']
    else take n (c # s) \<noteq> [] \<and> (\<forall>c\<in>set (take n (c # s)). 128 \<le> (of_char c :: nat))"
    using Cons.hyps
  proof (cases rule: decode_rune_cases)
    case ascii
    then show ?thesis by simp
  next
    case bad
    then show ?thesis by (simp add: rune_error_def)
  next
    case (two c1 t)
    then have "128 \<le> r'" using decode_rune_sound [OF Cons.hyps] by simp
    with two(1-3,5) show ?thesis by (simp add: byte_in_def)
  next
    case (three c1 c2 t)
    then have "128 \<le> r'" using decode_rune_sound [OF Cons.hyps] by simp
    with three(1-4,8) show ?thesis by (simp add: byte_in_def)
  next
    case (four c1 c2 c3 t)
    then have "128 \<le> r'" using decode_rune_sound [OF Cons.hyps] by simp
    with four(1-5,9) show ?thesis by (simp add: byte_in_def)
  qed
  moreover from Cons.prems
  have "(r, bs) = (r', take n (c # s)) \<or> (r, bs) \<in> set (pieces (drop n (c # s)))"
    by (simp only: pieces_Cons [OF Cons.hyps] list.set insert_iff)
  ultimately show ?case using Cons.IH by blast
qed simp

lemma to_valid_id: "valid_utf8 s \<Longrightarrow> to_valid s = s"
proof -
  assume "valid_utf8 s"
  then have "map (encode_rune \<circ> fst) (pieces s) = map snd (pieces s)"
    using pieces_sound [of _ _ s] by (auto simp: valid_utf8_def list_all_iff)
  then have "concat (map (encode_rune \<circ> fst) (pieces s)) = concat (map snd (pieces s))"
    by (rule arg_cong)
  then show ?thesis
    by (simp add: to_valid_def string_of_runes_def runes_def concat_pieces)
qed

text \<open>A string of ASCII characters is valid, and its pieces are its characters.\<close>

lemma pieces_ascii_Cons:
  "of_char c < (128 :: nat) \<Longrightarrow> pieces (c # s) = (of_char c, [c]) # pieces s"
  by (simp add: pieces.simps decode_rune.simps)

lemma valid_utf8_Nil [simp]: "valid_utf8 []"
  by (simp add: valid_utf8_def)

lemma valid_utf8_ascii_Cons: "of_char c < (128 :: nat) \<Longrightarrow> valid_utf8 (c # s) = valid_utf8 s"
  by (simp add: valid_utf8_def pieces_ascii_Cons bad_piece_def rune_error_def)

lemma valid_utf8_ascii: "\<forall>c\<in>set s. of_char c < (128 :: nat) \<Longrightarrow> valid_utf8 s"
  by (induction s) (simp_all add: valid_utf8_ascii_Cons)

section \<open>A written rune is read back\<close>

lemma base64_digits2: "\<exists>a b. r = a * 64 + b \<and> b < (64 :: nat) \<and> a = r div 64 \<and> b = r mod 64"
  by simp

lemma base64_digits3:
  "\<exists>a b c. r = a * 4096 + b * 64 + c \<and> b < 64 \<and> c < (64 :: nat)
     \<and> a = r div 4096 \<and> b = r div 64 mod 64 \<and> c = r mod 64"
proof -
  have "r div 4096 = r div 64 div 64" by (simp add: div_mult2_eq [symmetric])
  then have "r = r div 4096 * 4096 + r div 64 mod 64 * 64 + r mod 64"
    using div_mult_mod_eq [of r 64] div_mult_mod_eq [of "r div 64" 64] by linarith
  then show ?thesis by (intro exI conjI) auto
qed

lemma base64_digits4:
  "\<exists>a b c d. r = a * 262144 + b * 4096 + c * 64 + d \<and> b < 64 \<and> c < 64 \<and> d < (64 :: nat)
     \<and> a = r div 262144 \<and> b = r div 4096 mod 64 \<and> c = r div 64 mod 64 \<and> d = r mod 64"
proof -
  have "r div 4096 = r div 64 div 64" "r div 262144 = r div 4096 div 64"
    by (simp_all add: div_mult2_eq [symmetric])
  then have "r = r div 262144 * 262144 + r div 4096 mod 64 * 4096 + r div 64 mod 64 * 64 + r mod 64"
    using div_mult_mod_eq [of r 64] div_mult_mod_eq [of "r div 64" 64] div_mult_mod_eq [of "r div 4096" 64]
    by linarith
  then show ?thesis by (intro exI conjI) auto
qed

lemma decode_encode_rune:
  assumes "valid_rune r"
  shows "decode_rune (encode_rune r @ s) = (r, length (encode_rune r))"
proof -
  consider "r < 128" | "128 \<le> r" "r < 2048" | "2048 \<le> r" "r < 65536" | "65536 \<le> r" by linarith
  then show ?thesis
  proof cases
    case 1
    then show ?thesis by (simp add: encode_rune_def decode_rune.simps)
  next
    case 2
    obtain a b where d: "r = a * 64 + b" "b < 64" "a = r div 64" "b = r mod 64"
      using base64_digits2 by blast
    with 2 have "2 \<le> a" "a < 32" by linarith+
    with 2 d(1,2) show ?thesis
      by (simp add: encode_rune_def d(3,4) [symmetric] decode_rune.simps byte_in_def)
  next
    case 3
    obtain a b c where d: "r = a * 4096 + b * 64 + c" "b < 64" "c < 64"
        "a = r div 4096" "b = r div 64 mod 64" "c = r mod 64"
      using base64_digits3 by blast
    with 3 have a: "a < 16" "a = 0 \<longrightarrow> 32 \<le> b" by linarith+
    have "a = 13 \<longrightarrow> b \<le> 31"
      using assms d(1-3) by (auto simp: valid_rune_def surrogate_def)
    note ab = a this
    from 3 assms have "encode_rune r = [char_of (224 + a), char_of (128 + b), char_of (128 + c)]"
      by (simp add: encode_rune_def d(4-6) [symmetric])
    with ab d(2,3) show ?thesis
      by (simp add: decode_rune.simps byte_in_def) (simp add: d(1))
  next
    case 4
    obtain a b c e where d: "r = a * 262144 + b * 4096 + c * 64 + e" "b < 64" "c < 64" "e < 64"
        "a = r div 262144" "b = r div 4096 mod 64" "c = r div 64 mod 64" "e = r mod 64"
      using base64_digits4 by blast
    from assms have "r \<le> 1114111" by (simp add: valid_rune_def)
    with 4 d(1-4) have a: "a \<le> 4" "a = 0 \<longrightarrow> 16 \<le> b" "a = 4 \<longrightarrow> b \<le> 15" by linarith+
    from 4 assms
    have "encode_rune r = [char_of (240 + a), char_of (128 + b), char_of (128 + c), char_of (128 + e)]"
      by (simp add: encode_rune_def d(5-8) [symmetric])
    with a d(2-4) show ?thesis
      by (simp add: decode_rune.simps byte_in_def) (simp add: d(1))
  qed
qed

lemma encode_rune_nonempty: "encode_rune r \<noteq> []"
  by (simp add: encode_rune_def)

lemma encode_rune_width: "length (encode_rune rune_error) \<noteq> Suc 0"
  by (simp add: encode_rune_def rune_error_def valid_rune_def surrogate_def)

lemma pieces_string_of_runes:
  "\<forall>r\<in>set rs. valid_rune r \<Longrightarrow> pieces (string_of_runes rs) = map (\<lambda>r. (r, encode_rune r)) rs"
proof (induction rs)
  case (Cons r rs)
  obtain c t where e: "encode_rune r = c # t" using encode_rune_nonempty by (meson neq_Nil_conv)
  have "decode_rune (c # t @ string_of_runes rs) = (r, length (c # t))"
    using decode_encode_rune [of r "string_of_runes rs"] Cons.prems e by simp
  from pieces_Cons [OF this] Cons e show ?case by (simp add: string_of_runes_def)
qed (simp add: string_of_runes_def)

lemma runes_string_of_runes: "\<forall>r\<in>set rs. valid_rune r \<Longrightarrow> runes (string_of_runes rs) = rs"
  by (simp add: runes_def pieces_string_of_runes comp_def)

lemma valid_utf8_string_of_runes: "\<forall>r\<in>set rs. valid_rune r \<Longrightarrow> valid_utf8 (string_of_runes rs)"
  by (auto simp: valid_utf8_def pieces_string_of_runes list_all_iff bad_piece_def encode_rune_width)

lemma runes_valid: "r \<in> set (runes s) \<Longrightarrow> valid_rune r"
  using pieces_sound [of r _ s] by (auto simp: runes_def)

end
