(* ===== verification/Json_Text.thy ===== *)
theory Json_Text
  imports Utf8
begin

text \<open>
  Strings and numbers of JSON as Go's \<open>encoding/json\<close> writes and reads them: \<open>appendString\<close> with
  HTML escaping (what \<open>json.Marshal\<close> uses), \<open>unquoteBytes\<close>, the scanner's number grammar, and the
  decimal form of an \<open>int64\<close>. The main fact is that reading a written string gives the string
  back when it is valid UTF-8.
\<close>

abbreviation backslash :: char where
  "backslash \<equiv> CHR 0x5C"

abbreviation dquote :: char where
  "dquote \<equiv> CHR 0x22"

section \<open>Hexadecimal escapes\<close>

definition hex_digit :: "nat \<Rightarrow> char" where
  "hex_digit n = (if n < 10 then char_of (48 + n) else char_of (87 + n))"

definition hex_val :: "char \<Rightarrow> nat option" where
  "hex_val c =
     (if byte_in 48 57 c then Some (of_char c - 48)
      else if byte_in 97 102 c then Some (of_char c - 87)
      else if byte_in 65 70 c then Some (of_char c - 55)
      else None)"

lemma hex_val_digit [simp]: "n < 16 \<Longrightarrow> hex_val (hex_digit n) = Some n"
  by (simp add: hex_val_def hex_digit_def byte_in_def)

text \<open>\<open>hex.EncodeToString\<close>, and \<open>%x\<close> of a byte slice.\<close>

definition hex_text :: "string \<Rightarrow> string" where
  "hex_text bs = concat (map (\<lambda>b. [hex_digit (of_char b div 16), hex_digit (of_char b mod 16)]) bs)"

lemma hex_text_simps [simp]:
  "hex_text [] = []"
  "hex_text (b # bs) = hex_digit (of_char b div 16) # hex_digit (of_char b mod 16) # hex_text bs"
  by (simp_all add: hex_text_def)

lemma hex_text_append: "hex_text (xs @ ys) = hex_text xs @ hex_text ys"
  by (simp add: hex_text_def)

lemma length_hex_text [simp]: "length (hex_text bs) = 2 * length bs"
  by (induction bs) simp_all

lemma hex_digit_ascii: "n < 16 \<Longrightarrow> (of_char (hex_digit n) :: nat) < 128"
  by (simp add: hex_digit_def)

lemma byte_div_16: "(of_char b :: nat) div 16 < 16"
proof -
  have "(of_char b :: nat) < 256" by simp
  then show ?thesis by (simp add: less_mult_imp_div_less)
qed

lemma hex_text_digits: "c \<in> set (hex_text bs) \<Longrightarrow> \<exists>n < 16. c = hex_digit n"
proof (induction bs)
  case (Cons b bs)
  have "(of_char b :: nat) mod 16 < 16" by simp
  then have "\<exists>n < 16. hex_digit (of_char b mod 16) = hex_digit n" by blast
  with Cons byte_div_16 [of b] show ?case by auto
qed simp

definition u_escape :: "nat \<Rightarrow> string" where
  "u_escape r = [backslash, CHR ''u'', hex_digit (r div 4096 mod 16), hex_digit (r div 256 mod 16),
     hex_digit (r div 16 mod 16), hex_digit (r mod 16)]"

text \<open>\<open>getu4\<close>: four hexadecimal digits.\<close>

fun hex4 :: "string \<Rightarrow> nat option" where
  "hex4 (a # b # c # d # _) =
     (case (hex_val a, hex_val b, hex_val c, hex_val d) of
        (Some w, Some x, Some y, Some z) \<Rightarrow> Some (w * 4096 + x * 256 + y * 16 + z)
      | _ \<Rightarrow> None)"
| "hex4 _ = None"

lemma hex_recombine:
  fixes r :: nat
  assumes "r < 65536"
  shows "r div 4096 mod 16 * 4096 + r div 256 mod 16 * 256 + r div 16 mod 16 * 16 + r mod 16 = r"
proof -
  have "r = r div 16 * 16 + r mod 16" by simp
  moreover have "r div 16 = r div 256 * 16 + r div 16 mod 16"
    using div_mult_mod_eq [of "r div 16" 16] by (simp add: div_mult2_eq [symmetric])
  moreover have "r div 256 = r div 4096 * 16 + r div 256 mod 16"
    using div_mult_mod_eq [of "r div 256" 16] by (simp add: div_mult2_eq [symmetric])
  moreover have "r div 4096 < 16" using assms by simp
  then have "r div 4096 mod 16 = r div 4096" by simp
  ultimately show ?thesis by linarith
qed

lemma u_escape_Cons:
  "u_escape r = backslash # CHR ''u'' # drop 2 (u_escape r)"
  by (simp add: u_escape_def)

lemma hex4_u_escape [simp]: "r < 65536 \<Longrightarrow> hex4 (drop 2 (u_escape r) @ rest) = Some r"
  using hex_recombine [of r] by (simp add: u_escape_def)

lemma length_u_escape [simp]: "length (u_escape r) = 6"
  by (simp add: u_escape_def)

section \<open>Reading a string\<close>

text \<open>One step of \<open>unquoteBytes\<close>: the bytes written and the number of bytes read.\<close>

definition simple_escape :: "char \<Rightarrow> char option" where
  "simple_escape e =
     (if e = dquote \<or> e = backslash \<or> e = CHR ''/'' then Some e
      else if e = CHR ''b'' then Some (CHR 0x08)
      else if e = CHR ''f'' then Some (CHR 0x0C)
      else if e = CHR ''n'' then Some (CHR 0x0A)
      else if e = CHR ''r'' then Some (CHR 0x0D)
      else if e = CHR ''t'' then Some (CHR 0x09)
      else None)"

fun low_escape :: "string \<Rightarrow> nat option" where
  "low_escape (a # b # rest) =
     (if a = backslash \<and> b = CHR ''u'' then hex4 rest else None)"
| "low_escape _ = None"

definition utf16_pair :: "nat \<Rightarrow> nat option \<Rightarrow> nat option" where
  "utf16_pair hi lo =
     (case lo of
        Some l \<Rightarrow>
          if 55296 \<le> hi \<and> hi < 56320 \<and> 56320 \<le> l \<and> l < 57344
          then Some ((hi - 55296) * 1024 + (l - 56320) + 65536)
          else None
      | None \<Rightarrow> None)"

definition unquote_escape :: "string \<Rightarrow> (string \<times> nat) option" where
  "unquote_escape s =
     (case s of
        [] \<Rightarrow> None
      | e # rest \<Rightarrow>
          if e = CHR ''u'' then
            (case hex4 rest of
               None \<Rightarrow> None
             | Some r \<Rightarrow>
                 if surrogate r then
                   (case utf16_pair r (low_escape (drop 4 rest)) of
                      Some q \<Rightarrow> Some (encode_rune q, 12)
                    | None \<Rightarrow> Some (encode_rune rune_error, 6))
                 else Some (encode_rune r, 6))
          else map_option (\<lambda>d. ([d], 2)) (simple_escape e))"

definition unquote1 :: "char \<Rightarrow> string \<Rightarrow> (string \<times> nat) option" where
  "unquote1 c cs =
     (if c = backslash then unquote_escape cs
      else if of_char c < (32 :: nat) \<or> c = dquote then None
      else let (r, n) = decode_rune (c # cs) in Some (encode_rune r, n))"

lemma unquote1_width: "unquote1 c cs = Some (out, n) \<Longrightarrow> 0 < n"
  by (auto simp: unquote1_def unquote_escape_def decode_rune_width
      split: if_splits list.splits option.splits prod.splits dest: decode_rune_width)

function unquote :: "string \<Rightarrow> string option" where
  "unquote [] = Some []"
| "unquote (c # cs) =
     (case unquote1 c cs of
        None \<Rightarrow> None
      | Some (out, n) \<Rightarrow> map_option ((@) out) (unquote (drop n (c # cs))))"
  by pat_completeness auto
termination
  by (relation "measure length") (auto dest: unquote1_width)

declare unquote.simps [simp del]

lemma unquote_Nil [simp]: "unquote [] = Some []"
  by (simp add: unquote.simps)

lemma unquote_step:
  "unquote1 c cs = Some (out, n) \<Longrightarrow>
     unquote (c # cs) = map_option ((@) out) (unquote (drop n (c # cs)))"
  by (simp add: unquote.simps)

text \<open>The scanner's search for the closing quote: the raw body and what follows the quote.\<close>

definition push_body :: "string \<Rightarrow> (string \<times> string) option \<Rightarrow> (string \<times> string) option" where
  "push_body x res = map_option (\<lambda>(b, r). (x @ b, r)) res"

fun split_string :: "string \<Rightarrow> (string \<times> string) option" where
  "split_string [] = None"
| "split_string (c # cs) =
     (if c = dquote then Some ([], cs)
      else if c = backslash then
        (case cs of
           [] \<Rightarrow> None
         | e # rest \<Rightarrow> push_body [c, e] (split_string rest))
      else push_body [c] (split_string cs))"

lemma split_string_length: "split_string s = Some (b, r) \<Longrightarrow> length r < length s"
proof (induction s arbitrary: b r rule: split_string.induct)
  case (2 c cs)
  then show ?case
    by (fastforce simp: push_body_def split: if_splits list.splits)
qed simp

lemma push_body_push_body [simp]: "push_body x (push_body y res) = push_body (x @ y) res"
  by (cases res) (auto simp: push_body_def)

lemma push_body_simps [simp]:
  "push_body [] res = res"
  "push_body x (Some (b, r)) = Some (x @ b, r)"
  by (cases res) (auto simp: push_body_def)

section \<open>Writing a string\<close>

definition html_safe :: "nat \<Rightarrow> bool" where
  "html_safe n = (32 \<le> n \<and> n < 128 \<and> n \<notin> {34, 38, 60, 62, 92})"

fun esc_piece :: "nat \<times> string \<Rightarrow> string" where
  "esc_piece (r, bs) =
     (if r < 128 then
        (if html_safe r then bs
         else if r = 34 \<or> r = 92 then [backslash, char_of r]
         else if r = 8 then [backslash, CHR ''b'']
         else if r = 12 then [backslash, CHR ''f'']
         else if r = 10 then [backslash, CHR ''n'']
         else if r = 13 then [backslash, CHR ''r'']
         else if r = 9 then [backslash, CHR ''t'']
         else u_escape r)
      else if bad_piece (r, bs) then u_escape rune_error
      else if r = 8232 \<or> r = 8233 then u_escape r
      else bs)"

definition escape :: "string \<Rightarrow> string" where
  "escape s = concat (map esc_piece (pieces s))"

definition json_quote :: "string \<Rightarrow> string" where
  "json_quote s = dquote # escape s @ [dquote]"

section \<open>Reading what was written\<close>

lemma unquote_u_escape:
  assumes "r < 65536" and "\<not> surrogate r"
  shows "unquote (u_escape r @ rest) = map_option ((@) (encode_rune r)) (unquote rest)"
proof -
  have "unquote1 backslash (CHR ''u'' # drop 2 (u_escape r) @ rest) = Some (encode_rune r, 6)"
    using assms by (simp add: unquote1_def unquote_escape_def)
  then show ?thesis
    by (subst u_escape_Cons) (simp add: unquote_step u_escape_def)
qed

lemma unquote_simple_escape:
  assumes "simple_escape e = Some d" and "e \<noteq> CHR ''u''"
  shows "unquote (backslash # e # rest) = map_option ((#) d) (unquote rest)"
proof -
  have "unquote1 backslash (e # rest) = Some ([d], 2)"
    using assms by (simp add: unquote1_def unquote_escape_def)
  moreover have "((@) [d]) = ((#) d)" by auto
  ultimately show ?thesis by (simp add: unquote_step)
qed

lemma unquote_plain:
  assumes "decode_rune ((c # cs) @ rest) = (r, length (c # cs))" and "encode_rune r = c # cs"
    and "c \<noteq> backslash" and "c \<noteq> dquote" and "32 \<le> (of_char c :: nat)"
  shows "unquote ((c # cs) @ rest) = map_option ((@) (encode_rune r)) (unquote rest)"
proof -
  have "unquote1 c (cs @ rest) = Some (encode_rune r, length (c # cs))"
    using assms by (simp add: unquote1_def)
  then show ?thesis by (simp add: unquote_step)
qed

lemma char_of_num_eq:
  "char_of (34 :: nat) = dquote" "char_of (92 :: nat) = backslash" "char_of (8 :: nat) = CHR 0x08"
  "char_of (12 :: nat) = CHR 0x0C" "char_of (10 :: nat) = CHR 0x0A" "char_of (13 :: nat) = CHR 0x0D"
  "char_of (9 :: nat) = CHR 0x09"
  by (simp_all add: char_of_def bit_0)

lemma of_char_special [simp]:
  "(of_char dquote :: nat) = 34" "(of_char backslash :: nat) = 92"
  by simp_all

lemma unquote_esc_piece:
  assumes p: "(r, bs) \<in> set (pieces s)"
  shows "unquote (esc_piece (r, bs) @ rest) = map_option ((@) (encode_rune r)) (unquote rest)"
proof -
  note v = pieces_sound [OF p] and b = piece_bytes [OF p] and d = decode_piece [OF p]
  consider (safe) "html_safe r" | (special) "r < 128" "\<not> html_safe r"
    | (bad) "128 \<le> r" "bad_piece (r, bs)"
    | (sep) "128 \<le> r" "\<not> bad_piece (r, bs)" "r = 8232 \<or> r = 8233"
    | (multi) "128 \<le> r" "\<not> bad_piece (r, bs)" "r \<noteq> 8232" "r \<noteq> 8233"
    by linarith
  then show ?thesis
  proof cases
    case safe
    then have r: "r < 128" "32 \<le> r" "r \<noteq> 34" "r \<noteq> 92" by (auto simp: html_safe_def)
    then have bs: "bs = [char_of r]" and nb: "\<not> bad_piece (r, bs)"
      using b by (auto simp: bad_piece_def rune_error_def)
    have inv: "of_char (char_of r :: char) = r" using r(1) by simp
    have "char_of r \<noteq> backslash"
    proof
      assume "char_of r = backslash"
      with inv have "of_char backslash = r" by (simp only:)
      with r(4) show False by simp
    qed
    moreover have "char_of r \<noteq> dquote"
    proof
      assume "char_of r = dquote"
      with inv have "of_char dquote = r" by (simp only:)
      with r(3) show False by simp
    qed
    moreover have "decode_rune (char_of r # rest) = (r, 1)" using d [OF nb, of rest] bs by simp
    moreover have "encode_rune r = [char_of r]" using v nb bs by simp
    ultimately show ?thesis
      using unquote_plain [of "char_of r" "[]" rest r] inv safe r(1,2) bs by simp
  next
    case special
    then have "r < 32 \<or> r \<in> {34, 38, 60, 62, 92}" by (auto simp: html_safe_def)
    then have "esc_piece (r, bs) = u_escape r \<and> r < 128
      \<or> (\<exists>e. esc_piece (r, bs) = [backslash, e] \<and> e \<noteq> CHR ''u''
             \<and> simple_escape e = Some (char_of r) \<and> encode_rune r = [char_of r])"
      using special by (auto simp: simple_escape_def char_of_num_eq encode_rune_def)
    then show ?thesis
    proof (elim disjE exE conjE)
      assume "esc_piece (r, bs) = u_escape r" "r < 128"
      then show ?thesis
        using unquote_u_escape [of r rest] by (simp add: surrogate_def del: esc_piece.simps)
    next
      fix e
      assume e: "esc_piece (r, bs) = [backslash, e]" "e \<noteq> CHR ''u''"
        "simple_escape e = Some (char_of r)" "encode_rune r = [char_of r]"
      have "((@) [char_of r]) = ((#) (char_of r :: char))" by auto
      with e unquote_simple_escape [OF e(3,2), of rest] show ?thesis
        by (simp del: esc_piece.simps)
    qed
  next
    case bad
    then have "r = rune_error" by (simp add: bad_piece_def)
    then show ?thesis
      using bad unquote_u_escape [of rune_error rest] by (simp add: rune_error_def surrogate_def)
  next
    case sep
    then show ?thesis
      using unquote_u_escape [of r rest] by (auto simp: surrogate_def)
  next
    case multi
    then obtain c cs where bs: "bs = c # cs" using b by (cases bs) auto
    with multi b have c: "128 \<le> (of_char c :: nat)" by auto
    then have "c \<noteq> backslash" "c \<noteq> dquote" by auto
    then show ?thesis
      using unquote_plain [of c cs rest r] d [of rest] v multi bs c by simp
  qed
qed


declare esc_piece.simps [simp del]

lemma unquote_escape_pieces:
  "set ps \<subseteq> set (pieces s) \<Longrightarrow>
     unquote (concat (map esc_piece ps)) = Some (concat (map (encode_rune \<circ> fst) ps))"
proof (induction ps)
  case (Cons p ps)
  obtain r bs where p: "p = (r, bs)" by fastforce
  with Cons unquote_esc_piece [of r bs s "concat (map esc_piece ps)"] show ?case by simp
qed simp

text \<open>
  Reading back what was written gives the string with its bad bytes replaced; for valid UTF-8
  that is the string itself.
\<close>

lemma unquote_escape_string: "unquote (escape s) = Some (to_valid s)"
  using unquote_escape_pieces [of "pieces s" s]
  by (simp add: escape_def to_valid_def string_of_runes_def runes_def)

text \<open>No unescaped quote is written, so the closing quote is found where it was put.\<close>

lemma split_string_plain:
  "\<forall>c\<in>set bs. c \<noteq> dquote \<and> c \<noteq> backslash \<Longrightarrow>
     split_string (bs @ rest) = push_body bs (split_string rest)"
  by (induction bs) auto

lemma of_char_neqI: "(of_char c :: nat) \<noteq> of_char d \<Longrightarrow> c \<noteq> d"
  by auto

lemma hex_digit_plain: "n < 16 \<Longrightarrow> hex_digit n \<noteq> dquote \<and> hex_digit n \<noteq> backslash"
  by (intro conjI of_char_neqI) (simp_all add: hex_digit_def)

lemma split_string_u_escape: "split_string (u_escape r @ rest) = push_body (u_escape r) (split_string rest)"
  by (simp add: u_escape_def hex_digit_plain)

lemma split_string_esc_piece:
  assumes p: "(r, bs) \<in> set (pieces s)"
  shows "split_string (esc_piece (r, bs) @ rest) = push_body (esc_piece (r, bs)) (split_string rest)"
proof -
  have high: "c \<noteq> dquote \<and> c \<noteq> backslash" if "128 \<le> (of_char c :: nat)" for c
    by (intro conjI of_char_neqI) (use that in simp_all)
  consider (safe) "html_safe r" "bs = [char_of r]" | (special) "r < 128" "\<not> html_safe r"
    | (esc) "128 \<le> r" "esc_piece (r, bs) = u_escape rune_error \<or> esc_piece (r, bs) = u_escape r"
    | (multi) "128 \<le> r" "esc_piece (r, bs) = bs" "\<forall>c\<in>set bs. 128 \<le> (of_char c :: nat)"
  proof (cases "r < 128")
    case True
    with that(1,2) piece_bytes [OF p] show ?thesis by (cases "html_safe r") auto
  next
    case False
    then have "esc_piece (r, bs) \<in> {u_escape rune_error, u_escape r, bs}"
      by (simp add: esc_piece.simps)
    with False that(3,4) piece_bytes [OF p] show ?thesis by auto
  qed
  then show ?thesis
  proof cases
    case safe
    then have "char_of r \<noteq> dquote \<and> char_of r \<noteq> backslash"
      by (intro conjI of_char_neqI) (auto simp: html_safe_def)
    with safe split_string_plain [of bs rest] show ?thesis
      by (simp add: esc_piece.simps html_safe_def)
  next
    case special
    then show ?thesis
      by (auto simp: esc_piece.simps split_string_u_escape)
  next
    case esc
    then show ?thesis by (auto simp: split_string_u_escape)
  next
    case multi
    with high split_string_plain [of bs rest] show ?thesis by simp
  qed
qed

lemma split_string_escape: "split_string (escape s @ dquote # rest) = Some (escape s, rest)"
proof -
  have "split_string (concat (map esc_piece ps) @ dquote # rest) = Some (concat (map esc_piece ps), rest)"
    if "set ps \<subseteq> set (pieces s)" for ps
    using that
  proof (induction ps)
    case (Cons p ps)
    obtain r bs where p: "p = (r, bs)" by fastforce
    with Cons split_string_esc_piece [of r bs s "concat (map esc_piece ps) @ dquote # rest"]
    show ?case by simp
  qed simp
  then show ?thesis by (simp add: escape_def)
qed

section \<open>Numbers\<close>

definition is_digit :: "char \<Rightarrow> bool" where
  "is_digit c = byte_in 48 57 c"

definition digit_char :: "nat \<Rightarrow> char" where
  "digit_char n = char_of (48 + n)"

definition digit_val :: "char \<Rightarrow> nat" where
  "digit_val c = of_char c - 48"

text \<open>\<open>strconv.AppendInt\<close> in base ten.\<close>

fun nat_string :: "nat \<Rightarrow> string" where
  "nat_string n = (if n < 10 then [digit_char n] else nat_string (n div 10) @ [digit_char (n mod 10)])"

declare nat_string.simps [simp del]

definition int_string :: "int \<Rightarrow> string" where
  "int_string i = (if i < 0 then CHR ''-'' # nat_string (nat (- i)) else nat_string (nat i))"

text \<open>The number grammar of the scanner: the literal and what follows it.\<close>

definition lex_int :: "string \<Rightarrow> (string \<times> string) option" where
  "lex_int s =
     (case s of
        [] \<Rightarrow> None
      | c # cs \<Rightarrow>
          if c = CHR ''0'' then Some ([c], cs)
          else if is_digit c then Some (takeWhile is_digit s, dropWhile is_digit s)
          else None)"

definition lex_frac :: "string \<Rightarrow> (string \<times> string) option" where
  "lex_frac s =
     (case s of
        [] \<Rightarrow> Some ([], s)
      | c # cs \<Rightarrow>
          if c = CHR ''.'' then
            (if takeWhile is_digit cs = [] then None
             else Some (c # takeWhile is_digit cs, dropWhile is_digit cs))
          else Some ([], s))"

definition lex_exp :: "string \<Rightarrow> (string \<times> string) option" where
  "lex_exp s =
     (case s of
        [] \<Rightarrow> Some ([], s)
      | c # cs \<Rightarrow>
          if c = CHR ''e'' \<or> c = CHR ''E'' then
            (let (sg, ds) = (case cs of
                               d # rest \<Rightarrow> if d = CHR ''+'' \<or> d = CHR ''-'' then ([d], rest) else ([], cs)
                             | [] \<Rightarrow> ([], cs))
             in if takeWhile is_digit ds = [] then None
                else Some (c # sg @ takeWhile is_digit ds, dropWhile is_digit ds))
          else Some ([], s))"

definition lex_number :: "string \<Rightarrow> (string \<times> string) option" where
  "lex_number s =
     (let (m, s0) = (case s of
                       c # cs \<Rightarrow> if c = CHR ''-'' then ([c], cs) else ([], s)
                     | [] \<Rightarrow> ([], s))
      in case lex_int s0 of
           None \<Rightarrow> None
         | Some (i, s1) \<Rightarrow>
             (case lex_frac s1 of
                None \<Rightarrow> None
              | Some (f, s2) \<Rightarrow>
                  (case lex_exp s2 of
                     None \<Rightarrow> None
                   | Some (e, s3) \<Rightarrow> Some (m @ i @ f @ e, s3))))"

text \<open>\<open>strconv.ParseInt(s, 10, 64)\<close> on a number literal: fractions, exponents and values outside
  the range of \<open>int64\<close> are errors.\<close>

definition digits_val :: "string \<Rightarrow> nat" where
  "digits_val ds = foldl (\<lambda>n c. 10 * n + digit_val c) 0 ds"

definition parse_int64 :: "string \<Rightarrow> i64 option" where
  "parse_int64 s =
     (let (neg, ds) = (case s of
                         c # cs \<Rightarrow> if c = CHR ''-'' then (True, cs) else (False, s)
                       | [] \<Rightarrow> (False, s));
          v = (if neg then - int (digits_val ds) else int (digits_val ds))
      in if ds = [] \<or> \<not> list_all is_digit ds \<or> \<not> in_int64 v then None
         else Some (word_of_int v))"

lemma lex_int_split: "lex_int s = Some (i, r) \<Longrightarrow> s = i @ r \<and> i \<noteq> []"
  by (auto simp: lex_int_def split: list.splits if_splits)

lemma lex_frac_split: "lex_frac s = Some (f, r) \<Longrightarrow> s = f @ r"
  by (auto simp: lex_frac_def split: list.splits if_splits)

lemma lex_exp_split: "lex_exp s = Some (e, r) \<Longrightarrow> s = e @ r"
  by (auto simp: lex_exp_def Let_def split: list.splits if_splits)

lemma lex_number_split: "lex_number s = Some (l, r) \<Longrightarrow> s = l @ r \<and> l \<noteq> []"
  by (auto simp: lex_number_def Let_def split: list.splits if_splits option.splits prod.splits
      dest!: lex_int_split lex_frac_split lex_exp_split)

lemma lex_number_length: "lex_number (c # cs) = Some (l, r) \<Longrightarrow> length r \<le> length cs"
proof (drule lex_number_split, cases l)
  fix x xs
  assume "c # cs = l @ r \<and> l \<noteq> []" and "l = x # xs"
  then have "cs = xs @ r" by simp
  then show "length r \<le> length cs" by simp
qed simp

subsection \<open>An \<open>int64\<close> is read back as it was written\<close>

lemma is_digit_char [simp]: "n < 10 \<Longrightarrow> is_digit (digit_char n)"
  by (simp add: is_digit_def digit_char_def byte_in_def)

lemma digit_val_char [simp]: "n < 10 \<Longrightarrow> digit_val (digit_char n) = n"
  by (simp add: digit_val_def digit_char_def)

lemma digits_val_snoc: "digits_val (ds @ [c]) = 10 * digits_val ds + digit_val c"
  by (simp add: digits_val_def)

lemma nat_string_digits: "nat_string n \<noteq> [] \<and> (\<forall>c\<in>set (nat_string n). is_digit c)"
proof (induction n rule: nat_string.induct)
  case (1 n)
  then show ?case by (cases "n < 10") (simp_all add: nat_string.simps [of n])
qed

lemma digits_val_nat_string [simp]: "digits_val (nat_string n) = n"
proof (induction n rule: nat_string.induct)
  case (1 n)
  show ?case
  proof (cases "n < 10")
    case True
    then show ?thesis by (simp add: nat_string.simps [of n] digits_val_def)
  next
    case False
    with 1 show ?thesis by (simp add: nat_string.simps [of n] digits_val_snoc)
  qed
qed

lemma digit_char_0_iff: "n < 10 \<Longrightarrow> digit_char n = CHR ''0'' \<longleftrightarrow> n = 0"
proof -
  assume n: "n < 10"
  have "of_char (digit_char n) = (48 + n)" using n by (simp add: digit_char_def)
  moreover have "of_char CHR ''0'' = (48 :: nat)" by simp
  moreover have "digit_char 0 = CHR ''0''" by (simp add: digit_char_def char_of_def bit_0)
  ultimately show ?thesis by auto
qed

lemma hd_nat_string: "0 < n \<Longrightarrow> hd (nat_string n) \<noteq> CHR ''0''"
proof (induction n rule: nat_string.induct)
  case (1 n)
  show ?case
  proof (cases "n < 10")
    case True
    with 1 show ?thesis by (simp add: nat_string.simps [of n] digit_char_0_iff)
  next
    case False
    with 1 have "hd (nat_string (n div 10)) \<noteq> CHR ''0''" by simp
    with False nat_string_digits [of "n div 10"] show ?thesis
      by (simp add: nat_string.simps [of n])
  qed
qed

lemma is_digit_not: "is_digit c \<Longrightarrow> c \<noteq> CHR ''-'' \<and> c \<noteq> CHR ''.'' \<and> c \<noteq> CHR ''e'' \<and> c \<noteq> CHR ''E''"
  by (intro conjI of_char_neqI) (auto simp: is_digit_def byte_in_def)

text \<open>What may follow a number without becoming part of it.\<close>

definition num_stop :: "string \<Rightarrow> bool" where
  "num_stop s = (s = [] \<or> \<not> is_digit (hd s) \<and> hd s \<noteq> CHR ''.'' \<and> hd s \<noteq> CHR ''e'' \<and> hd s \<noteq> CHR ''E'')"

lemma lex_frac_stop: "num_stop s \<Longrightarrow> lex_frac s = Some ([], s)"
  by (auto simp: lex_frac_def num_stop_def split: list.splits)

lemma lex_exp_stop: "num_stop s \<Longrightarrow> lex_exp s = Some ([], s)"
  by (auto simp: lex_exp_def num_stop_def split: list.splits)

lemma lex_int_nat_string:
  assumes "num_stop rest"
  shows "lex_int (nat_string n @ rest) = Some (nat_string n, rest)"
proof -
  obtain c cs where n: "nat_string n = c # cs" using nat_string_digits [of n] by (cases "nat_string n") auto
  with nat_string_digits [of n] have d: "\<forall>x\<in>set (c # cs). is_digit x" by simp
  show ?thesis
  proof (cases "n = 0")
    case True
    then have "nat_string n = ''0''" by (simp add: nat_string.simps [of 0] digit_char_0_iff)
    then show ?thesis by (simp add: lex_int_def)
  next
    case False
    then have "c \<noteq> CHR ''0''" using hd_nat_string [of n] n by simp
    moreover have "rest = [] \<or> \<not> is_digit (hd rest)" using assms by (auto simp: num_stop_def)
    ultimately show ?thesis
      using n d takeWhile_append_stop [OF d, of rest] dropWhile_append_stop [OF d, of rest]
      by (simp add: lex_int_def)
  qed
qed

lemma lex_number_int_string:
  assumes "num_stop rest"
  shows "lex_number (int_string i @ rest) = Some (int_string i, rest)"
proof -
  obtain c cs where n: "nat_string (nat i) = c # cs" using nat_string_digits [of "nat i"] by (cases "nat_string (nat i)") auto
  with nat_string_digits [of "nat i"] have "c \<noteq> CHR ''-''" using is_digit_not by auto
  then show ?thesis
    using lex_int_nat_string [OF assms, of "nat i"] lex_int_nat_string [OF assms, of "nat (- i)"] n
    by (simp add: lex_number_def int_string_def lex_frac_stop [OF assms] lex_exp_stop [OF assms])
qed

lemma parse_int64_int_string: "parse_int64 (int_string (sint w)) = Some w"
proof -
  obtain c cs where n: "nat_string (nat (sint w)) = c # cs"
    using nat_string_digits [of "nat (sint w)"] by (cases "nat_string (nat (sint w))") auto
  with nat_string_digits [of "nat (sint w)"] have "c \<noteq> CHR ''-''" using is_digit_not by auto
  moreover have "digits_val (c # cs) = nat (sint w)" by (simp flip: n)
  moreover have "list_all is_digit (c # cs)" using nat_string_digits [of "nat (sint w)"] n
    by (simp add: list_all_iff)
  ultimately show ?thesis
    using nat_string_digits [of "nat (- sint w)"] sint_i64_bounds [of w] n
    by (auto simp: parse_int64_def int_string_def list_all_iff)
qed

end
