(* ===== verification/Json.thy ===== *)
theory Json
  imports Json_Text
begin

text \<open>
  JSON documents as Go's \<open>encoding/json\<close> reads and writes them. Reading is in two steps: a lexer
  turns the text into tokens, and a stack machine over the tokens, shaped after the scanner's
  \<open>parseState\<close> stack with its nesting limit, builds the value. Nothing here needs fuel: the lexer
  recurses on the rest of the text, the machine on the rest of the tokens.

  \<open>json_parse\<close> is what \<open>json.Unmarshal\<close> accepts (one value, nothing after it), \<open>json_first\<close> what
  \<open>json.Decoder.Decode\<close> reads (the first value, whatever follows it). \<open>render\<close> writes a document,
  compactly as \<open>json.Marshal\<close> does or indented as \<open>json.MarshalIndent\<close> does; the main theorem is
  that both are read back as the document they were written from.
\<close>

datatype json =
    JNull
  | JBool bool
  | JNum string
  | JStr string
  | JArr "json list"
  | JObj "(string \<times> json) list"

section \<open>Tokens\<close>

datatype tok =
    TLBrace | TRBrace | TLBrack | TRBrack | TColon | TComma
  | TTrue | TFalse | TNull
  | TStr string
  | TNum string
  | TErr

definition is_space :: "char \<Rightarrow> bool" where
  "is_space c = (c = CHR '' '' \<or> c = CHR 0x09 \<or> c = CHR 0x0A \<or> c = CHR 0x0D)"

definition punct :: "char \<Rightarrow> tok option" where
  "punct c =
     (if c = CHR ''{'' then Some TLBrace
      else if c = CHR ''}'' then Some TRBrace
      else if c = CHR ''['' then Some TLBrack
      else if c = CHR '']'' then Some TRBrack
      else if c = CHR '':'' then Some TColon
      else if c = CHR '','' then Some TComma
      else None)"

text \<open>
  The token a string starts with and the rest, for a string that starts with none of the white
  space and punctuation characters. \<open>None\<close> is a syntax error.
\<close>

definition lex_word :: "char \<Rightarrow> string \<Rightarrow> (tok \<times> string) option" where
  "lex_word c cs =
     (if c = dquote then
        (case split_string cs of
           None \<Rightarrow> None
         | Some (body, rest) \<Rightarrow> map_option (\<lambda>s. (TStr s, rest)) (unquote body))
      else if c = CHR ''-'' \<or> is_digit c then
        map_option (\<lambda>(l, rest). (TNum l, rest)) (lex_number (c # cs))
      else if has_prefix (c # cs) ''true'' then Some (TTrue, drop 3 cs)
      else if has_prefix (c # cs) ''false'' then Some (TFalse, drop 4 cs)
      else if has_prefix (c # cs) ''null'' then Some (TNull, drop 3 cs)
      else None)"

lemma lex_word_length: "lex_word c cs = Some (t, rest) \<Longrightarrow> length rest < length (c # cs)"
  by (auto simp: lex_word_def less_Suc_eq_le less_imp_le_nat split: if_splits option.splits
      dest!: lex_number_length split_string_length)

text \<open>The tokens of a text, up to and including the first error.\<close>

function lex :: "string \<Rightarrow> tok list" where
  "lex [] = []"
| "lex (c # cs) =
     (if is_space c then lex cs
      else case punct c of
             Some t \<Rightarrow> t # lex cs
           | None \<Rightarrow>
               (case lex_word c cs of
                  None \<Rightarrow> [TErr]
                | Some (t, rest) \<Rightarrow> t # lex rest))"
  by pat_completeness auto
termination
  by (relation "measure length") (auto dest: lex_word_length)

declare lex.simps [simp del]

lemma lex_Nil [simp]: "lex [] = []"
  by (simp add: lex.simps)

lemma lex_space: "is_space c \<Longrightarrow> lex (c # cs) = lex cs"
  by (simp add: lex.simps)

lemma lex_punct: "punct c = Some t \<Longrightarrow> \<not> is_space c \<Longrightarrow> lex (c # cs) = t # lex cs"
  by (simp add: lex.simps)

lemma lex_lex_word:
  "lex_word c cs = Some (t, rest) \<Longrightarrow> \<not> is_space c \<Longrightarrow> punct c = None \<Longrightarrow> lex (c # cs) = t # lex rest"
  by (simp add: lex.simps)

lemma lex_punct_simps [simp]:
  "lex (CHR ''{'' # cs) = TLBrace # lex cs" "lex (CHR ''}'' # cs) = TRBrace # lex cs"
  "lex (CHR ''['' # cs) = TLBrack # lex cs" "lex (CHR '']'' # cs) = TRBrack # lex cs"
  "lex (CHR '':'' # cs) = TColon # lex cs" "lex (CHR '','' # cs) = TComma # lex cs"
  by (simp_all add: lex_punct punct_def is_space_def)

lemma lex_keyword_simps [simp]:
  "lex (CHR ''t'' # CHR ''r'' # CHR ''u'' # CHR ''e'' # cs) = TTrue # lex cs"
  "lex (CHR ''f'' # CHR ''a'' # CHR ''l'' # CHR ''s'' # CHR ''e'' # cs) = TFalse # lex cs"
  "lex (CHR ''n'' # CHR ''u'' # CHR ''l'' # CHR ''l'' # cs) = TNull # lex cs"
  by (rule lex_lex_word;
      simp add: lex_word_def has_prefix_def is_space_def punct_def is_digit_def byte_in_def)+

lemma lex_quote: "lex (json_quote s @ cs) = TStr (to_valid s) # lex cs"
proof -
  have "lex_word dquote (escape s @ dquote # cs) = Some (TStr (to_valid s), cs)"
    by (simp add: lex_word_def split_string_escape unquote_escape_string)
  then show ?thesis
    by (simp add: json_quote_def lex_lex_word is_space_def punct_def)
qed

section \<open>The parser\<close>

datatype frame = FArr "json list" | FObj "(string \<times> json) list" string

text \<open>
  Where the machine stands: before a value, after an opening bracket or brace, before a key,
  after a key, or after a complete value. The lists of a frame are in reverse order.
\<close>

datatype pstate =
    PValue
  | PFirstElem
  | PFirstKey
  | PKey "(string \<times> json) list"
  | PColon "(string \<times> json) list" string
  | PEnd json

definition max_nesting :: nat where
  "max_nesting = 10000"

fun begin_value :: "frame list \<Rightarrow> tok \<Rightarrow> (pstate \<times> frame list) option" where
  "begin_value st TNull = Some (PEnd JNull, st)"
| "begin_value st TTrue = Some (PEnd (JBool True), st)"
| "begin_value st TFalse = Some (PEnd (JBool False), st)"
| "begin_value st (TStr s) = Some (PEnd (JStr s), st)"
| "begin_value st (TNum l) = Some (PEnd (JNum l), st)"
| "begin_value st TLBrack = (if length st < max_nesting then Some (PFirstElem, st) else None)"
| "begin_value st TLBrace = (if length st < max_nesting then Some (PFirstKey, st) else None)"
| "begin_value st _ = None"

fun end_value :: "json \<Rightarrow> frame list \<Rightarrow> tok \<Rightarrow> (pstate \<times> frame list) option" where
  "end_value v (FArr vs # st) TComma = Some (PValue, FArr (v # vs) # st)"
| "end_value v (FArr vs # st) TRBrack = Some (PEnd (JArr (rev (v # vs))), st)"
| "end_value v (FObj kvs k # st) TComma = Some (PKey ((k, v) # kvs), st)"
| "end_value v (FObj kvs k # st) TRBrace = Some (PEnd (JObj (rev ((k, v) # kvs))), st)"
| "end_value v _ _ = None"

fun pstep :: "pstate \<Rightarrow> frame list \<Rightarrow> tok \<Rightarrow> (pstate \<times> frame list) option" where
  "pstep PValue st t = begin_value st t"
| "pstep PFirstElem st TRBrack = Some (PEnd (JArr []), st)"
| "pstep PFirstElem st t = begin_value (FArr [] # st) t"
| "pstep PFirstKey st TRBrace = Some (PEnd (JObj []), st)"
| "pstep PFirstKey st (TStr k) = Some (PColon [] k, st)"
| "pstep PFirstKey st _ = None"
| "pstep (PKey kvs) st (TStr k) = Some (PColon kvs k, st)"
| "pstep (PKey kvs) st _ = None"
| "pstep (PColon kvs k) st TColon = Some (PValue, FObj kvs k # st)"
| "pstep (PColon kvs k) st _ = None"
| "pstep (PEnd v) st t = end_value v st t"

text \<open>
  Run the machine. With \<open>first\<close> it stops at the end of the outermost value, without it the
  tokens have to end there.
\<close>

fun prun :: "bool \<Rightarrow> pstate \<Rightarrow> frame list \<Rightarrow> tok list \<Rightarrow> json option" where
  "prun first p st [] = (case p of PEnd v \<Rightarrow> if st = [] then Some v else None | _ \<Rightarrow> None)"
| "prun first p st (t # ts) =
     (case (p, st) of
        (PEnd v, []) \<Rightarrow> if first then Some v else None
      | _ \<Rightarrow>
          (case pstep p st t of
             None \<Rightarrow> None
           | Some (p', st') \<Rightarrow> prun first p' st' ts))"

definition json_parse :: "string \<Rightarrow> json option" where
  "json_parse s = prun False PValue [] (lex s)"

definition json_first :: "string \<Rightarrow> json option" where
  "json_first s = prun True PValue [] (lex s)"

section \<open>The writer\<close>

text \<open>\<open>None\<close> writes compactly, \<open>Some u\<close> indents each level by \<open>u\<close>.\<close>

definition new_line :: "string option \<Rightarrow> nat \<Rightarrow> string" where
  "new_line ind d = (case ind of None \<Rightarrow> [] | Some u \<Rightarrow> CHR 0x0A # concat (replicate d u))"

definition colon :: "string option \<Rightarrow> string" where
  "colon ind = (case ind of None \<Rightarrow> '':'' | Some _ \<Rightarrow> '': '')"

definition bracketed :: "string option \<Rightarrow> nat \<Rightarrow> char \<Rightarrow> char \<Rightarrow> string list \<Rightarrow> string" where
  "bracketed ind d l r items =
     (if items = [] then [l, r]
      else l # join '','' (map (\<lambda>x. new_line ind (Suc d) @ x) items) @ new_line ind d @ [r])"

primrec render :: "string option \<Rightarrow> json \<Rightarrow> nat \<Rightarrow> string" where
  "render ind JNull d = ''null''"
| "render ind (JBool b) d = (if b then ''true'' else ''false'')"
| "render ind (JNum l) d = l"
| "render ind (JStr s) d = json_quote s"
| "render ind (JArr vs) d =
     bracketed ind d CHR ''['' CHR '']'' (map (\<lambda>f. f (Suc d)) (map (render ind) vs))"
| "render ind (JObj kvs) d =
     bracketed ind d CHR ''{'' CHR ''}''
       (map (\<lambda>(k, f). json_quote k @ colon ind @ f (Suc d)) (map (map_prod id (render ind)) kvs))"

definition json_marshal :: "json \<Rightarrow> string" where
  "json_marshal v = render None v 0"

definition json_marshal_indent :: "json \<Rightarrow> string" where
  "json_marshal_indent v = render (Some ''  '') v 0"

section \<open>Reading a written document\<close>

text \<open>The tokens of a document, its nesting depth, and the documents the agent writes: valid
  UTF-8 strings and \<open>int64\<close> numbers.\<close>

primrec json_toks :: "json \<Rightarrow> tok list" where
  "json_toks JNull = [TNull]"
| "json_toks (JBool b) = [if b then TTrue else TFalse]"
| "json_toks (JNum l) = [TNum l]"
| "json_toks (JStr s) = [TStr s]"
| "json_toks (JArr vs) = TLBrack # join [TComma] (map json_toks vs) @ [TRBrack]"
| "json_toks (JObj kvs) =
     TLBrace # join [TComma] (map (\<lambda>(k, ts). TStr k # TColon # ts) (map (map_prod id json_toks) kvs))
       @ [TRBrace]"

primrec depth :: "json \<Rightarrow> nat" where
  "depth JNull = 0"
| "depth (JBool b) = 0"
| "depth (JNum l) = 0"
| "depth (JStr s) = 0"
| "depth (JArr vs) = Suc (foldr max (map depth vs) 0)"
| "depth (JObj kvs) = Suc (foldr max (map snd (map (map_prod id depth) kvs)) 0)"

primrec wf_json :: "json \<Rightarrow> bool" where
  "wf_json JNull = True"
| "wf_json (JBool b) = True"
| "wf_json (JNum l) = (case parse_int64 l of Some w \<Rightarrow> l = int_string (sint w) | None \<Rightarrow> False)"
| "wf_json (JStr s) = valid_utf8 s"
| "wf_json (JArr vs) = list_all id (map wf_json vs)"
| "wf_json (JObj kvs) = list_all (\<lambda>(k, w). valid_utf8 k \<and> w) (map (map_prod id wf_json) kvs)"

lemma foldr_max_ge: "x \<in> set xs \<Longrightarrow> (x :: nat) \<le> foldr max xs 0"
  by (induction xs) auto

definition blank_indent :: "string option \<Rightarrow> bool" where
  "blank_indent ind = (case ind of None \<Rightarrow> True | Some u \<Rightarrow> list_all is_space u)"

lemma lex_blank: "list_all is_space u \<Longrightarrow> lex (u @ cs) = lex cs"
  by (induction u) (simp_all add: lex_space)

lemma lex_new_line [simp]: "blank_indent ind \<Longrightarrow> lex (new_line ind d @ cs) = lex cs"
proof (cases ind)
  case (Some u)
  assume "blank_indent ind"
  with Some have "list_all is_space (CHR 0x0A # concat (replicate d u))"
    by (auto simp: blank_indent_def list_all_iff is_space_def)
  from lex_blank [OF this] Some show ?thesis by (simp add: new_line_def)
qed (simp add: new_line_def)

lemma num_stop_simps [simp]:
  "num_stop (CHR '','' # cs)" "num_stop (CHR '']'' # cs)" "num_stop (CHR ''}'' # cs)"
  "num_stop (CHR 0x0A # cs)" "num_stop []"
  by (simp_all add: num_stop_def is_digit_def byte_in_def)

lemma num_stop_new_line [simp]: "num_stop cs \<Longrightarrow> num_stop (new_line ind d @ cs)"
  by (cases ind) (simp_all add: new_line_def)

text \<open>A text that lexes to the given tokens before any text that cannot extend a number.\<close>

definition lexes_to :: "string \<Rightarrow> tok list \<Rightarrow> bool" where
  "lexes_to s ts = (\<forall>cs. num_stop cs \<longrightarrow> lex (s @ cs) = ts @ lex cs)"

lemma lexes_toD: "lexes_to s ts \<Longrightarrow> num_stop cs \<Longrightarrow> lex (s @ cs) = ts @ lex cs"
  by (simp add: lexes_to_def)

lemma lex_items:
  assumes "list_all2 lexes_to xs tss" and "xs \<noteq> []" and "blank_indent ind" and "num_stop cs"
  shows "lex (join '','' (map (\<lambda>x. new_line ind d @ x) xs) @ cs) = join [TComma] tss @ lex cs"
  using assms
proof (induction rule: list_all2_induct)
  case (Cons x xs ts tss)
  show ?case
  proof (cases xs)
    case Nil
    with Cons show ?thesis by (simp add: lexes_toD)
  next
    case (Cons y ys)
    with Cons.hyps Cons.prems Cons.IH obtain us vs where "tss = us # vs" by (cases tss) auto
    with Cons Cons.hyps Cons.prems Cons.IH show ?thesis by (simp add: lexes_toD)
  qed
qed simp

lemma lex_bracketed:
  assumes "list_all2 lexes_to xs tss" and "blank_indent ind"
    and "(l = CHR ''['' \<and> r = CHR '']'' \<and> lt = TLBrack \<and> rt = TRBrack)
         \<or> (l = CHR ''{'' \<and> r = CHR ''}'' \<and> lt = TLBrace \<and> rt = TRBrace)"
  shows "lexes_to (bracketed ind d l r xs) (lt # join [TComma] tss @ [rt])"
proof (cases "xs = []")
  case True
  with assms show ?thesis by (auto simp: bracketed_def lexes_to_def)
next
  case False
  have "num_stop (new_line ind d @ r # cs)" for cs
    using assms(3) by (intro num_stop_new_line) auto
  with lex_items [OF assms(1) False assms(2)] assms(2,3) False show ?thesis
    by (auto simp: bracketed_def lexes_to_def)
qed

lemma lexes_number: "wf_json (JNum l) \<Longrightarrow> lexes_to l [TNum l]"
proof -
  assume "wf_json (JNum l)"
  then obtain w :: i64 where l: "l = int_string (sint w)"
    by (auto split: option.splits)
  obtain c cs where c: "l = c # cs" "c = CHR ''-'' \<or> is_digit c"
    using nat_string_digits [of "nat (sint w)"] l
    by (cases "nat_string (nat (sint w))") (auto simp: int_string_def split: if_splits)
  then have "\<not> is_space c" "punct c = None" "c \<noteq> dquote"
    by (auto simp: is_space_def punct_def is_digit_def byte_in_def)
  with c l show ?thesis
    using lex_number_int_string [of _ "sint w"]
    by (auto simp: lexes_to_def lex_word_def intro!: lex_lex_word)
qed

lemma lexes_member:
  assumes "lexes_to x ts" and "valid_utf8 k"
  shows "lexes_to (json_quote k @ colon ind @ x) (TStr k # TColon # ts)"
  using assms
  by (cases ind) (auto simp: lexes_to_def colon_def lex_quote to_valid_id lex_space is_space_def)

lemma lexes_render: "wf_json v \<Longrightarrow> blank_indent ind \<Longrightarrow> lexes_to (render ind v d) (json_toks v)"
proof (induction v arbitrary: d)
  case (JArr vs)
  then have "list_all2 lexes_to (map (\<lambda>f. f (Suc d)) (map (render ind) vs)) (map json_toks vs)"
    by (auto simp: list_all_iff list_all2_conv_all_nth)
  then show ?case using JArr.prems by (simp add: lex_bracketed)
next
  case (JObj kvs)
  have "list_all2 lexes_to
      (map (\<lambda>(k, f). json_quote k @ colon ind @ f (Suc d)) (map (map_prod id (render ind)) kvs))
      (map (\<lambda>(k, ts). TStr k # TColon # ts) (map (map_prod id json_toks) kvs))"
    unfolding list.rel_map list_all2_same
  proof
    fix m
    assume m: "m \<in> set kvs"
    with JObj.prems have "case map_prod id wf_json m of (k, w) \<Rightarrow> valid_utf8 k \<and> w"
      by (simp add: list_all_iff)
    then have "valid_utf8 (fst m)" "wf_json (snd m)" by (cases m; simp)+
    moreover from JObj.IH [OF m, of "snd m"] JObj.prems calculation
    have "lexes_to (render ind (snd m) (Suc d)) (json_toks (snd m))"
      by (cases m) simp
    ultimately show "lexes_to (case map_prod id (render ind) m of (k, f) \<Rightarrow> json_quote k @ colon ind @ f (Suc d))
        (case map_prod id json_toks m of (k, ts) \<Rightarrow> TStr k # TColon # ts)"
      by (cases m) (simp add: lexes_member)
  qed
  then show ?case using JObj.prems by (simp add: lex_bracketed)
next
  case (JNum l)
  then show ?case using lexes_number by simp
qed (auto simp: lexes_to_def lex_quote to_valid_id)

text \<open>The machine rebuilds the document from its tokens.\<close>

lemma prun_first_elem:
  "prun first PFirstElem st (json_toks v @ ts) = prun first PValue (FArr [] # st) (json_toks v @ ts)"
  by (cases v) simp_all

definition rebuilds :: "json \<Rightarrow> bool" where
  "rebuilds v = (\<forall>first st ts. depth v + length st \<le> max_nesting \<longrightarrow>
     prun first PValue st (json_toks v @ ts) = prun first (PEnd v) st ts)"

lemma rebuild_elems:
  assumes "\<forall>v\<in>set vs. rebuilds v \<and> depth v + length st < max_nesting" and "vs \<noteq> []"
  shows "prun first PValue (FArr acc # st) (join [TComma] (map json_toks vs) @ TRBrack # ts)
    = prun first (PEnd (JArr (rev acc @ vs))) st ts"
  using assms
proof (induction vs arbitrary: acc)
  case (Cons v vs)
  then have v: "prun first PValue (FArr acc # st) (json_toks v @ us) = prun first (PEnd v) (FArr acc # st) us" for us
    by (simp add: rebuilds_def)
  show ?case
  proof (cases vs)
    case Nil
    then show ?thesis by (simp add: v)
  next
    case (Cons w ws)
    with v Cons.IH [of "v # acc"] Cons.prems show ?thesis by simp
  qed
qed simp

lemma rebuild_members:
  assumes "\<forall>kv\<in>set kvs. rebuilds (snd kv) \<and> depth (snd kv) + length st < max_nesting" and "kvs \<noteq> []"
  shows "prun first (PKey acc) st
      (join [TComma] (map (\<lambda>kv. TStr (fst kv) # TColon # json_toks (snd kv)) kvs) @ TRBrace # ts)
    = prun first (PEnd (JObj (rev acc @ kvs))) st ts"
  using assms
proof (induction kvs arbitrary: acc)
  case (Cons m kvs)
  obtain k v where m: "m = (k, v)" by fastforce
  with Cons.prems have v: "prun first PValue (FObj acc k # st) (json_toks v @ us)
      = prun first (PEnd v) (FObj acc k # st) us" for us
    by (simp add: rebuilds_def)
  show ?case
  proof (cases kvs)
    case Nil
    with m show ?thesis by (simp add: v)
  next
    case (Cons w ws)
    with m v Cons.IH [of "m # acc"] Cons.prems show ?thesis by simp
  qed
qed simp

lemma prun_first_key:
  "kvs \<noteq> [] \<Longrightarrow>
     prun first PFirstKey st
       (join [TComma] (map (\<lambda>kv. TStr (fst kv) # TColon # json_toks (snd kv)) kvs) @ ts)
     = prun first (PKey []) st
       (join [TComma] (map (\<lambda>kv. TStr (fst kv) # TColon # json_toks (snd kv)) kvs) @ ts)"
  by (cases kvs; cases "tl kvs") simp_all

lemma rebuilds_all: "rebuilds v"
proof (induction v)
  case (JArr vs)
  show ?case
  proof (cases "vs = []")
    case True
    then show ?thesis by (simp add: rebuilds_def)
  next
    case False
    have "prun first PFirstElem st (join [TComma] (map json_toks vs) @ TRBrack # ts)
        = prun first (PEnd (JArr vs)) st ts"
      if d: "depth (JArr vs) + length st \<le> max_nesting" for first st ts
    proof -
      from d have "\<forall>v\<in>set vs. rebuilds v \<and> depth v + length st < max_nesting"
        using JArr foldr_max_ge [of _ "map depth vs"] by fastforce
      from rebuild_elems [OF this False, of first "[]"] show ?thesis
        using False by (cases vs; cases "tl vs") (simp_all add: prun_first_elem)
    qed
    then show ?thesis by (simp add: rebuilds_def)
  qed
next
  case (JObj kvs)
  have toks: "map (\<lambda>(k, ts). TStr k # TColon # ts) (map (map_prod id json_toks) kvs)
      = map (\<lambda>kv. TStr (fst kv) # TColon # json_toks (snd kv)) kvs"
    by auto
  show ?case
  proof (cases "kvs = []")
    case True
    then show ?thesis by (simp add: rebuilds_def)
  next
    case False
    have "prun first PFirstKey st
          (join [TComma] (map (\<lambda>kv. TStr (fst kv) # TColon # json_toks (snd kv)) kvs) @ TRBrace # ts)
        = prun first (PEnd (JObj kvs)) st ts"
      if d: "depth (JObj kvs) + length st \<le> max_nesting" for first st ts
    proof -
      have "depth (snd kv) \<le> foldr max (map snd (map (map_prod id depth) kvs)) 0" if "kv \<in> set kvs" for kv
        using that by (intro foldr_max_ge) force
      with d JObj have "\<forall>kv\<in>set kvs. rebuilds (snd kv) \<and> depth (snd kv) + length st < max_nesting"
        by (fastforce simp: snds.simps)
      from rebuild_members [OF this False, of first "[]"] show ?thesis
        using False by (simp add: prun_first_key)
    qed
    then show ?thesis unfolding rebuilds_def json_toks.simps(6) toks by simp
  qed
qed (auto simp: rebuilds_def)

lemma parse_render:
  assumes "wf_json v" and "blank_indent ind" and "depth v \<le> max_nesting"
  shows "json_parse (render ind v 0) = Some v"
proof -
  have "lex (render ind v 0) = json_toks v"
    using lexes_toD [OF lexes_render [OF assms(1,2)], of "[]"] by simp
  moreover have "prun False PValue [] (json_toks v @ []) = prun False (PEnd v) [] []"
    using rebuilds_all [of v] assms(3) unfolding rebuilds_def by (metis add_0_right list.size(3))
  ultimately show ?thesis by (simp add: json_parse_def)
qed

lemma json_parse_marshal [simp]:
  "wf_json v \<Longrightarrow> depth v \<le> max_nesting \<Longrightarrow> json_parse (json_marshal v) = Some v"
  by (simp add: json_marshal_def parse_render blank_indent_def)

lemma json_marshal_object: "\<exists>t. json_marshal (JObj kvs) = CHR ''{'' # t"
  by (simp add: json_marshal_def bracketed_def)

lemma json_parse_marshal_indent [simp]:
  "wf_json v \<Longrightarrow> depth v \<le> max_nesting \<Longrightarrow> json_parse (json_marshal_indent v) = Some v"
  by (simp add: json_marshal_indent_def parse_render blank_indent_def is_space_def)

text \<open>A decoder accepts whatever \<open>Unmarshal\<close> accepts, with the same value.\<close>

lemma prun_first: "prun False p st ts = Some v \<Longrightarrow> prun True p st ts = Some v"
proof (induction False p st ts rule: prun.induct)
  case (2 p st t ts)
  then show ?case
    by (auto split: pstate.splits list.splits option.splits prod.splits)
qed auto

lemma json_first_parse: "json_parse s = Some v \<Longrightarrow> json_first s = Some v"
  by (simp add: json_parse_def json_first_def prun_first)

end
