(* ===== verification/Unmarshal.thy ===== *)
theory Unmarshal
  imports Json
begin

text \<open>
  Decoding a JSON document into a Go struct, as \<open>json.Unmarshal\<close> does it. A key names the field
  whose name it equals up to case folding, an unknown key is skipped, a later duplicate
  overwrites an earlier one, and \<open>null\<close> leaves a field that is no pointer as it was. A value of
  the wrong type makes the whole decode an error; no caller in the agent looks at the partly
  filled struct afterwards, so the error is all the model keeps of it.

  A struct is decoded \<^emph>\<open>into\<close> an existing value: the handshake of the relay client decodes two
  frames into one variable.
\<close>

section \<open>Field names\<close>

text \<open>
  \<open>foldName\<close>. Field names are ASCII, so of the runes beyond ASCII only the two that fold to an
  ASCII letter matter: the long s (U+017F) and the Kelvin sign (U+212A).
\<close>

definition fold_rune :: "nat \<Rightarrow> nat" where
  "fold_rune r =
     (if 97 \<le> r \<and> r \<le> 122 then r - 32
      else if r = 383 then 83
      else if r = 8490 then 75
      else r)"

definition fold_name :: "string \<Rightarrow> string" where
  "fold_name s = string_of_runes (map fold_rune (runes s))"

lemma fold_name_Nil [simp]: "fold_name [] = []"
  by (simp add: fold_name_def runes_def string_of_runes_def)

lemma fold_name_ascii_Cons [simp]:
  assumes "of_char c < (128 :: nat)"
  shows "fold_name (c # s) = char_of (fold_rune (of_char c)) # fold_name s"
proof -
  have "fold_rune (of_char c) < 128" using assms by (auto simp: fold_rune_def)
  with assms show ?thesis
    by (simp add: fold_name_def runes_def string_of_runes_def pieces_ascii_Cons encode_rune_def)
qed

section \<open>Decoding members into a struct\<close>

type_synonym 'r setter = "json \<Rightarrow> 'r \<Rightarrow> 'r option"

type_synonym 'r fields = "(string \<times> 'r setter) list"

definition find_field :: "'r fields \<Rightarrow> string \<Rightarrow> 'r setter option" where
  "find_field fs key =
     (case find (\<lambda>f. fold_name (fst f) = fold_name key) fs of
        None \<Rightarrow> None
      | Some f \<Rightarrow> Some (snd f))"

fun decode_members :: "'r fields \<Rightarrow> (string \<times> json) list \<Rightarrow> 'r \<Rightarrow> 'r option" where
  "decode_members fs [] r = Some r"
| "decode_members fs ((k, v) # kvs) r =
     (case find_field fs k of
        None \<Rightarrow> decode_members fs kvs r
      | Some set_field \<Rightarrow>
          (case set_field v r of
             None \<Rightarrow> None
           | Some r' \<Rightarrow> decode_members fs kvs r'))"

definition decode_struct :: "'r fields \<Rightarrow> json \<Rightarrow> 'r \<Rightarrow> 'r option" where
  "decode_struct fs v r =
     (case v of
        JObj kvs \<Rightarrow> decode_members fs kvs r
      | JNull \<Rightarrow> Some r
      | _ \<Rightarrow> None)"

definition unmarshal_into :: "'r fields \<Rightarrow> string \<Rightarrow> 'r \<Rightarrow> 'r option" where
  "unmarshal_into fs s r = Option.bind (json_parse s) (\<lambda>v. decode_struct fs v r)"

text \<open>The value of one field of the types that occur: \<open>string\<close>, \<open>int64\<close>, \<open>bool\<close>, \<open>*bool\<close>.\<close>

definition into_string :: "json \<Rightarrow> string \<Rightarrow> string option" where
  "into_string v old = (case v of JStr s \<Rightarrow> Some s | JNull \<Rightarrow> Some old | _ \<Rightarrow> None)"

definition into_int64 :: "json \<Rightarrow> i64 \<Rightarrow> i64 option" where
  "into_int64 v old = (case v of JNum l \<Rightarrow> parse_int64 l | JNull \<Rightarrow> Some old | _ \<Rightarrow> None)"

definition into_bool :: "json \<Rightarrow> bool \<Rightarrow> bool option" where
  "into_bool v old = (case v of JBool b \<Rightarrow> Some b | JNull \<Rightarrow> Some old | _ \<Rightarrow> None)"

definition into_bool_ptr :: "json \<Rightarrow> bool option option" where
  "into_bool_ptr v = (case v of JBool b \<Rightarrow> Some (Some b) | JNull \<Rightarrow> Some None | _ \<Rightarrow> None)"

lemma into_simps [simp]:
  "into_string (JStr s) old = Some s"
  "into_int64 (JNum (int_string (sint w))) old2 = Some w"
  "into_bool (JBool b) old3 = Some b"
  "into_bool_ptr (JBool b) = Some (Some b)"
  by (simp_all add: into_string_def into_int64_def into_bool_def into_bool_ptr_def
      parse_int64_int_string)

lemma decode_members_append:
  "decode_members fs (xs @ ys) r = Option.bind (decode_members fs xs r) (decode_members fs ys)"
  by (induction fs xs r rule: decode_members.induct) (auto split: option.splits)

lemma decode_member:
  "find_field fs k = Some f \<Longrightarrow> decode_members fs [(k, v)] r = f v r"
  by (simp split: option.splits)

section \<open>Members of an encoded struct\<close>

text \<open>\<open>omitempty\<close>: an empty string, a zero and a nil pointer are left out.\<close>

definition string_member :: "string \<Rightarrow> string \<Rightarrow> (string \<times> json) list" where
  "string_member k s = (if s = [] then [] else [(k, JStr s)])"

definition int64_member :: "string \<Rightarrow> i64 \<Rightarrow> (string \<times> json) list" where
  "int64_member k w = (if w = 0 then [] else [(k, JNum (int_string (sint w)))])"

definition bool_ptr_member :: "string \<Rightarrow> bool option \<Rightarrow> (string \<times> json) list" where
  "bool_ptr_member k p = (case p of None \<Rightarrow> [] | Some b \<Rightarrow> [(k, JBool b)])"

lemmas member_defs = string_member_def int64_member_def bool_ptr_member_def

definition wf_member :: "string \<times> json \<Rightarrow> bool" where
  "wf_member m = (valid_utf8 (fst m) \<and> wf_json (snd m) \<and> depth (snd m) = 0)"

lemma wf_member_simps [simp]:
  "wf_member (k, JStr s) = (valid_utf8 k \<and> valid_utf8 s)"
  "wf_member (k, JNum (int_string (sint (w :: i64)))) = valid_utf8 k"
  "wf_member (k, JBool b) = valid_utf8 k"
  by (auto simp: wf_member_def parse_int64_int_string)

lemma wf_JObj_members: "list_all wf_member kvs \<Longrightarrow> wf_json (JObj kvs)"
  by (auto simp: list_all_iff wf_member_def)

lemma depth_JObj_members: "list_all wf_member kvs \<Longrightarrow> depth (JObj kvs) = 1"
proof -
  assume "list_all wf_member kvs"
  then have "map snd (map (map_prod id depth) kvs) = replicate (length kvs) 0"
    by (induction kvs) (auto simp: wf_member_def)
  moreover have "foldr max (replicate n 0) (0 :: nat) = 0" for n by (induction n) auto
  ultimately show ?thesis by simp
qed

lemma list_all_members:
  "valid_utf8 k \<Longrightarrow> valid_utf8 s \<Longrightarrow> list_all wf_member (string_member k s)"
  "valid_utf8 k \<Longrightarrow> list_all wf_member (int64_member k w)"
  "valid_utf8 k \<Longrightarrow> list_all wf_member (bool_ptr_member k p)"
  by (auto simp: member_defs split: option.splits)

text \<open>A flat struct written compactly or indented is decoded from the members it was written with.\<close>

lemma unmarshal_flat:
  assumes "list_all wf_member kvs"
  shows "unmarshal_into fs (json_marshal (JObj kvs)) r = decode_members fs kvs r"
    and "unmarshal_into fs (json_marshal_indent (JObj kvs)) r = decode_members fs kvs r"
proof -
  have "depth (JObj kvs) \<le> max_nesting"
    unfolding depth_JObj_members [OF assms] by (simp add: max_nesting_def)
  with wf_JObj_members [OF assms]
  show "unmarshal_into fs (json_marshal (JObj kvs)) r = decode_members fs kvs r"
    and "unmarshal_into fs (json_marshal_indent (JObj kvs)) r = decode_members fs kvs r"
    by (simp_all only: unmarshal_into_def json_parse_marshal json_parse_marshal_indent
        Option.bind.simps decode_struct_def json.case)
qed

end
