(* ===== verification/Base64.thy ===== *)
theory Base64
  imports Prelude
begin

text \<open>
  The two encodings of Go's package \<open>encoding/base64\<close> that the agent uses: \<open>StdEncoding\<close>
  (padded) and \<open>RawURLEncoding\<close> (URL alphabet, no padding). Decoding follows \<open>decodeQuantum\<close>:
  carriage returns and newlines are skipped wherever they stand, a quantum is four characters,
  padding may only close the last quantum, and the unused low bits of the last character are
  not checked (neither encoding is strict).

  The round trip is proved once, in a locale over an alphabet, and then holds for both.
\<close>

section \<open>Codecs\<close>

text \<open>
  The contract every encoder/decoder pair of the agent has: decoding gives back what was
  encoded. It is what the key, envelope, pairing-code and payload code relies on.
\<close>

locale codec =
  fixes valid :: "'a \<Rightarrow> bool"
    and enc :: "'a \<Rightarrow> string"
    and dec :: "string \<Rightarrow> 'a option"
  assumes dec_enc: "valid x \<Longrightarrow> dec (enc x) = Some x"
begin

lemma enc_inj: "valid x \<Longrightarrow> valid y \<Longrightarrow> enc x = enc y \<Longrightarrow> x = y"
  by (metis dec_enc option.inject)

lemma dec_enc_Some_iff: "valid x \<Longrightarrow> dec (enc x) = Some y \<longleftrightarrow> x = y"
  by (auto simp: dec_enc)

end

section \<open>Encoding and decoding over an alphabet\<close>

type_synonym alphabet = "nat \<Rightarrow> char"

type_synonym decode_map = "char \<Rightarrow> nat option"

definition byte_of :: "nat \<Rightarrow> char" where
  "byte_of n = char_of n"

lemma byte_of_char [simp]: "byte_of (of_char c) = c"
  by (simp add: byte_of_def)

text \<open>The four sextets of three bytes, and the three bytes of four sextets.\<close>

definition sext3 :: "char \<Rightarrow> char \<Rightarrow> char \<Rightarrow> nat list" where
  "sext3 a b c =
     (let v = of_char a * 65536 + of_char b * 256 + of_char c
      in [v div 262144, v div 4096 mod 64, v div 64 mod 64, v mod 64])"

definition quantum :: "nat \<Rightarrow> nat \<Rightarrow> nat \<Rightarrow> nat \<Rightarrow> bytes" where
  "quantum w x y z =
     (let v = w * 262144 + x * 4096 + y * 64 + z
      in [byte_of (v div 65536), byte_of (v div 256 mod 256), byte_of (v mod 256)])"

fun b64_encode :: "alphabet \<Rightarrow> char option \<Rightarrow> bytes \<Rightarrow> string" where
  "b64_encode al pad [] = []"
| "b64_encode al pad [a] =
     map al (take 2 (sext3 a (CHR 0x00) (CHR 0x00)))
       @ (case pad of None \<Rightarrow> [] | Some p \<Rightarrow> [p, p])"
| "b64_encode al pad [a, b] =
     map al (take 3 (sext3 a b (CHR 0x00))) @ (case pad of None \<Rightarrow> [] | Some p \<Rightarrow> [p])"
| "b64_encode al pad (a # b # c # rest) = map al (sext3 a b c) @ b64_encode al pad rest"

text \<open>One pass over the characters that are left when line breaks are dropped.\<close>

fun b64_quanta :: "decode_map \<Rightarrow> char option \<Rightarrow> string \<Rightarrow> bytes option" where
  "b64_quanta dm pad [] = Some []"
| "b64_quanta dm pad [p] = None"
| "b64_quanta dm pad [p, q] =
     (if pad = None
      then (case (dm p, dm q) of
              (Some w, Some x) \<Rightarrow> Some (take 1 (quantum w x 0 0))
            | _ \<Rightarrow> None)
      else None)"
| "b64_quanta dm pad [p, q, r] =
     (if pad = None
      then (case (dm p, dm q, dm r) of
              (Some w, Some x, Some y) \<Rightarrow> Some (take 2 (quantum w x y 0))
            | _ \<Rightarrow> None)
      else None)"
| "b64_quanta dm pad (p # q # r # s # rest) =
     (case (dm p, dm q, dm r, dm s) of
        (Some w, Some x, Some y, Some z) \<Rightarrow>
          map_option (\<lambda>bs. quantum w x y z @ bs) (b64_quanta dm pad rest)
      | (Some w, Some x, Some y, None) \<Rightarrow>
          if Some s = pad \<and> rest = [] then Some (take 2 (quantum w x y 0)) else None
      | (Some w, Some x, None, None) \<Rightarrow>
          if Some r = pad \<and> Some s = pad \<and> rest = [] then Some (take 1 (quantum w x 0 0)) else None
      | _ \<Rightarrow> None)"

definition line_break :: "char \<Rightarrow> bool" where
  "line_break c = (c = CHR 0x0A \<or> c = CHR 0x0D)"

definition b64_decode :: "decode_map \<Rightarrow> char option \<Rightarrow> string \<Rightarrow> bytes option" where
  "b64_decode dm pad s = b64_quanta dm pad (filter (\<lambda>c. \<not> line_break c) s)"

section \<open>Round trip over an alphabet\<close>

lemma of_char_lt: "(of_char c :: nat) < 256"
  by simp

lemma sext3_less: "n \<in> set (sext3 a b c) \<Longrightarrow> n < 64"
proof -
  let ?v = "of_char a * 65536 + of_char b * 256 + of_char c :: nat"
  have "?v < 64 * 262144"
    using of_char_lt [of a] of_char_lt [of b] of_char_lt [of c] by linarith
  then have "?v div 262144 < 64" by (rule less_mult_imp_div_less)
  then show "n \<in> set (sext3 a b c) \<Longrightarrow> n < 64"
    by (auto simp: sext3_def Let_def)
qed

lemma length_sext3 [simp]: "length (sext3 a b c) = 4"
  by (simp add: sext3_def Let_def)

lemma recombine:
  fixes v :: nat
  shows "v div 262144 * 262144 + v div 4096 mod 64 * 4096 + v div 64 mod 64 * 64 + v mod 64 = v"
proof -
  have "v div 4096 = v div 262144 * 64 + v div 4096 mod 64"
    using div_mult_mod_eq [of "v div 4096" 64] by (simp add: div_mult2_eq [symmetric])
  moreover have "v div 64 = v div 4096 * 64 + v div 64 mod 64"
    using div_mult_mod_eq [of "v div 64" 64] by (simp add: div_mult2_eq [symmetric])
  moreover have "v = v div 64 * 64 + v mod 64" by simp
  ultimately show ?thesis by linarith
qed

lemma bytes_of_combined:
  fixes a b c :: nat
  assumes "a < 256" "b < 256" "c < 256"
  shows "(a * 65536 + b * 256 + c) div 65536 = a"
    and "(a * 65536 + b * 256 + c) div 256 mod 256 = b"
    and "(a * 65536 + b * 256 + c) mod 256 = c"
proof -
  have "a * 65536 + b * 256 + c = (a * 256 + b) * 256 + c" by simp
  moreover from assms(3) have "((a * 256 + b) * 256 + c) div 256 = a * 256 + b" by simp
  ultimately have d: "(a * 65536 + b * 256 + c) div 256 = a * 256 + b" by simp
  from d assms(2) show "(a * 65536 + b * 256 + c) div 256 mod 256 = b" by simp
  from assms(2,3) have "b * 256 + c < 65536" by linarith
  moreover have "a * 65536 + b * 256 + c = a * 65536 + (b * 256 + c)" by simp
  ultimately show "(a * 65536 + b * 256 + c) div 65536 = a" by simp
  have "a * 65536 + b * 256 + c = (a * 256 + b) * 256 + c" by simp
  then have "(a * 65536 + b * 256 + c) mod 256 = c mod 256"
    by (simp only: mod_mult_self3)
  with assms(3) show "(a * 65536 + b * 256 + c) mod 256 = c" by simp
qed

lemma quantum_sext3:
  assumes "sext3 a b c = [w, x, y, z]"
  shows "quantum w x y z = [a, b, c]"
proof -
  let ?v = "of_char a * 65536 + of_char b * 256 + of_char c :: nat"
  from assms have "w * 262144 + x * 4096 + y * 64 + z = ?v"
    using recombine [of ?v] by (auto simp: sext3_def Let_def)
  then show ?thesis
    using bytes_of_combined [OF of_char_lt of_char_lt of_char_lt, of a b c]
    by (simp add: quantum_def Let_def)
qed

lemma sext3_zero:
  "sext3 a b (CHR 0x00) = [w, x, y, z] \<Longrightarrow> z = 0"
  "sext3 a (CHR 0x00) (CHR 0x00) = [w, x, y, z] \<Longrightarrow> y = 0 \<and> z = 0"
proof -
  have "(of_char a * 65536 + of_char b * 256) mod 64 = (0 :: nat)" for a b :: char
  proof -
    have "of_char a * 65536 + of_char b * 256 = (of_char a * 1024 + of_char b * 4) * (64 :: nat)"
      by simp
    then show ?thesis by (simp only: mod_mult_self2_is_0)
  qed
  moreover have "of_char a * 65536 div 64 mod 64 = (0 :: nat)" for a :: char
  proof -
    have "of_char a * 65536 = of_char a * 16 * 64 * (64 :: nat)" by simp
    then show ?thesis by (simp only: nonzero_mult_div_cancel_right mod_mult_self2_is_0)
  qed
  moreover have "of_char a * 65536 mod 64 = (0 :: nat)" for a :: char
  proof -
    have "of_char a * 65536 = of_char a * 1024 * (64 :: nat)" by simp
    then show ?thesis by (simp only: mod_mult_self2_is_0)
  qed
  ultimately show "sext3 a b (CHR 0x00) = [w, x, y, z] \<Longrightarrow> z = 0"
    and "sext3 a (CHR 0x00) (CHR 0x00) = [w, x, y, z] \<Longrightarrow> y = 0 \<and> z = 0"
    by (auto simp: sext3_def Let_def)
qed

lemma sext3_shape: obtains w x y z where "sext3 a b c = [w, x, y, z]" "w < 64" "x < 64" "y < 64" "z < 64"
proof -
  obtain w x y z where s: "sext3 a b c = [w, x, y, z]"
    by (auto simp: sext3_def Let_def)
  with sext3_less [of _ a b c] show ?thesis by (intro that) auto
qed

locale base64_alphabet =
  fixes al :: alphabet and dm :: decode_map and pad :: "char option"
  assumes dm_al: "n < 64 \<Longrightarrow> dm (al n) = Some n"
    and al_no_break: "n < 64 \<Longrightarrow> \<not> line_break (al n)"
    and pad_no_break: "pad = Some p \<Longrightarrow> \<not> line_break p"
    and dm_pad: "pad = Some p \<Longrightarrow> dm p = None"
begin

lemma quanta_encode: "b64_quanta dm pad (b64_encode al pad bs) = Some bs"
proof (induction bs rule: triple_induct)
  case (2 a)
  obtain w x y z where s: "sext3 a (CHR 0x00) (CHR 0x00) = [w, x, y, z]"
    and lt: "w < 64" "x < 64" "y < 64" "z < 64"
    by (rule sext3_shape)
  with sext3_zero(2) [OF s] quantum_sext3 [OF s] dm_pad show ?case
    by (cases pad) (simp_all add: dm_al)
next
  case (3 a b)
  obtain w x y z where s: "sext3 a b (CHR 0x00) = [w, x, y, z]"
    and lt: "w < 64" "x < 64" "y < 64" "z < 64"
    by (rule sext3_shape)
  with sext3_zero(1) [OF s] quantum_sext3 [OF s] dm_pad show ?case
    by (cases pad) (simp_all add: dm_al)
next
  case (4 a b c rest)
  obtain w x y z where s: "sext3 a b c = [w, x, y, z]"
    and lt: "w < 64" "x < 64" "y < 64" "z < 64"
    by (rule sext3_shape)
  with 4 quantum_sext3 [OF s] show ?case
    by (simp add: dm_al)
qed simp

lemma encode_no_break: "c \<in> set (b64_encode al pad bs) \<Longrightarrow> \<not> line_break c"
proof (induction bs rule: triple_induct)
  case (4 a b d rest)
  then show ?case by (auto dest!: sext3_less al_no_break)
qed (auto dest!: in_set_takeD sext3_less al_no_break pad_no_break split: option.splits)

lemma filter_encode:
  "filter (\<lambda>c. \<not> line_break c) (b64_encode al pad bs) = b64_encode al pad bs"
  by (simp add: encode_no_break)

lemma decode_encode: "b64_decode dm pad (b64_encode al pad bs) = Some bs"
  by (simp add: b64_decode_def filter_encode quanta_encode)

end
section \<open>The two encodings\<close>

definition alphabet64 :: "char \<Rightarrow> char \<Rightarrow> alphabet" where
  "alphabet64 c62 c63 n =
     (if n < 26 then char_of (65 + n)
      else if n < 52 then char_of (71 + n)
      else if n < 62 then char_of (n - 4)
      else if n = 62 then c62 else c63)"

definition decode64 :: "char \<Rightarrow> char \<Rightarrow> decode_map" where
  "decode64 c62 c63 c =
     (let n = of_char c :: nat
      in if 65 \<le> n \<and> n \<le> 90 then Some (n - 65)
         else if 97 \<le> n \<and> n \<le> 122 then Some (n - 71)
         else if 48 \<le> n \<and> n \<le> 57 then Some (n + 4)
         else if c = c62 then Some 62
         else if c = c63 then Some 63
         else None)"

text \<open>\<open>base64.StdEncoding\<close> and \<open>base64.RawURLEncoding\<close>: \<open>EncodeToString\<close> and \<open>DecodeString\<close>.\<close>

definition std_encode :: "bytes \<Rightarrow> string" where
  "std_encode = b64_encode (alphabet64 CHR ''+'' CHR ''/'') (Some CHR ''='')"

definition std_decode :: "string \<Rightarrow> bytes option" where
  "std_decode = b64_decode (decode64 CHR ''+'' CHR ''/'') (Some CHR ''='')"

definition rawurl_encode :: "bytes \<Rightarrow> string" where
  "rawurl_encode = b64_encode (alphabet64 CHR ''-'' CHR ''_'') None"

definition rawurl_decode :: "string \<Rightarrow> bytes option" where
  "rawurl_decode = b64_decode (decode64 CHR ''-'' CHR ''_'') None"

lemma decode64_alphabet64:
  assumes "n < 64" and "c62 \<noteq> c63"
    and "decode64 (CHR 0x00) (CHR 0x00) c62 = None" and "decode64 (CHR 0x00) (CHR 0x00) c63 = None"
  shows "decode64 c62 c63 (alphabet64 c62 c63 n) = Some n"
proof -
  have "n = 62 \<or> n = 63" if "\<not> n < 62" using that assms(1) by linarith
  with assms show ?thesis
    by (auto simp: decode64_def alphabet64_def Let_def split: if_splits)
qed

lemma alphabet64_no_break:
  "n < 64 \<Longrightarrow> \<not> line_break c62 \<Longrightarrow> \<not> line_break c63 \<Longrightarrow> \<not> line_break (alphabet64 c62 c63 n)"
proof -
  have "\<not> line_break (char_of m)" if "14 \<le> m" "m < 256" for m :: nat
  proof
    assume "line_break (char_of m)"
    then have "of_char (char_of m :: char) = (10 :: nat) \<or> of_char (char_of m :: char) = (13 :: nat)"
      by (elim line_break_def [THEN iffD1, THEN disjE]) (simp_all del: of_char_of)
    with that show False by simp
  qed
  then show "n < 64 \<Longrightarrow> \<not> line_break c62 \<Longrightarrow> \<not> line_break c63
      \<Longrightarrow> \<not> line_break (alphabet64 c62 c63 n)"
    by (auto simp: alphabet64_def)
qed

interpretation std64: base64_alphabet "alphabet64 CHR ''+'' CHR ''/''" "decode64 CHR ''+'' CHR ''/''"
    "Some CHR ''=''"
proof unfold_locales
  show "n < 64 \<Longrightarrow> decode64 CHR ''+'' CHR ''/'' (alphabet64 CHR ''+'' CHR ''/'' n) = Some n" for n
    by (rule decode64_alphabet64) (simp_all add: decode64_def Let_def)
  show "n < 64 \<Longrightarrow> \<not> line_break (alphabet64 CHR ''+'' CHR ''/'' n)" for n
    by (rule alphabet64_no_break) (simp_all add: line_break_def)
qed (auto simp: line_break_def decode64_def Let_def)

interpretation url64: base64_alphabet "alphabet64 CHR ''-'' CHR ''_''" "decode64 CHR ''-'' CHR ''_''"
    None
proof unfold_locales
  show "n < 64 \<Longrightarrow> decode64 CHR ''-'' CHR ''_'' (alphabet64 CHR ''-'' CHR ''_'' n) = Some n" for n
    by (rule decode64_alphabet64) (simp_all add: decode64_def Let_def)
  show "n < 64 \<Longrightarrow> \<not> line_break (alphabet64 CHR ''-'' CHR ''_'' n)" for n
    by (rule alphabet64_no_break) (simp_all add: line_break_def)
qed auto

interpretation std_codec: codec "\<lambda>_. True" std_encode std_decode
  by unfold_locales (simp add: std_encode_def std_decode_def std64.decode_encode)

interpretation rawurl_codec: codec "\<lambda>_. True" rawurl_encode rawurl_decode
  by unfold_locales (simp add: rawurl_encode_def rawurl_decode_def url64.decode_encode)

lemmas std_decode_encode [simp] = std_codec.dec_enc [OF TrueI]
  and rawurl_decode_encode [simp] = rawurl_codec.dec_enc [OF TrueI]

text \<open>An encoded string has no line break; a decoder accepts line breaks anywhere.\<close>

lemma std_encode_no_break: "c \<in> set (std_encode bs) \<Longrightarrow> \<not> line_break c"
  by (simp add: std_encode_def std64.encode_no_break)

lemma std_decode_newline: "line_break c \<Longrightarrow> std_decode (c # s) = std_decode s"
  by (simp add: std_decode_def b64_decode_def)

text \<open>An encoded string is ASCII.\<close>

lemma b64_encode_ascii:
  assumes "\<And>n. n < 64 \<Longrightarrow> (of_char (al n) :: nat) < 128"
    and "\<And>p. pad = Some p \<Longrightarrow> (of_char p :: nat) < 128"
  shows "c \<in> set (b64_encode al pad bs) \<Longrightarrow> (of_char c :: nat) < 128"
proof (induction bs rule: triple_induct)
  case (4 a b d rest)
  then show ?case by (auto dest!: sext3_less intro: assms)
qed (auto dest!: in_set_takeD sext3_less intro: assms split: option.splits)

lemma alphabet64_ascii:
  "(of_char c62 :: nat) < 128 \<Longrightarrow> (of_char c63 :: nat) < 128 \<Longrightarrow>
     (of_char (alphabet64 c62 c63 n) :: nat) < 128"
  by (auto simp: alphabet64_def)

lemma std_encode_ascii: "c \<in> set (std_encode bs) \<Longrightarrow> (of_char c :: nat) < 128"
  unfolding std_encode_def
  by (rule b64_encode_ascii [rotated 2]) (auto intro: alphabet64_ascii)

lemma rawurl_encode_ascii: "c \<in> set (rawurl_encode bs) \<Longrightarrow> (of_char c :: nat) < 128"
  unfolding rawurl_encode_def
  by (rule b64_encode_ascii [rotated 2]) (auto intro: alphabet64_ascii)

text \<open>The examples of RFC 4648.\<close>

lemmas b64_eval = std_encode_def std_decode_def rawurl_encode_def rawurl_decode_def
  b64_decode_def line_break_def sext3_def quantum_def alphabet64_def decode64_def byte_of_def char_of_def
  bit_0 Let_def

lemma rfc4648_vectors:
  "std_encode ''foobar'' = ''Zm9vYmFy''"
  "std_encode ''fooba'' = ''Zm9vYmE=''"
  "std_encode ''foob'' = ''Zm9vYg==''"
  "std_decode ''Zm9vYg=='' = Some ''foob''"
  "std_decode ''Zm9vYg='' = None"
  "rawurl_encode ''foob'' = ''Zm9vYg''"
  by (simp_all add: b64_eval)

end
