(* ===== verification/Wire.thy ===== *)
theory Wire
  imports Unmarshal Base64
begin

text \<open>
  Package \<open>wire\<close> (\<open>internal/wire/wire.go\<close>): the payload that travels inside a relay envelope, its
  kinds, and its JSON form.
\<close>

definition KindStatusRequest :: string where "KindStatusRequest = ''status_request''"
definition KindStatus :: string where "KindStatus = ''status''"
definition KindLock :: string where "KindLock = ''lock''"
definition KindLockResult :: string where "KindLockResult = ''lock_result''"
definition KindPairRequest :: string where "KindPairRequest = ''pair_request''"
definition KindPairAccept :: string where "KindPairAccept = ''pair_accept''"

lemmas kind_defs = KindStatusRequest_def KindStatus_def KindLock_def KindLockResult_def
  KindPairRequest_def KindPairAccept_def

lemma kinds_distinct:
  "distinct [KindStatusRequest, KindStatus, KindLock, KindLockResult, KindPairRequest, KindPairAccept]"
  by (simp add: kind_defs)

record payload =
  Kind :: string
  Nonce :: string
  TS :: i64
  Locked :: "bool option"
  Machine :: string
  OS :: string
  OK :: "bool option"
  Error :: string
  PubKey :: string
  MAC :: string

text \<open>The zero value \<open>Payload{}\<close>.\<close>

definition empty_payload :: payload where
  "empty_payload =
     \<lparr>Kind = [], Nonce = [], TS = 0, Locked = None, Machine = [], OS = [], OK = None, Error = [],
      PubKey = [], MAC = []\<rparr>"

text \<open>A pointer to a fresh variable, for the two fields that may be absent.\<close>

definition Bool :: "bool \<Rightarrow> bool option" where [simp]:
  "Bool v = Some v"

definition payload_members :: "payload \<Rightarrow> (string \<times> json) list" where
  "payload_members p =
     [(''kind'', JStr (Kind p))]
     @ string_member ''nonce'' (Nonce p)
     @ int64_member ''ts'' (TS p)
     @ bool_ptr_member ''locked'' (Locked p)
     @ string_member ''machine'' (Machine p)
     @ string_member ''os'' (OS p)
     @ bool_ptr_member ''ok'' (OK p)
     @ string_member ''error'' (Error p)
     @ string_member ''pub_key'' (PubKey p)
     @ string_member ''mac'' (MAC p)"

definition payload_fields :: "payload fields" where
  "payload_fields =
     [(''kind'', \<lambda>v p. map_option (\<lambda>x. p\<lparr>Kind := x\<rparr>) (into_string v (Kind p))),
      (''nonce'', \<lambda>v p. map_option (\<lambda>x. p\<lparr>Nonce := x\<rparr>) (into_string v (Nonce p))),
      (''ts'', \<lambda>v p. map_option (\<lambda>x. p\<lparr>TS := x\<rparr>) (into_int64 v (TS p))),
      (''locked'', \<lambda>v p. map_option (\<lambda>x. p\<lparr>Locked := x\<rparr>) (into_bool_ptr v)),
      (''machine'', \<lambda>v p. map_option (\<lambda>x. p\<lparr>Machine := x\<rparr>) (into_string v (Machine p))),
      (''os'', \<lambda>v p. map_option (\<lambda>x. p\<lparr>OS := x\<rparr>) (into_string v (OS p))),
      (''ok'', \<lambda>v p. map_option (\<lambda>x. p\<lparr>OK := x\<rparr>) (into_bool_ptr v)),
      (''error'', \<lambda>v p. map_option (\<lambda>x. p\<lparr>Error := x\<rparr>) (into_string v (Error p))),
      (''pub_key'', \<lambda>v p. map_option (\<lambda>x. p\<lparr>PubKey := x\<rparr>) (into_string v (PubKey p))),
      (''mac'', \<lambda>v p. map_option (\<lambda>x. p\<lparr>MAC := x\<rparr>) (into_string v (MAC p)))]"

text \<open>\<open>Encode\<close> and \<open>Decode\<close>. Marshalling a payload has no failure case.\<close>

definition wire_encode :: "payload \<Rightarrow> string result" where
  "wire_encode p = Inr (json_marshal (JObj (payload_members p)))"

definition wire_decode :: "string \<Rightarrow> payload result" where
  "wire_decode s =
     (case unmarshal_into payload_fields s empty_payload of
        None \<Rightarrow> Inl ''json: cannot unmarshal payload''
      | Some p \<Rightarrow> Inr p)"

section \<open>Round trip\<close>

definition valid_payload :: "payload \<Rightarrow> bool" where
  "valid_payload p =
     list_all valid_utf8 [Kind p, Nonce p, Machine p, OS p, Error p, PubKey p, MAC p]"

lemma payload_field_lookup:
  "find_field payload_fields ''kind'' = Some (\<lambda>v p. map_option (\<lambda>x. p\<lparr>Kind := x\<rparr>) (into_string v (Kind p)))"
  "find_field payload_fields ''nonce'' = Some (\<lambda>v p. map_option (\<lambda>x. p\<lparr>Nonce := x\<rparr>) (into_string v (Nonce p)))"
  "find_field payload_fields ''ts'' = Some (\<lambda>v p. map_option (\<lambda>x. p\<lparr>TS := x\<rparr>) (into_int64 v (TS p)))"
  "find_field payload_fields ''locked'' = Some (\<lambda>v p. map_option (\<lambda>x. p\<lparr>Locked := x\<rparr>) (into_bool_ptr v))"
  "find_field payload_fields ''machine'' = Some (\<lambda>v p. map_option (\<lambda>x. p\<lparr>Machine := x\<rparr>) (into_string v (Machine p)))"
  "find_field payload_fields ''os'' = Some (\<lambda>v p. map_option (\<lambda>x. p\<lparr>OS := x\<rparr>) (into_string v (OS p)))"
  "find_field payload_fields ''ok'' = Some (\<lambda>v p. map_option (\<lambda>x. p\<lparr>OK := x\<rparr>) (into_bool_ptr v))"
  "find_field payload_fields ''error'' = Some (\<lambda>v p. map_option (\<lambda>x. p\<lparr>Error := x\<rparr>) (into_string v (Error p)))"
  "find_field payload_fields ''pub_key'' = Some (\<lambda>v p. map_option (\<lambda>x. p\<lparr>PubKey := x\<rparr>) (into_string v (PubKey p)))"
  "find_field payload_fields ''mac'' = Some (\<lambda>v p. map_option (\<lambda>x. p\<lparr>MAC := x\<rparr>) (into_string v (MAC p)))"
  by (simp_all add: find_field_def payload_fields_def fold_rune_def)

lemma decode_payload_member:
  "decode_members payload_fields [(''kind'', JStr s)] p = Some (p\<lparr>Kind := s\<rparr>)"
  "Nonce p = [] \<Longrightarrow> decode_members payload_fields (string_member ''nonce'' s) p = Some (p\<lparr>Nonce := s\<rparr>)"
  "TS p = 0 \<Longrightarrow> decode_members payload_fields (int64_member ''ts'' w) p = Some (p\<lparr>TS := w\<rparr>)"
  "Locked p = None \<Longrightarrow> decode_members payload_fields (bool_ptr_member ''locked'' b) p = Some (p\<lparr>Locked := b\<rparr>)"
  "Machine p = [] \<Longrightarrow> decode_members payload_fields (string_member ''machine'' s) p = Some (p\<lparr>Machine := s\<rparr>)"
  "OS p = [] \<Longrightarrow> decode_members payload_fields (string_member ''os'' s) p = Some (p\<lparr>OS := s\<rparr>)"
  "OK p = None \<Longrightarrow> decode_members payload_fields (bool_ptr_member ''ok'' b) p = Some (p\<lparr>OK := b\<rparr>)"
  "Error p = [] \<Longrightarrow> decode_members payload_fields (string_member ''error'' s) p = Some (p\<lparr>Error := s\<rparr>)"
  "PubKey p = [] \<Longrightarrow> decode_members payload_fields (string_member ''pub_key'' s) p = Some (p\<lparr>PubKey := s\<rparr>)"
  "MAC p = [] \<Longrightarrow> decode_members payload_fields (string_member ''mac'' s) p = Some (p\<lparr>MAC := s\<rparr>)"
  by (cases p; auto simp: payload_field_lookup member_defs split: option.splits)+

lemma decode_payload_members: "decode_members payload_fields (payload_members p) empty_payload = Some p"
  by (simp add: payload_members_def decode_members_append decode_payload_member empty_payload_def
      del: decode_members.simps append.simps)

lemma payload_members_wf: "valid_payload p \<Longrightarrow> list_all wf_member (payload_members p)"
  by (simp add: payload_members_def valid_payload_def list_all_members valid_utf8_ascii)

text \<open>The payload codec is a codec in the sense of \<open>Base64\<close>.\<close>

definition wire_text :: "payload \<Rightarrow> string" where
  "wire_text p = json_marshal (JObj (payload_members p))"

definition wire_read :: "string \<Rightarrow> payload option" where
  "wire_read s = unmarshal_into payload_fields s empty_payload"

lemma wire_encode_text: "wire_encode p = Inr (wire_text p)"
  by (simp add: wire_encode_def wire_text_def)

lemma wire_decode_read: "wire_decode s = (case wire_read s of None \<Rightarrow> Inl ''json: cannot unmarshal payload'' | Some p \<Rightarrow> Inr p)"
  by (simp add: wire_decode_def wire_read_def)

interpretation wire_codec: codec valid_payload wire_text wire_read
  by unfold_locales
     (simp add: wire_text_def wire_read_def unmarshal_flat payload_members_wf decode_payload_members)

lemma wire_decode_text: "valid_payload p \<Longrightarrow> wire_decode (wire_text p) = Inr p"
  by (simp add: wire_decode_read wire_codec.dec_enc)

end
