(* ===== verification/Session.thy ===== *)
theory Session
  imports Prelude
begin

text \<open>
  Package \<open>session\<close>, the part without operating-system calls: the interface \<open>Controller\<close>
  (\<open>session.go\<close>), the choice of the session to track (\<open>pick.go\<close>) and the meaning of the Windows
  session values (\<open>winmap.go\<close>). The two platform implementations are in \<open>Logind\<close> and \<open>Wts\<close>.
\<close>

section \<open>The controller interface\<close>

definition ErrUnsupported :: string where
  "ErrUnsupported = ''session: platform not supported yet''"

text \<open>
  A controller acts on the state \<open>'s\<close> of the operating system. \<open>Locked\<close> returns the lock state or
  an error, \<open>Lock\<close> returns \<open>None\<close> for a nil error.
\<close>

record 's controller =
  ctrl_locked :: "'s \<Rightarrow> 's \<times> bool result"
  ctrl_lock :: "'s \<Rightarrow> 's \<times> string option"

text \<open>
  What the rest of the agent may rely on, stated over the number of lock requests the operating
  system has received: reading the state requests nothing, a lock that reports success was
  requested exactly once, and one that reports an error at most once.
\<close>

locale session_controller =
  fixes ctrl :: "'s controller" and requests :: "'s \<Rightarrow> nat"
  assumes locked_requests: "ctrl_locked ctrl s = (s', r) \<Longrightarrow> requests s' = requests s"
    and lock_ok_requests: "ctrl_lock ctrl s = (s', None) \<Longrightarrow> requests s' = Suc (requests s)"
    and lock_err_requests:
      "ctrl_lock ctrl s = (s', Some e) \<Longrightarrow> requests s \<le> requests s' \<and> requests s' \<le> Suc (requests s)"
begin

lemma lock_requests_bound:
  "ctrl_lock ctrl s = (s', e) \<Longrightarrow> requests s \<le> requests s' \<and> requests s' \<le> Suc (requests s)"
  using lock_ok_requests lock_err_requests by (cases e) fastforce+

end

text \<open>The scripted controller of the package tests: the lock state and the number of lock calls.\<close>

definition fakeSession :: "(bool \<times> nat) controller" where
  "fakeSession =
     \<lparr>ctrl_locked = (\<lambda>(locked, n). ((locked, n), Inr locked)),
      ctrl_lock = (\<lambda>(locked, n). ((True, Suc n), None))\<rparr>"

interpretation fake_session: session_controller fakeSession snd
  by unfold_locales (auto simp: fakeSession_def)

declare fakeSession_def [go_defs]

section \<open>Choosing a session\<close>

record candidate =
  ID :: string
  Class :: string
  Active :: bool
  Graphical :: bool

definition isGraphical :: "string \<Rightarrow> bool" where
  "isGraphical sessionType = (sessionType \<in> {''x11'', ''wayland'', ''mir''})"

definition isLockable :: "candidate \<Rightarrow> bool" where
  "isLockable c = (Class c = ''user'')"

definition score :: "candidate \<Rightarrow> int" where
  "score c = (if Active c then 2 else 0) + (if Graphical c then 1 else 0)"

text \<open>The loop: the index under test, the candidates left, and \<open>best\<close> with \<open>bestScore\<close>.\<close>

fun pick_loop :: "int \<Rightarrow> candidate list \<Rightarrow> int \<times> int \<Rightarrow> int \<times> int" where
  "pick_loop i [] bb = bb"
| "pick_loop i (c # cs) (best, bestScore) =
     (if \<not> isLockable c then pick_loop (i + 1) cs (best, bestScore)
      else if score c > bestScore then pick_loop (i + 1) cs (i, score c)
      else pick_loop (i + 1) cs (best, bestScore))"

definition pickCandidate :: "candidate list \<Rightarrow> candidate option" where
  "pickCandidate cands =
     (let (best, _) = pick_loop 0 cands (-1, -1)
      in if best < 0 then None else Some (cands ! nat best))"

lemma score_bounds: "0 \<le> score c" "score c \<le> 3"
  by (simp_all add: score_def)

text \<open>
  The loop against its specification. \<open>best_of xs (b, s)\<close>: after the prefix \<open>xs\<close> the pair is
  either the start value, with no lockable candidate seen, or the first candidate of maximal
  score among the lockable ones.
\<close>

definition best_of :: "candidate list \<Rightarrow> int \<times> int \<Rightarrow> bool" where
  "best_of xs bb =
     (let (b, s) = bb in
      (b = -1 \<and> s = -1 \<and> (\<forall>x\<in>set xs. \<not> isLockable x))
      \<or> (0 \<le> b \<and> nat b < length xs \<and> isLockable (xs ! nat b) \<and> s = score (xs ! nat b)
          \<and> (\<forall>j < nat b. isLockable (xs ! j) \<longrightarrow> score (xs ! j) < s)
          \<and> (\<forall>j < length xs. isLockable (xs ! j) \<longrightarrow> score (xs ! j) \<le> s)))"

lemma best_of_snoc:
  assumes "best_of xs (b, s)"
  shows "best_of (xs @ [c]) (if isLockable c \<and> score c > s then (int (length xs), score c) else (b, s))"
proof (cases "isLockable c \<and> score c > s")
  case True
  have "score (xs ! j) < score c" if "j < length xs" "isLockable (xs ! j)" for j
    using assms that True by (fastforce simp: best_of_def)
  with True show ?thesis
    by (auto simp: best_of_def nth_append less_Suc_eq less_imp_le)
next
  case False
  show ?thesis
  proof (cases "b = -1")
    case True
    with assms have s: "s = -1" "\<forall>x\<in>set xs. \<not> isLockable x" by (auto simp: best_of_def)
    with False score_bounds(1) [of c] have "\<not> isLockable c" by linarith
    with s True show ?thesis by (simp add: best_of_def)
  next
    case b: False
    with assms have p: "0 \<le> b" "nat b < length xs" "isLockable (xs ! nat b)" "s = score (xs ! nat b)"
      "\<forall>j < nat b. isLockable (xs ! j) \<longrightarrow> score (xs ! j) < s"
      "\<forall>j < length xs. isLockable (xs ! j) \<longrightarrow> score (xs ! j) \<le> s"
      by (auto simp: best_of_def)
    with False show ?thesis
      by (auto simp: best_of_def nth_append less_Suc_eq)
  qed
qed

lemma pick_loop_best_of:
  "best_of xs bb \<Longrightarrow> best_of (xs @ cs) (pick_loop (int (length xs)) cs bb)"
proof (induction cs arbitrary: xs bb)
  case (Cons c cs)
  obtain b s where bb: "bb = (b, s)" by fastforce
  from best_of_snoc [of xs b s c] Cons.prems bb
  have "best_of (xs @ [c]) (if isLockable c \<and> score c > s then (int (length xs), score c) else (b, s))"
    by simp
  from Cons.IH [OF this] show ?case
    by (cases "isLockable c"; cases "score c > s") (simp_all add: bb add.commute)
qed simp

lemma pickCandidate_best: "best_of cands (pick_loop 0 cands (-1, -1))"
  using pick_loop_best_of [of "[]" "(-1, -1)" cands] by (simp add: best_of_def)

lemma pickCandidate_None_iff: "pickCandidate cands = None \<longleftrightarrow> (\<forall>c\<in>set cands. \<not> isLockable c)"
  using pickCandidate_best [of cands]
  by (auto simp: pickCandidate_def best_of_def Let_def split: prod.splits)

lemma pickCandidate_SomeD:
  assumes "pickCandidate cands = Some c"
  shows "\<exists>i < length cands. c = cands ! i \<and> isLockable c
    \<and> (\<forall>j < i. isLockable (cands ! j) \<longrightarrow> score (cands ! j) < score c)
    \<and> (\<forall>j < length cands. isLockable (cands ! j) \<longrightarrow> score (cands ! j) \<le> score c)"
proof -
  obtain b s where p: "pick_loop 0 cands (-1, -1) = (b, s)" by fastforce
  with assms have b: "\<not> b < 0" "c = cands ! nat b"
    by (auto simp: pickCandidate_def split: if_splits)
  with pickCandidate_best [of cands] p show ?thesis
    by (intro exI [of _ "nat b"]) (auto simp: best_of_def)
qed

section \<open>Windows session values\<close>

definition wtsSessionStateLock :: "32 word" where [simp]: "wtsSessionStateLock = 0"
definition wtsSessionStateUnlock :: "32 word" where [simp]: "wtsSessionStateUnlock = 1"
definition wtsSessionLockEvent :: "64 word" where [simp]: "wtsSessionLockEvent = 0x7"
definition wtsSessionUnlockEvent :: "64 word" where [simp]: "wtsSessionUnlockEvent = 0x8"

definition lockedFromSessionFlags :: "32 word \<Rightarrow> bool \<times> bool" where
  "lockedFromSessionFlags flags =
     (if flags = wtsSessionStateLock then (True, True)
      else if flags = wtsSessionStateUnlock then (False, True)
      else (False, False))"

definition lockedFromSessionEvent :: "64 word \<Rightarrow> bool \<times> bool" where
  "lockedFromSessionEvent wparam =
     (if wparam = wtsSessionLockEvent then (True, True)
      else if wparam = wtsSessionUnlockEvent then (False, True)
      else (False, False))"

end
