(* ===== verification/Go_Time.thy ===== *)
theory Go_Time
  imports Prelude
begin

text \<open>
  What the agent uses of Go's package \<open>time\<close>. A \<open>time.Time\<close> is a wall-clock instant and, when
  it was read by \<open>time.Now\<close>, a monotonic reading as well. \<open>Sub\<close>, \<open>After\<close> and \<open>Before\<close> use the
  monotonic readings when both operands have one and the wall clock otherwise; that difference
  is what the replay protection of the agent depends on.

  Instants and durations are integers counted in nanoseconds; the saturation of \<open>Sub\<close> at the
  limits of \<open>int64\<close> and the wrap-around in \<open>time.Unix\<close> are written out.
\<close>

record gotime =
  wall_ns :: int
  mono_ns :: "int option"

type_synonym duration = int

definition nanosecond :: duration where
  "nanosecond = 1"

definition second :: duration where
  "second = 1000000000"

definition minute :: duration where
  "minute = 60 * second"

lemmas duration_defs = nanosecond_def second_def minute_def

text \<open>Seconds between 1 January of year 1, the epoch of \<open>time.Time\<close>, and the Unix epoch.\<close>

definition unix_to_internal :: int where
  "unix_to_internal = 62135596800"

definition sat64 :: "int \<Rightarrow> int" where
  "sat64 d = max min_int64 (min max_int64 d)"

text \<open>\<open>t.Sub(u)\<close>, \<open>t.After(u)\<close>, \<open>t.Before(u)\<close>.\<close>

definition time_diff :: "gotime \<Rightarrow> gotime \<Rightarrow> int" where
  "time_diff t u =
     (case (mono_ns t, mono_ns u) of
        (Some a, Some b) \<Rightarrow> a - b
      | _ \<Rightarrow> wall_ns t - wall_ns u)"

definition time_sub :: "gotime \<Rightarrow> gotime \<Rightarrow> duration" where
  "time_sub t u = sat64 (time_diff t u)"

definition time_after :: "gotime \<Rightarrow> gotime \<Rightarrow> bool" where
  "time_after t u = (time_diff t u > 0)"

definition time_before :: "gotime \<Rightarrow> gotime \<Rightarrow> bool" where
  "time_before t u = (time_diff t u < 0)"

text \<open>\<open>t.Add(d)\<close>: both readings move; a monotonic reading that would overflow is dropped.\<close>

definition time_add :: "gotime \<Rightarrow> duration \<Rightarrow> gotime" where
  "time_add t d =
     \<lparr>wall_ns = wall_ns t + d,
      mono_ns = (case mono_ns t of
                None \<Rightarrow> None
              | Some m \<Rightarrow> if in_int64 (m + d) then Some (m + d) else None)\<rparr>"

text \<open>
  \<open>time.Unix(sec, 0)\<close> adds the epoch offset to \<open>sec\<close> in \<open>int64\<close> arithmetic, which wraps, and
  has no monotonic reading; \<open>t.Unix()\<close> is the number of whole seconds, again as an \<open>int64\<close>.
\<close>

definition time_unix :: "i64 \<Rightarrow> gotime" where
  "time_unix sec =
     \<lparr>wall_ns = (sint (sec + word_of_int unix_to_internal) - unix_to_internal) * second,
      mono_ns = None\<rparr>"

definition unix_seconds :: "gotime \<Rightarrow> i64" where
  "unix_seconds t = word_of_int (wall_ns t div second)"

definition zero_time :: gotime where
  "zero_time = \<lparr>wall_ns = - unix_to_internal * second, mono_ns = None\<rparr>"

definition is_zero :: "gotime \<Rightarrow> bool" where
  "is_zero t = (wall_ns t = wall_ns zero_time)"

definition strip_mono :: "gotime \<Rightarrow> gotime" where
  "strip_mono t = t\<lparr>mono_ns := None\<rparr>"

lemmas time_op_defs = time_diff_def time_sub_def time_after_def time_before_def sat64_def
  max_int64_def min_int64_def

declare time_op_defs [go_defs] time_add_def [go_defs] time_unix_def [go_defs]
  unix_seconds_def [go_defs] duration_defs [go_defs] unix_to_internal_def [go_defs]

section \<open>Facts about the time operations\<close>

text \<open>Saturation does not matter when a difference is compared with a bound inside the range.\<close>

lemma time_sub_le_iff:
  "min_int64 \<le> d \<Longrightarrow> d < max_int64 \<Longrightarrow> time_sub t u \<le> d \<longleftrightarrow> time_diff t u \<le> d"
  by (auto simp: time_sub_def sat64_def max_def min_def min_int64_def max_int64_def)

lemma time_sub_ge_iff:
  "min_int64 < d \<Longrightarrow> d \<le> max_int64 \<Longrightarrow> d \<le> time_sub t u \<longleftrightarrow> d \<le> time_diff t u"
  by (auto simp: time_sub_def sat64_def max_def min_def min_int64_def max_int64_def)

lemma time_diff_wall [simp]: "mono_ns u = None \<Longrightarrow> time_diff t u = wall_ns t - wall_ns u"
  by (simp add: time_diff_def split: option.splits)

lemma time_diff_mono [simp]:
  "mono_ns t = Some a \<Longrightarrow> mono_ns u = Some b \<Longrightarrow> time_diff t u = a - b"
  by (simp add: time_diff_def)

lemma mono_time_unix [simp]: "mono_ns (time_unix sec) = None"
  by (simp add: time_unix_def)

lemma mono_zero_time [simp]: "mono_ns zero_time = None"
  by (simp add: zero_time_def)

text \<open>
  A reading of the process clock has both readings. Two readings are \<open>steady\<close> when the later
  one is not earlier on the monotonic clock and the wall clock advanced at least as far as the
  monotonic clock between them, that is, nobody set the wall clock back.
\<close>

definition clock_reading :: "gotime \<Rightarrow> bool" where
  "clock_reading t = (mono_ns t \<noteq> None)"

definition mono_le :: "gotime \<Rightarrow> gotime \<Rightarrow> bool" where
  "mono_le t u = (case (mono_ns t, mono_ns u) of (Some a, Some b) \<Rightarrow> a \<le> b | _ \<Rightarrow> False)"

definition steady :: "gotime \<Rightarrow> gotime \<Rightarrow> bool" where
  "steady t u =
     (case (mono_ns t, mono_ns u) of
        (Some a, Some b) \<Rightarrow> a \<le> b \<and> b - a \<le> wall_ns u - wall_ns t
      | _ \<Rightarrow> False)"

lemma steady_refl: "clock_reading t \<Longrightarrow> steady t t"
  by (auto simp: steady_def clock_reading_def)

lemma steady_trans: "steady t u \<Longrightarrow> steady u v \<Longrightarrow> steady t v"
  by (auto simp: steady_def split: option.splits)

lemma steady_diff: "steady t u \<Longrightarrow> 0 \<le> time_diff u t \<and> time_diff u t \<le> wall_ns u - wall_ns t"
  by (auto simp: steady_def split: option.splits)

lemma steady_diff_mono: "steady t u \<Longrightarrow> steady u v \<Longrightarrow> time_diff u t \<le> time_diff v t"
  by (auto simp: steady_def time_diff_def split: option.splits)

end
