(* ===== verification/Nonce.thy ===== *)
theory Nonce
  imports Go_Time
begin

text \<open>
  The replay cache of \<open>internal/core/nonce.go\<close>: the nonces of accepted lock commands with the
  time each was seen. Every \<open>add\<close> first drops the entries older than the time to live.
\<close>

record nonceCache =
  ttl :: duration
  seen :: "string \<rightharpoonup> gotime"

definition newNonceCache :: "duration \<Rightarrow> nonceCache" where
  "newNonceCache d = \<lparr>ttl = d, seen = Map.empty\<rparr>"

text \<open>The loop over the map that deletes the expired entries.\<close>

definition prune :: "duration \<Rightarrow> gotime \<Rightarrow> (string \<rightharpoonup> gotime) \<Rightarrow> (string \<rightharpoonup> gotime)" where
  "prune d now m =
     (\<lambda>k. case m k of
            None \<Rightarrow> None
          | Some t \<Rightarrow> if time_sub now t > d then None else Some t)"

definition nonce_add :: "nonceCache \<Rightarrow> string \<Rightarrow> gotime \<Rightarrow> nonceCache \<times> bool" where
  "nonce_add n nonce now =
     (let m = prune (ttl n) now (seen n)
      in if m nonce \<noteq> None then (n\<lparr>seen := m\<rparr>, False)
         else (n\<lparr>seen := m(nonce \<mapsto> now)\<rparr>, True))"

declare newNonceCache_def [go_defs] prune_def [go_defs] nonce_add_def [go_defs]

section \<open>The contract of a replay cache\<close>

text \<open>
  \<open>remembers c n t\<close>: the cache holds nonce \<open>n\<close>, seen at \<open>t\<close>. The laws are those the freshness
  check relies on; the lemma proved from them is that a remembered nonce is refused by every
  later call, as long as no call in between comes after its time to live.
\<close>

locale replay_cache =
  fixes add :: "'c \<Rightarrow> string \<Rightarrow> gotime \<Rightarrow> 'c \<times> bool"
    and remembers :: "'c \<Rightarrow> string \<Rightarrow> gotime \<Rightarrow> bool"
    and expired :: "'c \<Rightarrow> gotime \<Rightarrow> gotime \<Rightarrow> bool"
  assumes add_fresh: "add c n t = (c', True) \<Longrightarrow> remembers c' n t"
    and add_keeps: "remembers c n t0 \<Longrightarrow> \<not> expired c t0 t \<Longrightarrow> add c m t = (c', b) \<Longrightarrow> remembers c' n t0"
    and add_refuses: "remembers c n t0 \<Longrightarrow> \<not> expired c t0 t \<Longrightarrow> add c n t = (c', b) \<Longrightarrow> \<not> b"
    and add_ttl: "add c n t = (c', b) \<Longrightarrow> expired c' = expired c"
begin

lemma adds_keep:
  "remembers c n t0 \<Longrightarrow> \<forall>(m, t)\<in>set xs. \<not> expired c t0 t \<Longrightarrow>
     remembers (foldl (\<lambda>c (m, t). fst (add c m t)) c xs) n t0
     \<and> expired (foldl (\<lambda>c (m, t). fst (add c m t)) c xs) = expired c"
proof (induction xs arbitrary: c)
  case (Cons x xs)
  obtain m t where x: "x = (m, t)" by fastforce
  obtain c' b where a: "add c m t = (c', b)" by fastforce
  from Cons.prems x have "\<not> expired c t0 t" by simp
  with a x Cons add_keeps [of c n t0 t m c' b] add_ttl [OF a] show ?case by simp
qed simp

lemma replay_refused:
  assumes "add c n t0 = (c', True)" and "\<forall>(m, t)\<in>set xs. \<not> expired c' t0 t" and "\<not> expired c' t0 t"
  shows "\<not> snd (add (foldl (\<lambda>c (m, t). fst (add c m t)) c' xs) n t)"
proof -
  let ?c = "foldl (\<lambda>c (m, t). fst (add c m t)) c' xs"
  obtain c'' b where a: "add ?c n t = (c'', b)" by fastforce
  from add_fresh [OF assms(1)] adds_keep [OF _ assms(2)]
  have "remembers ?c n t0" "\<not> expired ?c t0 t" using assms(3) by auto
  from add_refuses [OF this a] a show ?thesis by simp
qed

end

definition nonce_known :: "nonceCache \<Rightarrow> string \<Rightarrow> gotime \<Rightarrow> bool" where
  "nonce_known c n t = (seen c n = Some t)"

definition nonce_expired :: "nonceCache \<Rightarrow> gotime \<Rightarrow> gotime \<Rightarrow> bool" where
  "nonce_expired c t0 t = (time_sub t t0 > ttl c)"

interpretation nonce_store: replay_cache nonce_add nonce_known nonce_expired
  by unfold_locales
     (auto simp: nonce_add_def nonce_known_def nonce_expired_def prune_def Let_def fun_eq_iff
       split: if_splits option.splits)

section \<open>Further facts about the cache\<close>

lemma ttl_nonce_add [simp]: "ttl (fst (nonce_add c n t)) = ttl c"
  by (simp add: nonce_add_def Let_def)

lemma nonce_add_accepts_iff:
  "snd (nonce_add c n t) \<longleftrightarrow> (\<forall>t0. seen c n = Some t0 \<longrightarrow> time_sub t t0 > ttl c)"
  by (auto simp: nonce_add_def prune_def Let_def split: option.splits)

lemma nonce_add_dom: "dom (seen (fst (nonce_add c n t))) \<subseteq> insert n (dom (seen c))"
  by (auto simp: nonce_add_def prune_def Let_def split: option.splits if_splits)

lemma finite_nonce_add: "finite (dom (seen c)) \<Longrightarrow> finite (dom (seen (fst (nonce_add c n t))))"
  by (rule finite_subset [OF nonce_add_dom]) simp

text \<open>After a call at \<open>t\<close> no entry is older than the time to live.\<close>

lemma nonce_add_young:
  assumes "0 \<le> ttl c" and "clock_reading t" and "seen (fst (nonce_add c n t)) k = Some t0"
  shows "time_sub t t0 \<le> ttl c"
proof -
  have "time_sub t t = 0"
    using assms(2) by (auto simp: time_sub_def clock_reading_def sat64_def max_int64_def min_int64_def)
  with assms show ?thesis
    by (auto simp: nonce_add_def prune_def Let_def split: option.splits if_splits)
qed

end
