(* ===== verification/Core.thy ===== *)
theory Core
  imports Wire Session Nonce
begin

text \<open>
  Package \<open>core\<close> (\<open>internal/core/core.go\<close>): one decoded payload in, an action on the session layer
  and a reply payload out.

  The injectable clock is read more than once in a call, so each operation takes the readings it
  makes as arguments, in the order it makes them: the freshness check reads the clock for the age
  of the command and again for the nonce cache. The session controller is a value of \<open>Session\<close>'s
  \<open>controller\<close>, and the state \<open>'s\<close> it acts on is threaded through.
\<close>

definition maxSkew :: duration where
  "maxSkew = 30 * second"

record core =
  machine :: string
  osName :: string
  nonces :: nonceCache

definition newCore :: "string \<Rightarrow> string \<Rightarrow> core" where
  "newCore m os = \<lparr>machine = m, osName = os, nonces = newNonceCache (2 * maxSkew)\<rparr>"

definition lockResult :: "string \<Rightarrow> bool \<Rightarrow> string \<Rightarrow> payload" where
  "lockResult nonce ok errMsg =
     empty_payload\<lparr>Kind := KindLockResult, Nonce := nonce, OK := Bool ok, Error := errMsg\<rparr>"

definition core_status :: "'s controller \<Rightarrow> core \<Rightarrow> 's \<Rightarrow> gotime \<Rightarrow> 's \<times> payload" where
  "core_status ctrl c s now =
     (case ctrl_locked ctrl s of
        (s', Inl err) \<Rightarrow>
          (s', empty_payload\<lparr>Kind := KindStatus, Error := err, Machine := machine c, OS := osName c\<rparr>)
      | (s', Inr locked) \<Rightarrow>
          (s', empty_payload\<lparr>Kind := KindStatus, Locked := Bool locked, Machine := machine c,
                 OS := osName c, TS := unix_seconds now\<rparr>))"

text \<open>The exported name of \<open>status\<close>.\<close>

definition Status :: "'s controller \<Rightarrow> core \<Rightarrow> 's \<Rightarrow> gotime \<Rightarrow> 's \<times> payload" where
  "Status ctrl c s now = core_status ctrl c s now"

definition err_missing :: string where "err_missing = ''lock rejected: missing nonce''"
definition err_stale :: string where "err_stale = ''lock rejected: stale timestamp''"
definition err_replayed :: string where "err_replayed = ''lock rejected: replayed nonce''"

text \<open>\<open>checkFreshness\<close>: the core with its cache updated, and the error or \<open>None\<close>.\<close>

definition checkFreshness :: "core \<Rightarrow> gotime \<Rightarrow> gotime \<Rightarrow> payload \<Rightarrow> core \<times> string option" where
  "checkFreshness c now1 now2 p =
     (if Nonce p = [] then (c, Some err_missing)
      else let age = time_sub now1 (time_unix (TS p))
           in if age > maxSkew \<or> age < - maxSkew then (c, Some err_stale)
              else let (nc, fresh) = nonce_add (nonces c) (Nonce p) now2
                   in if \<not> fresh then (c\<lparr>nonces := nc\<rparr>, Some err_replayed)
                      else (c\<lparr>nonces := nc\<rparr>, None))"

definition core_lock ::
  "'s controller \<Rightarrow> core \<Rightarrow> 's \<Rightarrow> gotime \<Rightarrow> gotime \<Rightarrow> payload \<Rightarrow> (core \<times> 's) \<times> payload" where
  "core_lock ctrl c s now1 now2 p =
     (case checkFreshness c now1 now2 p of
        (c', Some err) \<Rightarrow> ((c', s), lockResult (Nonce p) False err)
      | (c', None) \<Rightarrow>
          (case ctrl_lock ctrl s of
             (s', Some err) \<Rightarrow> ((c', s'), lockResult (Nonce p) False err)
           | (s', None) \<Rightarrow> ((c', s'), lockResult (Nonce p) True [])))"

text \<open>\<open>Handle\<close>; \<open>None\<close> is "no reply". A status request reads the clock once, a lock command twice.\<close>

definition core_handle ::
  "'s controller \<Rightarrow> core \<Rightarrow> 's \<Rightarrow> gotime \<Rightarrow> gotime \<Rightarrow> payload \<Rightarrow> (core \<times> 's) \<times> payload option" where
  "core_handle ctrl c s now1 now2 p =
     (if Kind p = KindStatusRequest then
        (let (s', out) = core_status ctrl c s now1 in ((c, s'), Some out))
      else if Kind p = KindLock then
        (let (cs, out) = core_lock ctrl c s now1 now2 p in (cs, Some out))
      else ((c, s), None))"

text \<open>A run of the core over the calls made to it, with the two clock readings of each.\<close>

type_synonym call = "gotime \<times> gotime \<times> payload"

fun core_run :: "'s controller \<Rightarrow> core \<times> 's \<Rightarrow> call list \<Rightarrow> core \<times> 's" where
  "core_run ctrl cs [] = cs"
| "core_run ctrl (c, s) ((now1, now2, p) # calls) =
     core_run ctrl (fst (core_handle ctrl c s now1 now2 p)) calls"

lemmas core_defs = core_handle_def core_lock_def core_status_def checkFreshness_def lockResult_def
  maxSkew_def err_missing_def err_stale_def err_replayed_def newCore_def

declare core_defs [go_defs] kind_defs [go_defs] empty_payload_def [go_defs]

section \<open>The freshness check\<close>

definition accepts :: "core \<Rightarrow> gotime \<Rightarrow> gotime \<Rightarrow> payload \<Rightarrow> bool" where
  "accepts c now1 now2 p = (snd (checkFreshness c now1 now2 p) = None)"

text \<open>The timestamp of a command as an instant, and its window.\<close>

definition ts_wall :: "payload \<Rightarrow> int" where
  "ts_wall p = wall_ns (time_unix (TS p))"

lemma in_window_iff:
  "\<not> (time_sub now (time_unix ts) > maxSkew \<or> time_sub now (time_unix ts) < - maxSkew)
     \<longleftrightarrow> \<bar>wall_ns now - wall_ns (time_unix ts)\<bar> \<le> maxSkew"
  using time_sub_le_iff [of maxSkew now "time_unix ts"] time_sub_ge_iff [of "- maxSkew" now "time_unix ts"]
  by (auto simp: maxSkew_def second_def min_int64_def max_int64_def not_less abs_le_iff)

lemma accepts_iff:
  "accepts c now1 now2 p \<longleftrightarrow>
     Nonce p \<noteq> [] \<and> \<bar>wall_ns now1 - ts_wall p\<bar> \<le> maxSkew \<and> snd (nonce_add (nonces c) (Nonce p) now2)"
  using in_window_iff [of now1 "TS p"]
  by (auto simp: accepts_def checkFreshness_def ts_wall_def Let_def split: prod.splits if_splits)

lemma checkFreshness_core:
  "fst (checkFreshness c now1 now2 p) = c
   \<or> fst (checkFreshness c now1 now2 p) = c\<lparr>nonces := fst (nonce_add (nonces c) (Nonce p) now2)\<rparr>"
  by (auto simp: checkFreshness_def Let_def split: prod.splits)

lemma core_handle_core:
  "fst (fst (core_handle ctrl c s now1 now2 p)) = c
   \<or> fst (fst (core_handle ctrl c s now1 now2 p))
       = c\<lparr>nonces := fst (nonce_add (nonces c) (Nonce p) now2)\<rparr>"
  using checkFreshness_core [of c now1 now2 p]
  by (auto simp: core_handle_def core_lock_def split: prod.splits option.splits)

lemma core_handle_fixed [simp]:
  "machine (fst (fst (core_handle ctrl c s now1 now2 p))) = machine c"
  "osName (fst (fst (core_handle ctrl c s now1 now2 p))) = osName c"
  "ttl (nonces (fst (fst (core_handle ctrl c s now1 now2 p)))) = ttl (nonces c)"
  using core_handle_core [of ctrl c s now1 now2 p] by auto

lemma core_handle_lock:
  "Kind p = KindLock \<Longrightarrow>
     core_handle ctrl c s now1 now2 p = (case core_lock ctrl c s now1 now2 p of (cs, out) \<Rightarrow> (cs, Some out))"
  by (simp add: core_handle_def kind_defs)

lemma core_lock_rejects:
  "\<not> accepts c now1 now2 p \<Longrightarrow>
     \<exists>e. core_lock ctrl c s now1 now2 p
           = ((fst (checkFreshness c now1 now2 p), s), lockResult (Nonce p) False e)"
  by (auto simp: core_lock_def accepts_def split: prod.splits option.splits)

lemma core_lock_accepts:
  "accepts c now1 now2 p \<Longrightarrow>
     core_lock ctrl c s now1 now2 p
       = (case ctrl_lock ctrl s of
            (s', Some err) \<Rightarrow> ((fst (checkFreshness c now1 now2 p), s'), lockResult (Nonce p) False err)
          | (s', None) \<Rightarrow> ((fst (checkFreshness c now1 now2 p), s'), lockResult (Nonce p) True []))"
  by (auto simp: core_lock_def accepts_def split: prod.splits option.splits)

lemma accepted_nonce_known:
  assumes "accepts c now1 now2 p"
  shows "nonce_known (nonces (fst (checkFreshness c now1 now2 p))) (Nonce p) now2"
proof -
  obtain nc b where a: "nonce_add (nonces c) (Nonce p) now2 = (nc, b)" by fastforce
  with assms have "b" "fst (checkFreshness c now1 now2 p) = c\<lparr>nonces := nc\<rparr>"
    by (auto simp: accepts_def checkFreshness_def Let_def split: if_splits)
  with nonce_store.add_fresh [of "nonces c" "Nonce p" now2 nc] a show ?thesis by simp
qed

section \<open>Replays\<close>

text \<open>
  The clock readings of a run: each reading is \<open>steady\<close> after the one before it, from \<open>t\<close> through
  the readings of the calls to \<open>u\<close>.
\<close>

fun steady_calls :: "gotime \<Rightarrow> call list \<Rightarrow> gotime \<Rightarrow> bool" where
  "steady_calls t [] u = steady t u"
| "steady_calls t ((now1, now2, p) # calls) u =
     (steady t now1 \<and> steady now1 now2 \<and> steady_calls now2 calls u)"

lemma steady_calls_steady: "steady_calls t calls u \<Longrightarrow> steady t u"
  by (induction t calls u rule: steady_calls.induct) (auto intro: steady_trans)

lemma core_run_keeps:
  assumes "nonce_known (nonces c) n t0" and "steady t0 t" and "steady_calls t calls u"
    and "time_diff u t0 \<le> ttl (nonces c)" and "ttl (nonces c) < max_int64" "min_int64 \<le> ttl (nonces c)"
  shows "nonce_known (nonces (fst (core_run ctrl (c, s) calls))) n t0
    \<and> ttl (nonces (fst (core_run ctrl (c, s) calls))) = ttl (nonces c)"
  using assms
proof (induction calls arbitrary: c s t)
  case (Cons call calls)
  obtain now1 now2 p where call: "call = (now1, now2, p)" by (cases call) auto
  obtain c' s' where h: "fst (core_handle ctrl c s now1 now2 p) = (c', s')" by fastforce
  from Cons.prems call have st: "steady t0 now2" "steady now2 u" "steady_calls now2 calls u"
    by (auto intro: steady_trans steady_calls_steady)
  from steady_diff_mono [OF st(1,2)] Cons.prems(4-6)
  have ne: "\<not> nonce_expired (nonces c) t0 now2"
    by (simp add: nonce_expired_def not_less time_sub_le_iff)
  have "nonce_known (nonces c') n t0"
  proof -
    obtain nc b where a: "nonce_add (nonces c) (Nonce p) now2 = (nc, b)" by fastforce
    from nonce_store.add_keeps [OF Cons.prems(1) ne a] core_handle_core [of ctrl c s now1 now2 p] h a Cons.prems(1)
    show ?thesis by auto
  qed
  moreover have "ttl (nonces c') = ttl (nonces c)"
    using core_handle_fixed(3) [of ctrl c s now1 now2 p] h by simp
  ultimately show ?case
    using Cons.IH [of c' now2 s'] st Cons.prems(4-6) h call by simp
qed simp

text \<open>
  The replay argument. A command is accepted at \<open>a1\<close>, with its nonce stored under \<open>a2\<close>; after any
  calls in between, the same command arrives at \<open>b1\<close>, with the nonce looked up at \<open>b2\<close>. The
  timestamp window is \<open>maxSkew\<close> to either side and the cache keeps a nonce for twice that, so the
  command is refused, if the second call takes no longer between its two readings than the slack
  \<open>\<delta>\<close> its timestamp left in the window.
\<close>

lemma replay_rejected:
  assumes ttl: "ttl (nonces c) = 2 * maxSkew"
    and acc: "accepts c a1 a2 p"
    and c1: "c1 = fst (checkFreshness c a1 a2 p)"
    and clock: "steady a1 a2" "steady_calls a2 calls b1" "steady b1 b2"
    and slack: "ts_wall p \<le> wall_ns a1 + maxSkew - \<delta>" "time_diff b2 b1 \<le> \<delta>"
  shows "\<not> accepts (fst (core_run ctrl (c1, s1) calls)) b1 b2 p"
proof
  let ?c2 = "fst (core_run ctrl (c1, s1) calls)"
  assume acc2: "accepts ?c2 b1 b2 p"
  from acc2 have b1: "wall_ns b1 - ts_wall p \<le> maxSkew" by (auto simp: accepts_iff abs_le_iff)
  from clock have ab: "steady a2 b1" by (blast intro: steady_calls_steady)
  obtain ma1 ma2 mb1 mb2 where m: "mono_ns a1 = Some ma1" "mono_ns a2 = Some ma2"
      "mono_ns b1 = Some mb1" "mono_ns b2 = Some mb2"
    using clock(1,3) ab by (auto simp: steady_def split: option.splits)
  with clock(1,3) ab slack b1
  have d: "time_diff b2 a2 \<le> 2 * maxSkew" "time_diff b1 a2 \<le> 2 * maxSkew"
    by (auto simp: steady_def)
  have a2: "steady a2 a2" using m by (simp add: steady_def)
  have ttl1: "ttl (nonces c1) = 2 * maxSkew"
    using c1 ttl checkFreshness_core [of c a1 a2 p] by auto
  have bounds: "2 * maxSkew < max_int64" "min_int64 \<le> 2 * maxSkew"
    by (simp_all add: maxSkew_def second_def max_int64_def min_int64_def)
  have "nonce_known (nonces ?c2) (Nonce p) a2 \<and> ttl (nonces ?c2) = 2 * maxSkew"
    using core_run_keeps [of c1 "Nonce p" a2 a2 calls b1 ctrl s1] accepted_nonce_known [OF acc]
      clock m ttl1 bounds d(2) c1 a2 by simp
  moreover have "time_sub b2 a2 \<le> 2 * maxSkew"
    using d(1) bounds by (simp add: time_sub_le_iff)
  ultimately have "\<not> snd (nonce_add (nonces ?c2) (Nonce p) b2)"
    by (simp add: nonce_add_accepts_iff nonce_known_def not_less)
  with acc2 show False by (simp add: accepts_iff)
qed

section \<open>What a lock command asks of the operating system\<close>

context session_controller
begin

lemma status_no_request:
  "core_status ctrl c s now = (s', out) \<Longrightarrow> requests s' = requests s"
  by (auto simp: core_status_def split: prod.splits sum.splits dest: locked_requests)

lemma lock_requests:
  assumes "core_lock ctrl c s now1 now2 p = ((c', s'), out)"
  shows "requests s \<le> requests s' \<and> requests s' \<le> requests s + of_bool (accepts c now1 now2 p)"
proof (cases "accepts c now1 now2 p")
  case True
  with assms core_lock_accepts [OF True, of ctrl s] lock_requests_bound [of s] show ?thesis
    by (auto split: prod.splits option.splits)
next
  case False
  with assms core_lock_rejects [OF False, of ctrl s] show ?thesis by auto
qed

lemma lock_ok_requested:
  assumes "core_lock ctrl c s now1 now2 p = ((c', s'), out)"
  shows "OK out = Some True \<Longrightarrow> accepts c now1 now2 p \<and> requests s' = Suc (requests s)"
  using assms lock_ok_requests [of s]
  by (auto simp: core_lock_def accepts_def lockResult_def split: prod.splits option.splits)

lemma handle_requests:
  assumes "core_handle ctrl c s now1 now2 p = ((c', s'), out)"
  shows "requests s \<le> requests s' \<and>
    requests s' \<le> requests s + of_bool (Kind p = KindLock \<and> accepts c now1 now2 p)"
  using assms status_no_request [of c s] lock_requests [of c s now1 now2 p]
  by (auto simp: core_handle_def kind_defs split: prod.splits if_splits)

end

section \<open>Properties\<close>

lemma core_run_ttl: "ttl (nonces (fst (core_run ctrl cs calls))) = ttl (nonces (fst cs))"
proof (induction ctrl cs calls rule: core_run.induct)
  case (2 ctrl c s now1 now2 p calls)
  have "ttl (nonces (fst (fst (core_handle ctrl c s now1 now2 p)))) = ttl (nonces c)"
    by (rule core_handle_fixed)
  with 2 show ?case by simp
qed simp

lemma checkFreshness_error:
  "snd (checkFreshness c now1 now2 p) \<in> {None, Some err_missing, Some err_stale, Some err_replayed}"
  by (auto simp: checkFreshness_def Let_def split: prod.splits)

text \<open>
  C2. A lock command that was accepted once is never accepted again: after any further calls the
  same payload is answered with a failed lock result and the session is not touched. The clock
  readings must be steady, that is, the wall clock is not set back, and the second call must not
  take longer between its two readings than the slack \<open>\<delta>\<close> by which the first command's timestamp
  was inside the window.
\<close>

theorem lock_not_replayed:
  assumes "c0 = fst (core_run ctrl0 (newCore m os, s0) before)"
    and "Kind p = KindLock" and "accepts c0 a1 a2 p"
    and "core_handle ctrl c0 s a1 a2 p = ((c1, s1), out1)"
    and "steady a1 a2" "steady_calls a2 calls b1" "steady b1 b2"
    and "ts_wall p \<le> wall_ns a1 + maxSkew - \<delta>" "time_diff b2 b1 \<le> \<delta>"
    and "core_handle ctrl (fst (core_run ctrl (c1, s1) calls)) s2 b1 b2 p = ((c3, s3), out2)"
  shows "s3 = s2 \<and> (\<exists>e\<in>{err_stale, err_replayed}. out2 = Some (lockResult (Nonce p) False e))"
proof -
  have ttl: "ttl (nonces c0) = 2 * maxSkew"
    by (simp add: assms(1) core_run_ttl newCore_def newNonceCache_def)
  have c1: "c1 = fst (checkFreshness c0 a1 a2 p)"
    using assms(4) core_lock_accepts [OF assms(3), of ctrl s]
    by (auto simp: core_handle_lock [OF assms(2)] split: prod.splits option.splits)
  have "Nonce p \<noteq> []" using assms(3) by (simp add: accepts_iff)
  let ?c = "fst (core_run ctrl (c1, s1) calls)"
  have "\<not> accepts ?c b1 b2 p"
    by (rule replay_rejected [OF ttl assms(3) c1 assms(5-9)])
  then obtain e where e: "snd (checkFreshness ?c b1 b2 p) = Some e" by (auto simp: accepts_def)
  with checkFreshness_error [of ?c b1 b2 p] \<open>Nonce p \<noteq> []\<close>
  have "e \<in> {err_stale, err_replayed}"
    by (auto simp: checkFreshness_def Let_def err_stale_def err_replayed_def split: if_splits prod.splits)
  with e assms(10) show ?thesis
    by (auto simp: core_handle_lock [OF assms(2)] core_lock_def split: prod.splits option.splits)
qed

definition demo_lock :: payload where
  "demo_lock = empty_payload\<lparr>Kind := KindLock, Nonce := ''n1'', TS := 1000\<rparr>"

definition at_time :: "int \<Rightarrow> int \<Rightarrow> gotime" where
  "at_time w m = \<lparr>wall_ns = w * second, mono_ns = Some (m * second)\<rparr>"

lemmas demo_defs = demo_lock_def at_time_def

theorem lock_not_replayed_witness:
  "\<exists>c1 c3 out2. core_handle fakeSession (newCore ''pc'' ''linux'') (False, 0) (at_time 1000 5) (at_time 1000 5) demo_lock
      = ((c1, (True, 1)), Some (lockResult ''n1'' True []))
    \<and> core_handle fakeSession c1 (True, 1) (at_time 1010 15) (at_time 1010 15) demo_lock = ((c3, (True, 1)), out2)
    \<and> (\<exists>e\<in>{err_stale, err_replayed}. out2 = Some (lockResult ''n1'' False e))"
proof -
  let ?c0 = "newCore ''pc'' ''linux''"
  obtain c1 s1 out1 where h: "core_handle fakeSession ?c0 (False, 0) (at_time 1000 5) (at_time 1000 5) demo_lock
      = ((c1, s1), out1)" by (metis prod.collapse)
  then have h1: "s1 = (True, 1)" "out1 = Some (lockResult ''n1'' True [])"
    by (auto simp: go_defs demo_defs)
  have acc: "accepts ?c0 (at_time 1000 5) (at_time 1000 5) demo_lock"
    by (simp add: accepts_iff ts_wall_def go_defs demo_defs)
  obtain c3 s3 out2 where h2: "core_handle fakeSession (fst (core_run fakeSession (c1, s1) [])) (True, 1)
      (at_time 1010 15) (at_time 1010 15) demo_lock = ((c3, s3), out2)" by (metis prod.collapse)
  have "s3 = (True, 1) \<and> (\<exists>e\<in>{err_stale, err_replayed}. out2 = Some (lockResult (Nonce demo_lock) False e))"
    by (rule lock_not_replayed [OF _ _ acc h _ _ _ _ _ h2, of fakeSession "''pc''" "''linux''" "(False, 0)" "[]" 0])
       (simp_all add: steady_def ts_wall_def time_diff_def go_defs demo_defs)
  with h h1 h2 show ?thesis by (auto simp: demo_lock_def)
qed

section \<open>Acceptance and the history of a core\<close>

text \<open>The nonces accepted by a run, each with the reading under which it was stored.\<close>

fun accepted_nonces :: "'s controller \<Rightarrow> core \<times> 's \<Rightarrow> call list \<Rightarrow> (string \<times> gotime) list" where
  "accepted_nonces ctrl cs [] = []"
| "accepted_nonces ctrl (c, s) ((now1, now2, p) # calls) =
     (if Kind p = KindLock \<and> accepts c now1 now2 p then [(Nonce p, now2)] else [])
       @ accepted_nonces ctrl (fst (core_handle ctrl c s now1 now2 p)) calls"

definition clock_readings :: "call list \<Rightarrow> gotime list" where
  "clock_readings calls = concat (map (\<lambda>(now1, now2, p). [now1, now2]) calls)"

lemma clock_readings_simps [simp]:
  "clock_readings [] = []"
  "clock_readings ((now1, now2, p) # calls) = now1 # now2 # clock_readings calls"
  by (simp_all add: clock_readings_def)

lemma mono_le_refl: "mono_le t u \<Longrightarrow> mono_le t t"
  by (auto simp: mono_le_def split: option.splits)

lemma mono_le_trans: "mono_le t u \<Longrightarrow> mono_le u v \<Longrightarrow> mono_le t v"
  by (auto simp: mono_le_def split: option.splits)

lemma mono_le_sub: "mono_le t u \<Longrightarrow> mono_le u v \<Longrightarrow> time_sub u t \<le> time_sub v t"
  by (auto simp: mono_le_def time_sub_def sat64_def split: option.splits)

text \<open>
  The cache holds only accepted nonces, and an accepted nonce that it no longer holds has outlived
  its time. Only the monotonic clock matters for this: the wall clock may jump.
\<close>

definition remembers_history :: "core \<Rightarrow> (string \<times> gotime) set \<Rightarrow> gotime \<Rightarrow> bool" where
  "remembers_history c H u =
     ((\<forall>n t. seen (nonces c) n = Some t \<longrightarrow> (n, t) \<in> H)
      \<and> (\<forall>(n, t)\<in>H. mono_le t u \<and> (seen (nonces c) n = Some t \<or> time_sub u t > ttl (nonces c))))"

lemma checkFreshness_cases:
  "(fst (checkFreshness c now1 now2 p) = c\<lparr>nonces := fst (nonce_add (nonces c) (Nonce p) now2)\<rparr>
      \<and> accepts c now1 now2 p = snd (nonce_add (nonces c) (Nonce p) now2))
   \<or> (fst (checkFreshness c now1 now2 p) = c \<and> \<not> accepts c now1 now2 p)"
  by (auto simp: accepts_def checkFreshness_def Let_def split: prod.splits)

lemma core_handle_fresh:
  "fst (fst (core_handle ctrl c s now1 now2 p)) =
     (if Kind p = KindLock then fst (checkFreshness c now1 now2 p) else c)"
  by (auto simp: core_handle_def core_lock_def kind_defs split: prod.splits option.splits)

lemma history_later:
  "remembers_history c H u \<Longrightarrow> mono_le u v \<Longrightarrow> remembers_history c H v"
  using mono_le_sub [of _ u v] mono_le_trans [of _ u v]
  by (fastforce simp: remembers_history_def)

lemma nonce_add_seen:
  assumes "nonce_add c k u = (c', fresh)"
  shows "ttl c' = ttl c"
    and "seen c' n = Some t \<longleftrightarrow> (seen c n = Some t \<and> time_sub u t \<le> ttl c) \<or> (fresh \<and> n = k \<and> t = u)"
    and "fresh \<longleftrightarrow> (\<forall>t. seen c k = Some t \<longrightarrow> time_sub u t > ttl c)"
  using assms
  by (auto simp: nonce_add_def prune_def Let_def split: option.splits if_splits)

lemma history_step:
  assumes "remembers_history c H now2" and "mono_le now2 now2"
  shows "remembers_history (fst (fst (core_handle ctrl c s now1 now2 p)))
    (H \<union> set (if Kind p = KindLock \<and> accepts c now1 now2 p then [(Nonce p, now2)] else [])) now2"
proof (cases "Kind p = KindLock")
  case False
  with assms show ?thesis by (simp add: core_handle_fresh)
next
  case True
  obtain nc fresh where add: "nonce_add (nonces c) (Nonce p) now2 = (nc, fresh)" by fastforce
  note n = nonce_add_seen [OF add]
  from checkFreshness_cases [of c now1 now2 p] show ?thesis
  proof (elim disjE conjE)
    assume f: "fst (checkFreshness c now1 now2 p) = c\<lparr>nonces := fst (nonce_add (nonces c) (Nonce p) now2)\<rparr>"
      and a: "accepts c now1 now2 p = snd (nonce_add (nonces c) (Nonce p) now2)"
    have "remembers_history (c\<lparr>nonces := nc\<rparr>) (H \<union> set (if fresh then [(Nonce p, now2)] else [])) now2"
      unfolding remembers_history_def using assms
      by (simp add: n(1,2) remembers_history_def not_le [symmetric]) blast
    with True show ?thesis by (simp add: core_handle_fresh f a add)
  next
    assume "fst (checkFreshness c now1 now2 p) = c" and "\<not> accepts c now1 now2 p"
    with True assms show ?thesis by (simp add: core_handle_fresh)
  qed
qed

lemma history_run:
  "remembers_history c H u \<Longrightarrow> sorted_wrt mono_le (u # clock_readings calls @ [v]) \<Longrightarrow>
     remembers_history (fst (core_run ctrl (c, s) calls)) (H \<union> set (accepted_nonces ctrl (c, s) calls)) v"
proof (induction calls arbitrary: c s H u)
  case Nil
  then show ?case by (auto intro: history_later)
next
  case (Cons call calls)
  obtain now1 now2 p where call: "call = (now1, now2, p)" by (cases call) auto
  obtain c' s' out where h: "core_handle ctrl c s now1 now2 p = ((c', s'), out)" by (metis prod.collapse)
  have m: "mono_le u now2" "mono_le now2 v" "sorted_wrt mono_le (now2 # clock_readings calls @ [v])"
    using Cons.prems(2) by (auto simp: call)
  from history_step [OF history_later [OF Cons.prems(1) m(1)] mono_le_refl [OF m(2)], of ctrl s now1 p] h
  have "remembers_history c' (H \<union> set (if Kind p = KindLock \<and> accepts c now1 now2 p then [(Nonce p, now2)] else [])) now2"
    by simp
  from Cons.IH [OF this m(3), of s'] h show ?case by (simp add: call Un_assoc)
qed

lemma newCore_history:
  assumes "sorted_wrt mono_le (clock_readings calls @ [now1, now2])"
  shows "remembers_history (fst (core_run ctrl (newCore m os, s) calls))
    (set (accepted_nonces ctrl (newCore m os, s) calls)) now2"
proof -
  obtain u xs where u: "clock_readings calls @ [now1, now2] = u # xs" "xs \<noteq> []"
    by (cases "clock_readings calls") auto
  then have "mono_le u u" using assms by (cases xs) (auto intro: mono_le_refl)
  with assms u have "sorted_wrt mono_le (u # clock_readings calls @ [now1, now2])" by auto
  then have s: "sorted_wrt mono_le (u # clock_readings calls @ [now2])" by (simp add: sorted_wrt_append)
  have "remembers_history (newCore m os) {} u" by (simp add: remembers_history_def newCore_def newNonceCache_def)
  from history_run [OF this s] show ?thesis by simp
qed

text \<open>
  C18. When the core accepts a lock command. After any calls to a new core, a command passes the freshness
  check exactly when it has a nonce, its timestamp is at most 30 seconds from the wall clock in
  either direction, and no command with that nonce was accepted within the last 60 seconds of the
  monotonic clock. The wall clock may jump between the calls.
\<close>

theorem lock_accepted_iff:
  assumes "sorted_wrt mono_le (clock_readings calls @ [now1, now2])"
  shows "(\<exists>c'. checkFreshness (fst (core_run ctrl (newCore m os, s) calls)) now1 now2 p = (c', None)) \<longleftrightarrow>
     Nonce p \<noteq> [] \<and> \<bar>wall_ns now1 - ts_wall p\<bar> \<le> 30 * second
     \<and> (\<forall>(n, t)\<in>set (accepted_nonces ctrl (newCore m os, s) calls). n = Nonce p \<longrightarrow> time_sub now2 t > 60 * second)"
proof -
  let ?c = "fst (core_run ctrl (newCore m os, s) calls)"
  have ttl: "ttl (nonces ?c) = 60 * second"
    by (simp add: core_run_ttl newCore_def newNonceCache_def maxSkew_def)
  have "(\<exists>c'. checkFreshness ?c now1 now2 p = (c', None)) \<longleftrightarrow> accepts ?c now1 now2 p"
    by (cases "checkFreshness ?c now1 now2 p") (simp add: accepts_def)
  with newCore_history [OF assms, of ctrl m os s] show ?thesis
    by (fastforce simp: accepts_iff nonce_add_accepts_iff maxSkew_def ttl remembers_history_def)
qed

theorem lock_accepted_iff_witness:
  "\<exists>c1. core_run fakeSession (newCore ''pc'' ''linux'', (False, 0)) [(at_time 1000 5, at_time 1000 5, demo_lock)] = (c1, (True, 1))
     \<and> (\<exists>c'. checkFreshness c1 (at_time 990 66) (at_time 990 66) demo_lock = (c', None))"
proof -
  let ?calls = "[(at_time 1000 5, at_time 1000 5, demo_lock)]"
  have "sorted_wrt mono_le (clock_readings ?calls @ [at_time 990 66, at_time 990 66])"
    by (simp add: mono_le_def go_defs demo_defs)
  from lock_accepted_iff [OF this, of fakeSession "''pc''" "''linux''" "(False, 0)" demo_lock]
  have "\<exists>c'. checkFreshness (fst (core_run fakeSession (newCore ''pc'' ''linux'', (False, 0)) ?calls))
      (at_time 990 66) (at_time 990 66) demo_lock = (c', None)"
    by (simp add: ts_wall_def go_defs demo_defs)
  moreover have "snd (core_run fakeSession (newCore ''pc'' ''linux'', (False, 0)) ?calls) = (True, 1)"
    by (simp add: go_defs demo_defs)
  ultimately show ?thesis by (metis prod.collapse)
qed

text \<open>
  C40. The limit of the replay protection. A lock command that was carried out is carried out again when it
  arrives again exactly if its timestamp is still within 30 seconds of the wall clock and more than
  60 seconds have passed on the clock that measures the life of its nonce, the monotonic one. For
  that the wall clock must have advanced less, from the first check to the second, than the time
  between storing and looking up the nonce: it was set back, or the second check stalled between its
  two readings.
\<close>

theorem replay_after_clock_set_back:
  assumes "c = fst (core_run ctrl0 (newCore m os, s0) before)" and "Kind p = KindLock"
    and "core_handle ctrl c s a1 a2 p = ((c1, s1), Some r1)" and "OK r1 = Some True"
    and "core_handle ctrl c1 s1 b1 b2 p = ((c2, s2), Some r2)" and "snd (ctrl_lock ctrl s1) = None"
  shows "(OK r2 = Some True \<longleftrightarrow> \<bar>wall_ns b1 - ts_wall p\<bar> \<le> 30 * second \<and> time_sub b2 a2 > 60 * second)
    \<and> (OK r2 = Some True \<longrightarrow> wall_ns b1 - wall_ns a1 < time_sub b2 a2)"
proof -
  have out: "OK r = Some True \<longleftrightarrow> accepts d t1 t2 p \<and> snd (ctrl_lock ctrl u) = None"
    if "core_handle ctrl d u t1 t2 p = (e, Some r)" for d u t1 t2 e r
    using that by (auto simp: core_handle_lock [OF assms(2)] core_lock_def accepts_def lockResult_def
        split: prod.splits option.splits)
  have acc: "accepts c a1 a2 p" using out [OF assms(3)] assms(4) by simp
  have c1: "c1 = fst (checkFreshness c a1 a2 p)" using core_handle_fresh [of ctrl c s a1 a2 p] assms(2,3) by simp
  have ttl: "ttl (nonces c1) = 60 * second"
    using core_handle_fixed(3) [of ctrl c s a1 a2 p] core_run_ttl [of ctrl0 "(newCore m os, s0)" before]
    unfolding assms(3) by (simp add: assms(1) newCore_def newNonceCache_def maxSkew_def)
  have "seen (nonces c1) (Nonce p) = Some a2"
    using accepted_nonce_known [OF acc] by (simp add: c1 nonce_known_def)
  then have "OK r2 = Some True \<longleftrightarrow> \<bar>wall_ns b1 - ts_wall p\<bar> \<le> 30 * second \<and> time_sub b2 a2 > 60 * second"
    using out [OF assms(5)] assms(6) acc by (auto simp: accepts_iff nonce_add_accepts_iff ttl maxSkew_def)
  moreover have "\<bar>wall_ns a1 - ts_wall p\<bar> \<le> 30 * second" using acc by (simp add: accepts_iff maxSkew_def)
  ultimately show ?thesis by linarith
qed

theorem replay_after_clock_set_back_witness:
  "\<exists>c1 c2 r1 r2. core_handle fakeSession (newCore ''pc'' ''linux'') (False, 0) (at_time 1000 0) (at_time 1000 0) demo_lock
       = ((c1, (True, 1)), Some r1)
     \<and> core_handle fakeSession c1 (True, 1) (at_time 990 61) (at_time 990 61) demo_lock = ((c2, (True, 2)), Some r2)
     \<and> OK r2 = Some True"
proof -
  obtain c1 r1 where h1: "core_handle fakeSession (newCore ''pc'' ''linux'') (False, 0) (at_time 1000 0) (at_time 1000 0)
      demo_lock = ((c1, (True, 1)), Some r1)" "OK r1 = Some True"
    by (simp add: go_defs demo_defs)
  obtain c2 s2 r2 where h2: "core_handle fakeSession c1 (True, 1) (at_time 990 61) (at_time 990 61) demo_lock
      = ((c2, s2), Some r2)"
    by (cases "core_lock fakeSession c1 (True, 1) (at_time 990 61) (at_time 990 61) demo_lock")
       (auto simp: core_handle_lock demo_lock_def)
  have "OK r2 = Some True"
    using replay_after_clock_set_back [OF _ _ h1 h2, of fakeSession "''pc''" "''linux''" "(False, 0)" "[]"]
    by (simp add: ts_wall_def go_defs demo_defs)
  with h2 have "s2 = (True, 2)"
    by (auto simp: core_handle_lock core_lock_def demo_lock_def lockResult_def fakeSession_def split: prod.splits option.splits)
  with h1 h2 \<open>OK r2 = Some True\<close> show ?thesis by blast
qed

end
