(* ===== verification/Keys.thy ===== *)
theory Keys
  imports Base64
begin

text \<open>
  \<open>internal/secure/keys.go\<close>: the X25519 key pair and its base64 form, and the parameter that stands
  for the third-party cryptography (\<open>golang.org/x/crypto\<close>: \<open>nacl/box\<close> and \<open>curve25519\<close>), which is
  not part of the repository.
\<close>

unbundle bit_operations_syntax

section \<open>The third-party operations\<close>

text \<open>
  \<open>box_GenerateKey\<close> takes what the random source delivers, 32 bytes or an error, and returns the
  public and the private key. \<open>box_Seal nonce msg peerPub priv\<close> is the box alone; the Go function
  appends it to its first argument. \<open>box_Open\<close> returns \<open>None\<close> when authentication fails.
\<close>

record nacl =
  box_GenerateKey :: "bytes result \<Rightarrow> (bytes \<times> bytes) result"
  box_Seal :: "bytes \<Rightarrow> bytes \<Rightarrow> bytes \<Rightarrow> bytes \<Rightarrow> bytes"
  box_Open :: "bytes \<Rightarrow> bytes \<Rightarrow> bytes \<Rightarrow> bytes \<Rightarrow> bytes option"
  X25519 :: "bytes \<Rightarrow> bytes \<Rightarrow> bytes result"

record keys =
  Pub :: bytes
  Priv :: bytes

definition generated :: "nacl \<Rightarrow> keys \<Rightarrow> bool" where
  "generated cr k = (\<exists>rnd. box_GenerateKey cr rnd = Inr (Pub k, Priv k))"

text \<open>
  The documented behaviour the agent relies on: keys have 32 bytes, a box made for a peer opens
  with the peer's private key and the sender's public key, and both sides of a Diffie-Hellman
  exchange compute the same value.
\<close>

definition nacl_laws :: "nacl \<Rightarrow> bool" where
  "nacl_laws cr =
     ((\<forall>k. generated cr k \<longrightarrow> length (Pub k) = 32 \<and> length (Priv k) = 32)
      \<and> (\<forall>a b nonce msg. generated cr a \<and> generated cr b \<longrightarrow>
           box_Open cr nonce (box_Seal cr nonce msg (Pub b) (Priv a)) (Pub a) (Priv b) = Some msg)
      \<and> (\<forall>a b. generated cr a \<and> generated cr b \<longrightarrow>
           X25519 cr (Priv a) (Pub b) = X25519 cr (Priv b) (Pub a)))"

section \<open>Key pairs\<close>

definition GenerateKeys :: "nacl \<Rightarrow> bytes result \<Rightarrow> keys result" where
  "GenerateKeys cr rnd =
     (case box_GenerateKey cr rnd of
        Inl err \<Rightarrow> Inl (''secure: generate keys: '' @ err)
      | Inr (pub, priv) \<Rightarrow> Inr \<lparr>Pub = pub, Priv = priv\<rparr>)"

definition EncodeKey :: "bytes \<Rightarrow> string" where
  "EncodeKey k = std_encode k"

definition err_key :: string where
  "err_key = ''secure: invalid key encoding''"

definition DecodeKey :: "string \<Rightarrow> bytes result" where
  "DecodeKey s =
     (case std_decode s of
        None \<Rightarrow> Inl err_key
      | Some raw \<Rightarrow> if length raw \<noteq> 32 then Inl err_key else Inr raw)"

declare GenerateKeys_def [go_defs]

lemma GenerateKeys_generated: "GenerateKeys cr rnd = Inr k \<Longrightarrow> generated cr k"
  by (auto simp: GenerateKeys_def generated_def split: sum.splits prod.splits)

lemma DecodeKey_length: "DecodeKey s = Inr k \<Longrightarrow> length k = 32"
  by (auto simp: DecodeKey_def split: option.splits if_splits)

lemma DecodeKey_cases: "DecodeKey s = Inl err_key \<or> (\<exists>k. DecodeKey s = Inr k \<and> length k = 32)"
  by (auto simp: DecodeKey_def split: option.splits)

text \<open>The key codec: a key of 32 bytes is read back as it was written.\<close>

definition key_read :: "string \<Rightarrow> bytes option" where
  "key_read s = (case DecodeKey s of Inl _ \<Rightarrow> None | Inr k \<Rightarrow> Some k)"

interpretation key_codec: codec "\<lambda>k. length k = 32" EncodeKey key_read
  by unfold_locales (simp add: key_read_def DecodeKey_def EncodeKey_def)

lemma DecodeKey_EncodeKey [simp]: "length k = 32 \<Longrightarrow> DecodeKey (EncodeKey k) = Inr k"
  by (simp add: DecodeKey_def EncodeKey_def)

section \<open>A concrete instance of the parameter\<close>

text \<open>
  An instance that satisfies the laws, for concrete runs: a public key equals its private key,
  and a box is the message behind the bytewise exclusive or of the two keys. It has none of the
  secrecy of the real operations; the laws ask for none.
\<close>

definition xor_bytes :: "bytes \<Rightarrow> bytes \<Rightarrow> bytes" where
  "xor_bytes a b =
     map2 (\<lambda>x y. char_of (unat ((word_of_nat (of_char x) :: 8 word) XOR word_of_nat (of_char y)))) a b"

lemma xor_bytes_commute: "xor_bytes a b = xor_bytes b a"
  unfolding xor_bytes_def
  by (subst zip_commute) (simp add: case_prod_beta comp_def xor.commute)

lemma length_xor_bytes [simp]: "length (xor_bytes a b) = min (length a) (length b)"
  by (simp add: xor_bytes_def)

definition toy_nacl :: nacl where
  "toy_nacl =
     \<lparr>box_GenerateKey = (\<lambda>rnd. case rnd of
          Inl e \<Rightarrow> Inl e
        | Inr r \<Rightarrow> if length r = 32 then Inr (r, r) else Inl ''unexpected EOF''),
      box_Seal = (\<lambda>nonce msg peer priv. xor_bytes peer priv @ msg),
      box_Open = (\<lambda>nonce box peer priv.
          if take 32 box = xor_bytes peer priv then Some (drop 32 box) else None),
      X25519 = (\<lambda>priv peer. Inr (xor_bytes priv peer))\<rparr>"

lemma toy_generated: "generated toy_nacl k \<longleftrightarrow> Pub k = Priv k \<and> length (Priv k) = 32"
proof
  assume "generated toy_nacl k"
  then obtain rnd where "box_GenerateKey toy_nacl rnd = Inr (Pub k, Priv k)"
    by (auto simp: generated_def)
  then show "Pub k = Priv k \<and> length (Priv k) = 32"
    by (cases rnd) (auto simp: toy_nacl_def split: if_splits)
next
  assume "Pub k = Priv k \<and> length (Priv k) = 32"
  then have "box_GenerateKey toy_nacl (Inr (Priv k)) = Inr (Pub k, Priv k)"
    by (simp add: toy_nacl_def)
  then show "generated toy_nacl k" unfolding generated_def by blast
qed

lemma toy_nacl_laws: "nacl_laws toy_nacl"
proof -
  have "xor_bytes (Priv b) (Priv a) = xor_bytes (Priv a) (Priv b)" for a b :: keys
    by (rule xor_bytes_commute)
  then show ?thesis
    unfolding nacl_laws_def toy_generated
    by (auto simp: toy_nacl_def)
qed

end
