(* ===== verification/Crypt.thy ===== *)
theory Crypt
  imports Keys
begin

text \<open>
  \<open>internal/secure/crypt.go\<close>: the sealed payload format, \<open>"e1:"\<close> followed by the base64 of the
  nonce and the box. The random source is an argument of \<open>Seal\<close>: the 24 bytes it delivers, or an
  error.
\<close>

definition sealedPrefix :: string where
  "sealedPrefix = ''e1:''"

definition nonceSize :: nat where
  "nonceSize = 24"

definition IsSealed :: "string \<Rightarrow> bool" where
  "IsSealed p = has_prefix p sealedPrefix"

definition Seal :: "nacl \<Rightarrow> bytes result \<Rightarrow> string \<Rightarrow> bytes \<Rightarrow> keys \<Rightarrow> string result" where
  "Seal cr rnd plain peerPub k =
     (case rnd of
        Inl err \<Rightarrow> Inl (''secure: nonce: '' @ err)
      | Inr nonce \<Rightarrow>
          Inr (sealedPrefix @ std_encode (nonce @ box_Seal cr nonce plain peerPub (Priv k))))"

definition Open :: "nacl \<Rightarrow> string \<Rightarrow> bytes \<Rightarrow> keys \<Rightarrow> string option" where
  "Open cr sealed peerPub k =
     (if \<not> IsSealed sealed then None
      else case std_decode (drop (length sealedPrefix) sealed) of
             None \<Rightarrow> None
           | Some raw \<Rightarrow>
               if length raw < nonceSize then None
               else box_Open cr (take nonceSize raw) (drop nonceSize raw) peerPub (Priv k))"

lemma Seal_sealed: "Seal cr rnd plain peer k = Inr s \<Longrightarrow> IsSealed s"
  by (auto simp: Seal_def IsSealed_def split: sum.splits)

lemma Seal_cases:
  "(\<exists>e. rnd = Inl e \<and> Seal cr rnd plain peer k = Inl (''secure: nonce: '' @ e))
   \<or> (\<exists>n. rnd = Inr n \<and> is_ok (Seal cr rnd plain peer k))"
  by (cases rnd) (auto simp: Seal_def)

text \<open>What \<open>Open\<close> does with a well-formed envelope.\<close>

lemma Open_envelope:
  "length nonce = nonceSize \<Longrightarrow>
     Open cr (sealedPrefix @ std_encode (nonce @ box)) peer k = box_Open cr nonce box peer (Priv k)"
  by (simp add: Open_def IsSealed_def)

text \<open>An opened payload had a nonce and a box that the third-party code authenticated.\<close>

lemma Open_SomeD:
  "Open cr sealed peer k = Some plain \<Longrightarrow>
     \<exists>nonce box. length nonce = nonceSize
       \<and> std_decode (drop (length sealedPrefix) sealed) = Some (nonce @ box)
       \<and> box_Open cr nonce box peer (Priv k) = Some plain \<and> IsSealed sealed"
proof -
  assume o: "Open cr sealed peer k = Some plain"
  then obtain raw where raw: "std_decode (drop (length sealedPrefix) sealed) = Some raw"
      "nonceSize \<le> length raw" "IsSealed sealed"
      "box_Open cr (take nonceSize raw) (drop nonceSize raw) peer (Priv k) = Some plain"
    by (auto simp: Open_def not_less split: if_splits option.splits)
  then show ?thesis
    by (intro exI [of _ "take nonceSize raw"] exI [of _ "drop nonceSize raw"]) simp
qed

lemma Open_Seal:
  assumes "nacl_laws cr" and "generated cr a" and "generated cr b" and "length nonce = nonceSize"
    and "Seal cr (Inr nonce) plain (Pub b) a = Inr sealed"
  shows "Open cr sealed (Pub a) b = Some plain"
proof -
  from assms(5) have "sealed = sealedPrefix @ std_encode (nonce @ box_Seal cr nonce plain (Pub b) (Priv a))"
    by (simp add: Seal_def)
  with assms(1-4) show ?thesis
    by (simp add: Open_envelope nacl_laws_def)
qed

end
