(* ===== verification/Sha256.thy ===== *)
theory Sha256
  imports Prelude
begin

text \<open>
  \<open>crypto/sha256\<close> and \<open>crypto/hmac\<close>, the two hash functions of the standard library the agent
  calls, after FIPS 180-4 and RFC 2104. Bytes are characters; the 32-bit arithmetic is on words.
\<close>

unbundle bit_operations_syntax

type_synonym u32 = "32 word"

definition u32_of_byte :: "char \<Rightarrow> u32" where
  "u32_of_byte c = word_of_nat (of_char c)"

definition byte_of_word :: "'a::len word \<Rightarrow> char" where
  "byte_of_word w = char_of (unat w)"

text \<open>
  The constants of the standard by their definition: the first 32 bits of the fractional parts of
  the square roots of the first eight primes, and of the cube roots of the first 64.
\<close>

definition primes_below :: "nat \<Rightarrow> nat list" where
  "primes_below n = filter (\<lambda>p. list_all (\<lambda>d. p mod d \<noteq> 0) [2..<p]) [2..<n]"

text \<open>The integer root, bit by bit from \<open>2 ^ n\<close> down.\<close>

fun root_bits :: "nat \<Rightarrow> nat \<Rightarrow> nat \<Rightarrow> nat \<Rightarrow> nat" where
  "root_bits 0 k v r = r"
| "root_bits (Suc n) k v r = root_bits n k v (if (r + 2 ^ n) ^ k \<le> v then r + 2 ^ n else r)"

definition root_fraction :: "nat \<Rightarrow> nat \<Rightarrow> u32" where
  "root_fraction k p = word_of_nat (root_bits 37 k (p * 2 ^ (32 * k)) 0)"

definition sha_k :: "u32 list" where
  "sha_k = map (root_fraction 3) (primes_below 312)"

type_synonym sha_state = "u32 \<times> u32 \<times> u32 \<times> u32 \<times> u32 \<times> u32 \<times> u32 \<times> u32"

fun state_of :: "u32 list \<Rightarrow> sha_state" where
  "state_of [a, b, c, d, e, f, g, h] = (a, b, c, d, e, f, g, h)"
| "state_of _ = (0, 0, 0, 0, 0, 0, 0, 0)"

definition sha_init :: sha_state where
  "sha_init = state_of (map (root_fraction 2) (primes_below 20))"

text \<open>Padding: the byte \<open>0x80\<close>, zeros up to 56 modulo 64, and the length in bits in 8 bytes.\<close>

definition be_bytes :: "nat \<Rightarrow> nat \<Rightarrow> bytes" where
  "be_bytes n v = map (\<lambda>i. char_of (v div 256 ^ (n - 1 - i) mod 256)) [0..<n]"

definition sha_pad :: "bytes \<Rightarrow> bytes" where
  "sha_pad m = m @ [CHR 0x80] @ replicate ((119 - length m mod 64) mod 64) (CHR 0x00)
     @ be_bytes 8 (8 * length m mod 2 ^ 64)"

fun chunks :: "nat \<Rightarrow> nat \<Rightarrow> 'a list \<Rightarrow> 'a list list" where
  "chunks 0 k xs = []"
| "chunks (Suc n) k xs = take k xs # chunks n k (drop k xs)"

fun be_word :: "bytes \<Rightarrow> u32" where
  "be_word [a, b, c, d] =
     push_bit 24 (u32_of_byte a) OR push_bit 16 (u32_of_byte b) OR push_bit 8 (u32_of_byte c)
       OR u32_of_byte d"
| "be_word _ = 0"

text \<open>The message schedule, newest word first, and one round.\<close>

definition sched_step :: "u32 list \<Rightarrow> u32 list" where
  "sched_step ws =
     (let w15 = ws ! 14; w2 = ws ! 1;
          s0 = word_rotr 7 w15 XOR word_rotr 18 w15 XOR drop_bit 3 w15;
          s1 = word_rotr 17 w2 XOR word_rotr 19 w2 XOR drop_bit 10 w2
      in (ws ! 15 + s0 + ws ! 6 + s1) # ws)"

definition sha_schedule :: "bytes \<Rightarrow> u32 list" where
  "sha_schedule block = rev ((sched_step ^^ 48) (rev (map be_word (chunks 16 4 block))))"

fun sha_round :: "sha_state \<Rightarrow> u32 \<times> u32 \<Rightarrow> sha_state" where
  "sha_round (a, b, c, d, e, f, g, h) (k, w) =
     (let s1 = word_rotr 6 e XOR word_rotr 11 e XOR word_rotr 25 e;
          ch = (e AND f) XOR (NOT e AND g);
          t1 = h + s1 + ch + k + w;
          s0 = word_rotr 2 a XOR word_rotr 13 a XOR word_rotr 22 a;
          maj = (a AND b) XOR (a AND c) XOR (b AND c);
          t2 = s0 + maj
      in (t1 + t2, a, b, c, d + t1, e, f, g))"

fun sha_add :: "sha_state \<Rightarrow> sha_state \<Rightarrow> sha_state" where
  "sha_add (a, b, c, d, e, f, g, h) (a', b', c', d', e', f', g', h') =
     (a + a', b + b', c + c', d + d', e + e', f + f', g + g', h + h')"

definition sha_block :: "sha_state \<Rightarrow> bytes \<Rightarrow> sha_state" where
  "sha_block st block = sha_add st (foldl sha_round st (zip sha_k (sha_schedule block)))"

fun sha_digest :: "sha_state \<Rightarrow> bytes" where
  "sha_digest (a, b, c, d, e, f, g, h) =
     concat (map (\<lambda>w. be_bytes 4 (unat w)) [a, b, c, d, e, f, g, h])"

definition sha256 :: "bytes \<Rightarrow> bytes" where
  "sha256 m =
     (let p = sha_pad m in sha_digest (foldl sha_block sha_init (chunks (length p div 64) 64 p)))"

section \<open>HMAC\<close>

definition xor_byte :: "char \<Rightarrow> char \<Rightarrow> char" where
  "xor_byte a b = byte_of_word ((word_of_nat (of_char a) :: 8 word) XOR word_of_nat (of_char b))"

definition hmac_key :: "bytes \<Rightarrow> bytes" where
  "hmac_key key =
     (let k = (if length key > 64 then sha256 key else key)
      in k @ replicate (64 - length k) (CHR 0x00))"

definition hmac_sha256 :: "bytes \<Rightarrow> bytes \<Rightarrow> bytes" where
  "hmac_sha256 key m =
     sha256 (map (xor_byte (CHR 0x5c)) (hmac_key key)
             @ sha256 (map (xor_byte (CHR 0x36)) (hmac_key key) @ m))"

lemma length_be_bytes [simp]: "length (be_bytes n v) = n"
  by (simp add: be_bytes_def)

lemma length_sha_digest [simp]: "length (sha_digest st) = 32"
  by (cases st rule: sha_digest.cases) simp

lemma length_sha256 [simp]: "length (sha256 m) = 32"
  by (simp add: sha256_def Let_def)

lemma length_hmac_sha256 [simp]: "length (hmac_sha256 k m) = 32"
  by (simp add: hmac_sha256_def)

text \<open>The integer root is exact.\<close>

lemma root_bits_exact:
  assumes "r ^ k \<le> v" and "v < (r + 2 ^ n) ^ k"
  shows "root_bits n k v r ^ k \<le> v \<and> v < (root_bits n k v r + 1) ^ k"
  using assms
proof (induction n arbitrary: r)
  case (Suc n)
  have "v < (r + 2 ^ n + 2 ^ n) ^ k" using Suc.prems(2) by (simp add: mult_2 add.assoc)
  with Suc.IH [of "r + 2 ^ n"] Suc.IH [of r] Suc.prems(1) show ?case
    by (cases "(r + 2 ^ n) ^ k \<le> v") (simp_all add: not_le)
qed simp

text \<open>The padded message fills whole blocks.\<close>

lemma sha_pad_blocks: "length (sha_pad m) mod 64 = 0"
proof -
  let ?n = "length m" and ?r = "length m mod 64"
  have "(?n + (9 + (119 - ?r) mod 64)) mod 64 = (?r + (9 + (119 - ?r))) mod 64"
    by (metis mod_add_left_eq mod_add_right_eq)
  also have "?r + (9 + (119 - ?r)) = 128"
    using mod_less_divisor [of 64 ?n] by linarith
  finally show ?thesis by (simp add: sha_pad_def add.assoc)
qed

end
