(* ===== verification/Pairing.thy ===== *)
theory Pairing
  imports Keys Sha256 Go_Time Unmarshal
begin

text \<open>
  \<open>internal/secure/pairing.go\<close>: the one-time pairing window, the proofs of possession both sides
  exchange, and the out-of-band code. A nil \<open>*Window\<close> is \<open>None\<close>.
\<close>

record window =
  secret :: bytes
  expires :: gotime
  used :: bool

definition WindowTTL :: duration where
  "WindowTTL = 5 * minute"

text \<open>\<open>NewWindow\<close>: the 32 random bytes, or the error of the random source, are an argument.\<close>

definition NewWindow :: "gotime \<Rightarrow> bytes result \<Rightarrow> (window \<times> string) result" where
  "NewWindow now rnd =
     (case rnd of
        Inl err \<Rightarrow> Inl (''secure: pairing secret: '' @ err)
      | Inr sec \<Rightarrow>
          Inr (\<lparr>secret = sec, expires = time_add now WindowTTL, used = False\<rparr>, rawurl_encode sec))"

definition newline :: string where
  "newline = [CHR 0x0A]"

definition window_mac :: "window \<Rightarrow> string list \<Rightarrow> bytes" where
  "window_mac w parts = hmac_sha256 (secret w) (join newline parts)"

definition VerifyRequest :: "window option \<Rightarrow> gotime \<Rightarrow> string \<Rightarrow> string \<Rightarrow> string \<Rightarrow> bool" where
  "VerifyRequest wo now clientID clientPubB64 macB64 =
     (case wo of
        None \<Rightarrow> False
      | Some w \<Rightarrow>
          if used w \<or> time_after now (expires w) then False
          else let want = window_mac w [''pair_request'', clientID, clientPubB64]
               in case std_decode macB64 of
                    None \<Rightarrow> False
                  | Some got \<Rightarrow> want = got)"

definition AcceptMAC :: "window \<Rightarrow> string \<Rightarrow> string \<Rightarrow> string" where
  "AcceptMAC w agentID agentPubB64 =
     std_encode (window_mac w [''pair_accept'', agentID, agentPubB64])"

definition Consume :: "window \<Rightarrow> window" where
  "Consume w = w\<lparr>used := True\<rparr>"

definition windowFromSecret :: "string \<Rightarrow> window result" where
  "windowFromSecret secretB64 =
     (case rawurl_decode secretB64 of
        None \<Rightarrow> Inl ''secure: bad pairing secret encoding''
      | Some sec \<Rightarrow> Inr \<lparr>secret = sec, expires = zero_time, used = False\<rparr>)"

definition RequestMAC :: "string \<Rightarrow> string \<Rightarrow> string \<Rightarrow> string result" where
  "RequestMAC secretB64 clientID clientPubB64 =
     (case windowFromSecret secretB64 of
        Inl err \<Rightarrow> Inl err
      | Inr w \<Rightarrow> Inr (std_encode (window_mac w [''pair_request'', clientID, clientPubB64])))"

definition VerifyAcceptMAC :: "string \<Rightarrow> string \<Rightarrow> string \<Rightarrow> string \<Rightarrow> bool" where
  "VerifyAcceptMAC secretB64 agentID agentPubB64 macB64 =
     (case windowFromSecret secretB64 of
        Inl _ \<Rightarrow> False
      | Inr w \<Rightarrow>
          (case std_decode macB64 of
             None \<Rightarrow> False
           | Some got \<Rightarrow> window_mac w [''pair_accept'', agentID, agentPubB64] = got))"

text \<open>The pairing code: the struct \<open>pairCode\<close> as JSON, in base64, behind \<open>lockping:\<close>.\<close>

definition pairCode :: "string \<Rightarrow> string \<Rightarrow> string \<Rightarrow> json" where
  "pairCode relay agent secretB64 =
     JObj [(''v'', JNum (int_string 1)), (''relay'', JStr relay), (''agent'', JStr agent),
           (''secret'', JStr secretB64)]"

definition EncodePairCode :: "string \<Rightarrow> string \<Rightarrow> string \<Rightarrow> string" where
  "EncodePairCode relayURL agentID secretB64 =
     ''lockping:'' @ rawurl_encode (json_marshal (pairCode relayURL agentID secretB64))"

section \<open>A window admits at most one pairing\<close>

text \<open>
  What the gateway relies on: a window that was consumed or has expired verifies nothing, and
  consuming is final.
\<close>

locale one_time_window =
  fixes verify :: "'w \<Rightarrow> gotime \<Rightarrow> string \<Rightarrow> string \<Rightarrow> string \<Rightarrow> bool"
    and consume :: "'w \<Rightarrow> 'w"
    and open_at :: "'w \<Rightarrow> gotime \<Rightarrow> bool"
  assumes verify_open: "verify w now i p m \<Longrightarrow> open_at w now"
    and consumed_closed: "\<not> open_at (consume w) now"
begin

lemma consumed_refuses: "\<not> verify (consume w) now i p m"
  using verify_open consumed_closed by blast

text \<open>Serving a list of requests in order, consuming the window at the first that verifies.\<close>

lemma at_most_one:
  fixes reqs :: "(gotime \<times> string \<times> string \<times> string) list"
  defines "step \<equiv> \<lambda>(w, n) (now, i, p, m). if verify w now i p m then (consume w, Suc n) else (w, n)"
  shows "snd (foldl step (w, 0) reqs) \<le> (1 :: nat)"
proof -
  have stay: "foldl step (consume w, n) reqs = (consume w, n)" for w n and reqs
    by (induction reqs) (auto simp: step_def consumed_refuses)
  show ?thesis
  proof (induction reqs)
    case (Cons r reqs)
    obtain now i p m where r: "r = (now, i, p, m)" by (cases r) auto
    show ?case
    proof (cases "verify w now i p m")
      case True
      then show ?thesis using stay [of w 1 reqs] by (simp add: r step_def)
    next
      case False
      with Cons show ?thesis by (simp add: r step_def)
    qed
  qed simp
qed

end

definition window_open :: "window \<Rightarrow> gotime \<Rightarrow> bool" where
  "window_open w now = (\<not> used w \<and> \<not> time_after now (expires w))"

interpretation pairing_window: one_time_window "\<lambda>w. VerifyRequest (Some w)" Consume window_open
  by unfold_locales
     (auto simp: VerifyRequest_def Consume_def window_open_def Let_def split: if_splits)

lemma VerifyRequest_iff:
  "VerifyRequest (Some w) now i p m \<longleftrightarrow>
     window_open w now \<and> std_decode m = Some (window_mac w [''pair_request'', i, p])"
  by (auto simp: VerifyRequest_def window_open_def Let_def split: option.splits)

section \<open>The two sides agree\<close>

lemma windowFromSecret_encode [simp]:
  "windowFromSecret (rawurl_encode sec) = Inr \<lparr>secret = sec, expires = zero_time, used = False\<rparr>"
  by (simp add: windowFromSecret_def)

lemma window_mac_secret: "secret w = secret w' \<Longrightarrow> window_mac w = window_mac w'"
  by (simp add: window_mac_def fun_eq_iff)

lemma request_mac_verifies:
  assumes "NewWindow now0 rnd = Inr (w, secretB64)" and "RequestMAC secretB64 i p = Inr m"
  shows "VerifyRequest (Some w) now i p m \<longleftrightarrow> \<not> time_after now (expires w)"
  using assms
  by (auto simp: NewWindow_def RequestMAC_def VerifyRequest_iff window_open_def window_mac_def
      split: sum.splits)

lemma accept_mac_verifies:
  assumes "NewWindow now0 rnd = Inr (w, secretB64)"
  shows "VerifyAcceptMAC secretB64 agentID pub (AcceptMAC w agentID pub)"
  using assms
  by (auto simp: NewWindow_def VerifyAcceptMAC_def AcceptMAC_def window_mac_def split: sum.splits)

section \<open>What a MAC binds\<close>

definition mac_input :: "string \<Rightarrow> string \<Rightarrow> string \<Rightarrow> string" where
  "mac_input label i p = join newline [label, i, p]"

lemma mac_input_split: "mac_input label i p = label @ CHR 0x0A # i @ CHR 0x0A # p"
  by (simp add: mac_input_def newline_def)

text \<open>
  The label is bound for any identifier; identifier and key are bound for identifiers without a
  newline.
\<close>

lemma mac_input_label:
  assumes "mac_input l i p = mac_input l' i' p'" and "CHR 0x0A \<notin> set l" and "CHR 0x0A \<notin> set l'"
  shows "l = l'"
  using split_first_unique [OF _ assms(2,3)] assms(1) unfolding mac_input_split by blast

lemma mac_input_inj:
  assumes "mac_input l i p = mac_input l' i' p'" and "CHR 0x0A \<notin> set l" and "CHR 0x0A \<notin> set l'"
    and "CHR 0x0A \<notin> set i" and "CHR 0x0A \<notin> set i'"
  shows "l = l' \<and> i = i' \<and> p = p'"
proof -
  have "l = l' \<and> i @ CHR 0x0A # p = i' @ CHR 0x0A # p'"
    using split_first_unique [OF _ assms(2,3)] assms(1) unfolding mac_input_split by blast
  then show ?thesis using split_first_unique [OF _ assms(4,5), of p p'] by blast
qed

section \<open>The pairing code\<close>

lemma pairCode_wf:
  assumes "valid_utf8 relay" and "valid_utf8 agent"
  shows "wf_json (pairCode relay agent (rawurl_encode sec))"
    and "depth (pairCode relay agent (rawurl_encode sec)) \<le> max_nesting"
proof -
  let ?ms = "[(''v'', JNum (int_string 1)), (''relay'', JStr relay), (''agent'', JStr agent),
    (''secret'', JStr (rawurl_encode sec))]"
  have "wf_member (''v'', JNum (int_string (sint (1 :: i64))))"
    by (simp only: wf_member_simps) (simp add: valid_utf8_ascii_Cons)
  then have m: "list_all wf_member ?ms"
    using assms valid_utf8_ascii [of "rawurl_encode sec"] rawurl_encode_ascii [of _ sec]
    by (simp add: valid_utf8_ascii_Cons)
  from wf_JObj_members [OF m] show "wf_json (pairCode relay agent (rawurl_encode sec))"
    by (simp only: pairCode_def)
  from depth_JObj_members [OF m] show "depth (pairCode relay agent (rawurl_encode sec)) \<le> max_nesting"
    by (simp only: pairCode_def max_nesting_def)
qed

text \<open>
  How a client reads the code, after \<open>docs/protocol.md\<close>: the relay, the agent's identifier and the
  secret.
\<close>

definition scan_code :: "string \<Rightarrow> (string \<times> string \<times> string) option" where
  "scan_code code =
     (if \<not> has_prefix code ''lockping:'' then None
      else Option.bind (rawurl_decode (drop 9 code)) (\<lambda>text_bytes.
           case json_parse text_bytes of
             Some (JObj kvs) \<Rightarrow>
               (case (map_of kvs ''relay'', map_of kvs ''agent'', map_of kvs ''secret'') of
                  (Some (JStr relay), Some (JStr agent), Some (JStr sec)) \<Rightarrow> Some (relay, agent, sec)
                | _ \<Rightarrow> None)
           | _ \<Rightarrow> None))"

lemma scan_EncodePairCode:
  assumes "valid_utf8 relay" and "valid_utf8 agent"
  shows "scan_code (EncodePairCode relay agent (rawurl_encode sec)) = Some (relay, agent, rawurl_encode sec)"
proof -
  have "json_parse (json_marshal (pairCode relay agent (rawurl_encode sec))) = Some (pairCode relay agent (rawurl_encode sec))"
    by (rule json_parse_marshal [OF pairCode_wf [OF assms]])
  then show ?thesis by (simp add: scan_code_def EncodePairCode_def has_prefix_def) (simp add: pairCode_def)
qed

lemma EncodePairCode_ascii: "c \<in> set (EncodePairCode relay agent sec) \<Longrightarrow> (of_char c :: nat) < 128"
  using rawurl_encode_ascii [of c] by (auto simp: EncodePairCode_def)

section \<open>Properties\<close>

text \<open>
  C35. The pairing code reads back: from the code made for a new window a client recovers the relay,
  the agent and a secret with which it computes the MACs of that very window, so that its request
  verifies until the window expires, and the agent's answer verifies under the same secret.
\<close>

theorem pair_code_roundtrip:
  assumes "valid_utf8 relay" and "valid_utf8 agent" and "NewWindow now0 (Inr sec) = Inr (w, secretB64)"
  shows "\<exists>s m. scan_code (EncodePairCode relay agent secretB64) = Some (relay, agent, s)
    \<and> RequestMAC s clientID pub = Inr m
    \<and> (VerifyRequest (Some w) now clientID pub m \<longleftrightarrow> \<not> time_after now (expires w))
    \<and> VerifyAcceptMAC s agent agentPub (AcceptMAC w agent agentPub)"
proof -
  have sec: "secretB64 = rawurl_encode sec" using assms(3) by (simp add: NewWindow_def)
  obtain m where m: "RequestMAC secretB64 clientID pub = Inr m" by (simp add: sec RequestMAC_def)
  from scan_EncodePairCode [OF assms(1,2)] request_mac_verifies [OF assms(3) m] accept_mac_verifies [OF assms(3)] m
  show ?thesis by (simp add: sec)
qed

theorem pair_code_roundtrip_witness:
  "\<exists>w s m. NewWindow (time_unix 100) (Inr ''secret'') = Inr (w, rawurl_encode ''secret'')
     \<and> scan_code (EncodePairCode ''wss://relay/ws'' ''agent-1'' (rawurl_encode ''secret'')) = Some (''wss://relay/ws'', ''agent-1'', s)
     \<and> RequestMAC s ''tablet'' ''key'' = Inr m \<and> VerifyRequest (Some w) (time_unix 100) ''tablet'' ''key'' m"
proof -
  obtain w where w: "NewWindow (time_unix 100) (Inr ''secret'') = Inr (w, rawurl_encode ''secret'')"
      "expires w = time_add (time_unix 100) WindowTTL"
    by (simp add: NewWindow_def)
  have v: "valid_utf8 ''wss://relay/ws''" "valid_utf8 ''agent-1''" by (simp_all add: valid_utf8_ascii_Cons)
  have t: "\<not> time_after (time_unix 100) (expires w)"
    by (simp add: w(2) time_after_def time_add_def WindowTTL_def duration_defs)
  from pair_code_roundtrip [OF v w(1), of "''tablet''" "''key''" "time_unix 100" "''apub''"] w(1) t
  show ?thesis by blast
qed

end
