(* ===== verification/Json_Valid.thy ===== *)
theory Json_Valid
  imports Unmarshal
begin

text \<open>
  Every string of a parsed document is valid UTF-8, whatever bytes the document was read from:
  the string reader writes nothing but encoded runes. What the agent decodes from a relay frame
  or from one of its files can therefore be written to a file and read back unchanged.
\<close>

section \<open>Strings\<close>

definition rune_text :: "string \<Rightarrow> bool" where
  "rune_text s = (\<exists>rs. s = string_of_runes rs \<and> (\<forall>r\<in>set rs. valid_rune r))"

lemma rune_text_valid: "rune_text s \<Longrightarrow> valid_utf8 s"
  by (auto simp: rune_text_def intro: valid_utf8_string_of_runes)

lemma rune_text_Nil: "rune_text []"
  unfolding rune_text_def by (rule exI [of _ "[]"]) (simp add: string_of_runes_def)

lemma rune_text_encode: "valid_rune r \<Longrightarrow> rune_text (encode_rune r)"
  unfolding rune_text_def by (rule exI [of _ "[r]"]) (simp add: string_of_runes_def)

lemma rune_text_append: "rune_text a \<Longrightarrow> rune_text b \<Longrightarrow> rune_text (a @ b)"
  unfolding rune_text_def string_of_runes_def
  by (metis (no_types, lifting) UnE concat_append map_append set_append)

lemma rune_text_ascii: "of_char c < (128 :: nat) \<Longrightarrow> rune_text [c]"
  using rune_text_encode [of "of_char c"] by (simp add: encode_rune_def valid_rune_def surrogate_def)

lemma hex_val_bound: "hex_val c = Some n \<Longrightarrow> n < 16"
  by (auto simp: hex_val_def byte_in_def split: if_splits)

lemma hex4_bound: "hex4 s = Some r \<Longrightarrow> r < 65536"
  by (induction s rule: hex4.induct) (fastforce dest!: hex_val_bound split: option.splits)+

lemma valid_rune_error: "valid_rune rune_error"
  by (simp add: valid_rune_def rune_error_def surrogate_def)

lemma utf16_pair_valid: "utf16_pair r lo = Some q \<Longrightarrow> valid_rune q"
  by (auto simp: utf16_pair_def valid_rune_def surrogate_def split: option.splits if_splits)

lemma simple_escape_ascii: "simple_escape e = Some d \<Longrightarrow> of_char d < (128 :: nat)"
  by (auto simp: simple_escape_def split: if_splits)

lemma unquote_escape_text: "unquote_escape s = Some (out, n) \<Longrightarrow> rune_text out"
proof -
  assume u: "unquote_escape s = Some (out, n)"
  then obtain e rest where s: "s = e # rest" by (cases s) (auto simp: unquote_escape_def)
  show ?thesis
  proof (cases "e = CHR ''u''")
    case False
    with u s show ?thesis by (auto simp: unquote_escape_def intro: rune_text_ascii simple_escape_ascii)
  next
    case True
    with u s obtain r where r: "hex4 rest = Some r" by (auto simp: unquote_escape_def split: option.splits)
    have "valid_rune r" if "\<not> surrogate r" using that hex4_bound [OF r] by (simp add: valid_rune_def)
    with u s True r show ?thesis
      by (auto simp: unquote_escape_def valid_rune_error utf16_pair_valid intro!: rune_text_encode
          split: if_splits option.splits)
  qed
qed

lemma unquote1_text:
  assumes "unquote1 c cs = Some (out, n)" shows "rune_text out"
proof -
  obtain r k where d: "decode_rune (c # cs) = (r, k)" by fastforce
  have "valid_rune r" using decode_rune_sound [OF d] by simp
  with assms d show ?thesis
    by (auto simp: unquote1_def intro: rune_text_encode unquote_escape_text split: if_splits)
qed

lemma unquote_text: "unquote s = Some t \<Longrightarrow> rune_text t"
proof (induction s arbitrary: t rule: unquote.induct)
  case (2 c cs)
  from "2.prems" obtain out n t' where u: "unquote1 c cs = Some (out, n)"
      "unquote (drop n (c # cs)) = Some t'" "t = out @ t'"
    by (auto simp: unquote.simps split: option.splits)
  from "2.IH" [OF u(1) _ u(2)] unquote1_text [OF u(1)] u(3) show ?case
    by (simp add: rune_text_append)
qed (simp add: rune_text_Nil)

section \<open>Documents\<close>

primrec utf8_json :: "json \<Rightarrow> bool" where
  "utf8_json JNull = True"
| "utf8_json (JBool b) = True"
| "utf8_json (JNum l) = True"
| "utf8_json (JStr s) = valid_utf8 s"
| "utf8_json (JArr vs) = list_all id (map utf8_json vs)"
| "utf8_json (JObj kvs) = list_all (\<lambda>(k, w). valid_utf8 k \<and> w) (map (map_prod id utf8_json) kvs)"

definition utf8_tok :: "tok \<Rightarrow> bool" where
  "utf8_tok t = (case t of TStr s \<Rightarrow> valid_utf8 s | _ \<Rightarrow> True)"

definition utf8_member :: "string \<times> json \<Rightarrow> bool" where
  "utf8_member m = (valid_utf8 (fst m) \<and> utf8_json (snd m))"

lemma utf8_member_pair: "utf8_member (k, v) = (valid_utf8 k \<and> utf8_json v)"
  by (simp add: utf8_member_def)

primrec utf8_frame :: "frame \<Rightarrow> bool" where
  "utf8_frame (FArr vs) = list_all utf8_json vs"
| "utf8_frame (FObj kvs k) = (list_all utf8_member kvs \<and> valid_utf8 k)"

primrec utf8_state :: "pstate \<Rightarrow> bool" where
  "utf8_state PValue = True"
| "utf8_state PFirstElem = True"
| "utf8_state PFirstKey = True"
| "utf8_state (PKey kvs) = list_all utf8_member kvs"
| "utf8_state (PColon kvs k) = (list_all utf8_member kvs \<and> valid_utf8 k)"
| "utf8_state (PEnd v) = utf8_json v"

lemma utf8_arr [simp]: "utf8_json (JArr vs) = list_all utf8_json vs"
  by (simp add: list_all_iff)

lemma utf8_obj [simp]: "utf8_json (JObj kvs) = list_all utf8_member kvs"
  by (auto simp: list_all_iff utf8_member_def)

declare utf8_json.simps(5,6) [simp del]

lemma utf8_begin_value:
  "begin_value st t = Some (p', st') \<Longrightarrow> list_all utf8_frame st \<Longrightarrow> utf8_tok t \<Longrightarrow>
     utf8_state p' \<and> list_all utf8_frame st'"
  by (induction st t rule: begin_value.induct) (auto simp: utf8_tok_def split: if_splits)

lemma utf8_end_value:
  "end_value v st t = Some (p', st') \<Longrightarrow> utf8_json v \<Longrightarrow> list_all utf8_frame st \<Longrightarrow>
     utf8_state p' \<and> list_all utf8_frame st'"
  by (induction v st t rule: end_value.induct) (auto simp: utf8_member_def list_all_iff)

lemma utf8_pstep:
  "pstep p st t = Some (p', st') \<Longrightarrow> utf8_state p \<Longrightarrow> list_all utf8_frame st \<Longrightarrow> utf8_tok t \<Longrightarrow>
     utf8_state p' \<and> list_all utf8_frame st'"
proof (cases p)
  case PValue
  then show "pstep p st t = Some (p', st') \<Longrightarrow> list_all utf8_frame st \<Longrightarrow> utf8_tok t \<Longrightarrow> ?thesis"
    using utf8_begin_value [of st t] by simp
next
  case (PEnd v)
  then show "pstep p st t = Some (p', st') \<Longrightarrow> utf8_state p \<Longrightarrow> list_all utf8_frame st \<Longrightarrow> ?thesis"
    using utf8_end_value [of v st t] by simp
qed (cases t; auto simp: utf8_tok_def split: if_splits)+

lemma utf8_prun:
  "prun first p st ts = Some v \<Longrightarrow> utf8_state p \<Longrightarrow> list_all utf8_frame st \<Longrightarrow> list_all utf8_tok ts \<Longrightarrow>
     utf8_json v"
proof (induction first p st ts rule: prun.induct)
  case (1 first p st)
  then show ?case by (auto split: pstate.splits if_splits)
next
  case (2 first p st t ts)
  show ?case
  proof (cases "\<exists>w. p = PEnd w \<and> st = []")
    case True
    with "2.prems" show ?thesis by (auto split: if_splits)
  next
    case False
    then have step: "prun first p st (t # ts) =
        (case pstep p st t of None \<Rightarrow> None | Some (p', st') \<Rightarrow> prun first p' st' ts)"
      by (cases p; cases st) auto
    with "2.prems"(1) obtain p' st' where s: "pstep p st t = Some (p', st')" "prun first p' st' ts = Some v"
      by (auto split: option.splits)
    with utf8_pstep [OF s(1)] "2.prems" have "utf8_state p' \<and> list_all utf8_frame st'" by simp
    with "2.IH" s "2.prems" False show ?thesis by (cases p; cases st) auto
  qed
qed

lemma utf8_lex: "list_all utf8_tok (Json.lex s)"
proof (induction s rule: Json.lex.induct)
  case (2 c cs)
  have "utf8_tok t" if "lex_word c cs = Some (t, rest)" for t rest
    using that by (auto simp: lex_word_def utf8_tok_def intro: rune_text_valid [OF unquote_text]
        split: if_splits option.splits)
  moreover have "utf8_tok t" if "punct c = Some t" for t
    using that by (auto simp: punct_def utf8_tok_def split: if_splits)
  moreover have "utf8_tok TErr" by (simp add: utf8_tok_def)
  ultimately show ?case using 2 by (auto simp: Json.lex.simps(2) [of c cs] split: option.splits)
qed simp

lemma json_parse_utf8: "json_parse s = Some v \<Longrightarrow> utf8_json v"
  using utf8_prun [of False PValue "[]" "Json.lex s" v] by (simp add: json_parse_def utf8_lex)

lemma json_first_utf8: "json_first s = Some v \<Longrightarrow> utf8_json v"
  using utf8_prun [of True PValue "[]" "Json.lex s" v] by (simp add: json_first_def utf8_lex)

text \<open>Decoding a document into a struct: what holds of the setters holds of the result.\<close>

lemma decode_members_invariant:
  assumes "decode_members fs kvs r = Some r'" and "P r"
    and "list_all utf8_member kvs"
    and "\<And>k f v x x'. (k, f) \<in> set fs \<Longrightarrow> utf8_json v \<Longrightarrow> P x \<Longrightarrow> f v x = Some x' \<Longrightarrow> P x'"
  shows "P r'"
  using assms
proof (induction fs kvs r rule: decode_members.induct)
  case (2 fs k v kvs r)
  show ?case
  proof (cases "find_field fs k")
    case None
    with 2 show ?thesis by simp
  next
    case (Some f)
    then obtain kf where "find (\<lambda>f. fold_name (fst f) = fold_name k) fs = Some kf" "f = snd kf"
      by (auto simp: find_field_def split: option.splits)
    then have "(fst kf, f) \<in> set fs" by (auto simp: find_Some_iff)
    moreover obtain x where x: "f v r = Some x" "decode_members fs kvs x = Some r'"
      using 2(3) Some by (auto split: option.splits)
    ultimately have "P x" using 2(6) [of "fst kf" f v r x] 2(4,5) by (simp add: utf8_member_def)
    with 2(2) [OF Some x(1) x(2) _ _ 2(6)] 2(5) show ?thesis by simp
  qed
qed simp

lemma unmarshal_invariant:
  assumes "unmarshal_into fs s r = Some r'" and "P r"
    and "\<And>k f v x x'. (k, f) \<in> set fs \<Longrightarrow> utf8_json v \<Longrightarrow> P x \<Longrightarrow> f v x = Some x' \<Longrightarrow> P x'"
  shows "P r'"
proof -
  obtain v where v: "json_parse s = Some v" "decode_struct fs v r = Some r'"
    using assms(1) by (auto simp: unmarshal_into_def split: bind_splits)
  from v(2) assms(2) show ?thesis
    using decode_members_invariant [of fs _ r r' P, OF _ assms(2) _ assms(3)] json_parse_utf8 [OF v(1)]
    by (auto simp: decode_struct_def split: json.splits)
qed

lemma into_string_utf8: "into_string v old = Some s \<Longrightarrow> utf8_json v \<Longrightarrow> valid_utf8 old \<Longrightarrow> valid_utf8 s"
  by (auto simp: into_string_def split: json.splits)

section \<open>Written documents\<close>

text \<open>What is written is valid UTF-8 as well, even if a string of the document was not.\<close>

lemma rune_text_ascii_list: "\<forall>c\<in>set s. of_char c < (128 :: nat) \<Longrightarrow> rune_text s"
proof (induction s)
  case (Cons c s)
  with rune_text_append [OF rune_text_ascii [of c], of s] show ?case by simp
qed (simp add: rune_text_Nil)

lemma rune_text_Cons: "of_char c < (128 :: nat) \<Longrightarrow> rune_text s \<Longrightarrow> rune_text (c # s)"
  using rune_text_append [OF rune_text_ascii, of c s] by simp

lemma rune_text_u_escape: "rune_text (u_escape r)"
  unfolding u_escape_def
  by (intro rune_text_Cons rune_text_append rune_text_ascii_list) (simp_all add: hex_digit_ascii)

lemma rune_text_piece:
  assumes "(r, bs) \<in> set (pieces s)" shows "rune_text (esc_piece (r, bs))"
proof -
  have bs: "rune_text bs" if "\<not> bad_piece (r, bs)"
    using pieces_sound [OF assms] that rune_text_encode by auto
  have plain: "rune_text bs" if "r < 128"
    using bs piece_bytes [OF assms] that by (auto simp: bad_piece_def rune_error_def)
  have one: "rune_text [backslash, c]" if "of_char c < (128 :: nat)" for c
    using that by (intro rune_text_Cons rune_text_Nil) simp_all
  have "of_char (char_of r) < (128 :: nat)" if "r = 34 \<or> r = 92" using that by auto
  with bs plain one rune_text_u_escape [of r] rune_text_u_escape [of rune_error] show ?thesis
    by (simp only: esc_piece.simps split: if_split) simp
qed

lemma rune_text_concat: "\<forall>x\<in>set xs. rune_text x \<Longrightarrow> rune_text (concat xs)"
  by (induction xs) (simp_all add: rune_text_Nil rune_text_append)

lemma rune_text_quote: "rune_text (json_quote s)"
proof -
  have "rune_text (escape s)"
    unfolding escape_def by (rule rune_text_concat) (auto simp del: esc_piece.simps intro: rune_text_piece)
  then show ?thesis
    unfolding json_quote_def by (intro rune_text_Cons rune_text_append rune_text_Nil) simp_all
qed

lemma rune_text_join: "rune_text sep \<Longrightarrow> \<forall>x\<in>set xs. rune_text x \<Longrightarrow> rune_text (join sep xs)"
  by (induction sep xs rule: join.induct) (simp_all add: rune_text_Nil rune_text_append)

lemma rune_text_marshal: "wf_json v \<Longrightarrow> rune_text (render None v d)"
proof (induction v arbitrary: d)
  case (JBool b)
  show ?case by (cases b) (simp_all add: rune_text_ascii_list)
next
  case (JNum l)
  then obtain w where "l = int_string (sint (w :: i64))" by (auto split: option.splits)
  moreover have "rune_text (nat_string n)" for n
    using nat_string_digits [of n] by (fastforce simp: is_digit_def byte_in_def intro: rune_text_ascii_list)
  ultimately show ?case
    by (auto simp: int_string_def intro!: rune_text_Cons)
next
  case (JStr s)
  show ?case by (simp add: rune_text_quote)
next
  case (JArr vs)
  then have "\<forall>v\<in>set vs. rune_text (render None v (Suc d))" by (simp add: list_all_iff)
  then show ?case
    by (auto simp: bracketed_def new_line_def intro!: rune_text_Cons rune_text_append rune_text_join rune_text_Nil)
next
  case (JObj kvs)
  then have "rune_text (render None v (Suc d))" if "(k, v) \<in> set kvs" for k v
    using that by (fastforce simp: list_all_iff snds.simps)
  then show ?case
    by (auto simp: bracketed_def new_line_def colon_def rune_text_quote
        intro!: rune_text_Cons rune_text_append rune_text_join rune_text_Nil)
qed (simp_all add: rune_text_ascii_list)

lemma json_marshal_valid: "wf_json v \<Longrightarrow> valid_utf8 (json_marshal v)"
  by (simp add: json_marshal_def rune_text_marshal rune_text_valid)

end
