(* ===== verification/Json_Torn.thy ===== *)
theory Json_Torn
  imports Json
begin

text \<open>
  A document that was cut off. \<open>os.WriteFile\<close> truncates the file and may write a part of the bytes
  only, so what matters of a JSON file is that no proper prefix of an object is a document: a torn
  file is refused, it is never read as another value.
\<close>

section \<open>The lexer on a longer text\<close>

text \<open>A token that was recognised before the end of the text is not changed by more text.\<close>

lemma span_append:
  "dropWhile P s \<noteq> [] \<Longrightarrow> takeWhile P (s @ x) = takeWhile P s \<and> dropWhile P (s @ x) = dropWhile P s @ x"
  by (induction s) auto

lemma split_string_append: "split_string s = Some (b, r) \<Longrightarrow> split_string (s @ x) = Some (b, r @ x)"
proof (induction s arbitrary: b r rule: split_string.induct)
  case (2 c cs)
  then show ?case by (cases cs) (auto simp: push_body_def split: if_splits)
qed simp

lemma lex_int_append:
  "lex_int s = Some (l, r) \<Longrightarrow> r \<noteq> [] \<Longrightarrow> lex_int (s @ x) = Some (l, r @ x)"
  using span_append [of is_digit s x] by (auto simp: lex_int_def split: list.splits if_splits)

lemma lex_frac_append:
  "lex_frac s = Some (l, r) \<Longrightarrow> r \<noteq> [] \<Longrightarrow> lex_frac (s @ x) = Some (l, r @ x)"
  using span_append [of is_digit "tl s" x] by (auto simp: lex_frac_def split: list.splits if_splits)

lemma lex_exp_append:
  "lex_exp s = Some (l, r) \<Longrightarrow> r \<noteq> [] \<Longrightarrow> lex_exp (s @ x) = Some (l, r @ x)"
  using span_append [of is_digit "tl s" x] span_append [of is_digit "tl (tl s)" x]
  by (auto simp: lex_exp_def Let_def split: list.splits if_splits prod.splits)

lemma lex_frac_rest: "lex_frac s = Some (l, r) \<Longrightarrow> r \<noteq> [] \<Longrightarrow> s \<noteq> []"
  by (auto simp: lex_frac_def)

lemma lex_exp_rest: "lex_exp s = Some (l, r) \<Longrightarrow> r \<noteq> [] \<Longrightarrow> s \<noteq> []"
  by (auto simp: lex_exp_def)

lemma lex_number_append:
  assumes "lex_number s = Some (l, r)" and "r \<noteq> []"
  shows "lex_number (s @ x) = Some (l, r @ x)"
proof -
  obtain m s0 where s0: "(case s of c # cs \<Rightarrow> if c = CHR ''-'' then ([c], cs) else ([], s) | [] \<Rightarrow> ([], s)) = (m, s0)"
    by fastforce
  with assms obtain i s1 f s2 e where p: "lex_int s0 = Some (i, s1)" "lex_frac s1 = Some (f, s2)"
      "lex_exp s2 = Some (e, r)" "l = m @ i @ f @ e"
    by (auto simp: lex_number_def split: option.splits)
  note n2 = lex_exp_rest [OF p(3) assms(2)]
  note n1 = lex_frac_rest [OF p(2) n2]
  have "s \<noteq> []" using s0 p(1) by (auto simp: lex_int_def)
  with s0 have "(case s @ x of c # cs \<Rightarrow> if c = CHR ''-'' then ([c], cs) else ([], s @ x) | [] \<Rightarrow> ([], s @ x)) = (m, s0 @ x)"
    by (cases s) (auto split: if_splits)
  with lex_int_append [OF p(1) n1, of x] lex_frac_append [OF p(2) n2, of x] lex_exp_append [OF p(3) assms(2), of x] p(4)
  show ?thesis by (simp add: lex_number_def)
qed

lemma has_prefix_split: "has_prefix s p \<Longrightarrow> s = p @ drop (length p) s"
  by (metis append_take_drop_id has_prefix_def)

lemma lex_word_append:
  assumes "lex_word c cs = Some (t, r)" and "r \<noteq> []"
  shows "lex_word c (cs @ x) = Some (t, r @ x)"
proof -
  consider (quote) "c = dquote" | (num) "c \<noteq> dquote" "c = CHR ''-'' \<or> is_digit c"
    | (keyword) "c \<noteq> dquote" "\<not> (c = CHR ''-'' \<or> is_digit c)" by blast
  then show ?thesis
  proof cases
    case quote
    with assms show ?thesis by (auto simp: lex_word_def split_string_append split: option.splits)
  next
    case num
    with assms obtain l where l: "lex_number (c # cs) = Some (l, r)" "t = TNum l" by (auto simp: lex_word_def)
    with lex_number_append [OF l(1) assms(2), of x] num show ?thesis by (simp add: lex_word_def)
  next
    case keyword
    have "c # cs = ''true'' @ r \<and> t = TTrue \<or> c # cs = ''false'' @ r \<and> t = TFalse \<or> c # cs = ''null'' @ r \<and> t = TNull"
      using keyword assms(1) by (auto simp: lex_word_def numeral_eq_Suc dest!: has_prefix_split split: if_splits)
    then show ?thesis
      by (elim disjE conjE) (simp_all add: lex_word_def has_prefix_def is_digit_def byte_in_def)
  qed
qed

text \<open>The tokens of a text whose last token is closed, that is, neither a number nor an error.\<close>

definition closed_tok :: "tok \<Rightarrow> bool" where
  "closed_tok t = (t = TRBrace \<or> t = TRBrack)"

lemma lex_Nil_space: "lex s = [] \<Longrightarrow> list_all is_space s"
proof (induction s)
  case (Cons c cs)
  then show ?case
    by (cases "is_space c") (auto simp: lex_space lex.simps(2) split: option.splits)
qed simp

lemma lex_append:
  "lex s \<noteq> [] \<Longrightarrow> closed_tok (last (lex s)) \<Longrightarrow> lex (s @ x) = lex s @ lex x"
proof (induction s rule: lex.induct)
  case (2 c cs)
  show ?case
  proof (cases "is_space c")
    case True
    with 2 show ?thesis by (simp add: lex_space)
  next
    case False
    show ?thesis
    proof (cases "punct c")
      case (Some t)
      show ?thesis
      proof (cases "lex cs = []")
        case True
        then have "lex (cs @ x) = lex x" by (simp add: lex_blank lex_Nil_space)
        with Some False True show ?thesis by (simp add: lex_punct)
      next
        case nil: False
        with 2 Some False show ?thesis by (simp add: lex_punct)
      qed
    next
      case None
      show ?thesis
      proof (cases "lex_word c cs")
        case none: None
        with "2.prems" None False show ?thesis by (simp add: lex.simps closed_tok_def)
      next
        case (Some tr)
        obtain t r where tr: "tr = (t, r)" by fastforce
        have l: "lex (c # cs) = t # lex r" using Some None False tr by (simp add: lex_lex_word)
        have "\<not> closed_tok t"
          using Some tr by (auto simp: lex_word_def closed_tok_def split: if_splits option.splits)
        with l "2.prems"(2) have n: "lex r \<noteq> []" by auto
        then have "r \<noteq> []" by auto
        from lex_word_append [OF Some [unfolded tr] this, of x] None False
        have "lex (c # cs @ x) = t # lex (r @ x)" by (simp add: lex_lex_word)
        moreover have "lex (r @ x) = lex r @ lex x"
          using "2.IH"(2) [OF False None Some tr [symmetric]] n "2.prems"(2) l by simp
        ultimately show ?thesis using l by simp
      qed
    qed
  qed
qed simp

section \<open>The parser\<close>

text \<open>Inside a bracket the machine can only end with a closing one.\<close>

fun inside :: "pstate \<Rightarrow> frame list \<Rightarrow> bool" where
  "inside PValue st = (st \<noteq> [])"
| "inside (PEnd v) st = (st \<noteq> [])"
| "inside _ st = True"

lemma begin_value_inside: "begin_value st t = Some (p', st') \<Longrightarrow> st \<noteq> [] \<Longrightarrow> inside p' st'"
  by (cases t) (auto split: if_splits)

lemma end_value_inside:
  "end_value v st t = Some (p', st') \<Longrightarrow> inside p' st' \<or> closed_tok t \<and> st' = [] \<and> (\<exists>u. p' = PEnd u)"
  by (cases "(v, st, t)" rule: end_value.cases) (auto simp: closed_tok_def)

lemma pstep_inside:
  "pstep p st t = Some (p', st') \<Longrightarrow> inside p st \<Longrightarrow>
     inside p' st' \<or> closed_tok t \<and> st' = [] \<and> (\<exists>u. p' = PEnd u)"
  by (cases "(p, st, t)" rule: pstep.cases)
     (auto simp: closed_tok_def split: if_splits dest: begin_value_inside end_value_inside)

lemma prun_last:
  "prun False p st ts = Some v \<Longrightarrow> inside p st \<Longrightarrow> ts \<noteq> [] \<and> closed_tok (last ts)"
proof (induction ts arbitrary: p st)
  case Nil
  then show ?case by (auto split: pstate.splits if_splits)
next
  case (Cons t ts)
  then obtain p' st' where s: "pstep p st t = Some (p', st')" "prun False p' st' ts = Some v"
    by (auto split: pstate.splits list.splits option.splits prod.splits)
  from pstep_inside [OF s(1) Cons.prems(2)] show ?case
  proof
    assume "inside p' st'"
    with Cons.IH [OF s(2)] show ?thesis by simp
  next
    assume "closed_tok t \<and> st' = [] \<and> (\<exists>u. p' = PEnd u)"
    with s(2) show ?thesis by (cases ts) auto
  qed
qed

lemma prun_append:
  "prun False p st ts = Some v \<Longrightarrow> prun False p st (ts @ us) = prun False (PEnd v) [] us"
proof (induction ts arbitrary: p st)
  case Nil
  then show ?case by (auto split: pstate.splits if_splits)
next
  case (Cons t ts)
  then show ?case by (auto split: pstate.splits list.splits option.splits prod.splits)
qed

text \<open>What follows a complete object in a document is white space.\<close>

lemma json_parse_append:
  assumes "json_parse (p @ q) = Some v" and "json_parse p = Some w" and "p = CHR ''{'' # s"
  shows "list_all is_space q"
proof -
  have "prun False PFirstKey [] (lex s) = Some w"
    using assms(2,3) by (simp add: json_parse_def max_nesting_def)
  from prun_last [OF this] have "lex p \<noteq> []" "closed_tok (last (lex p))" by (simp_all add: assms(3))
  from lex_append [OF this] have "lex (p @ q) = lex p @ lex q" .
  with assms(1,2) have "prun False (PEnd w) [] (lex q) = Some v"
    by (simp add: json_parse_def prun_append)
  then have "lex q = []" by (cases "lex q") simp_all
  then show ?thesis by (rule lex_Nil_space)
qed

theorem json_torn:
  assumes "wf_json (JObj kvs)" and "blank_indent ind" and "depth (JObj kvs) \<le> max_nesting"
    and "n < length (render ind (JObj kvs) 0)"
  shows "json_parse (take n (render ind (JObj kvs) 0)) = None"
proof (rule ccontr)
  let ?t = "render ind (JObj kvs) 0"
  assume "json_parse (take n ?t) \<noteq> None"
  then obtain w where w: "json_parse (take n ?t) = Some w" by blast
  have whole: "json_parse (take n ?t @ drop n ?t) = Some (JObj kvs)"
    using parse_render [OF assms(1-3)] by simp
  have "\<exists>s. bracketed ind 0 CHR ''{'' CHR ''}'' xs = CHR ''{'' # s" "\<exists>l. bracketed ind 0 CHR ''{'' CHR ''}'' xs = l @ ''}''" for xs
    by (cases "xs = []"; simp add: bracketed_def)+
  then obtain s l where t: "?t = CHR ''{'' # s" "?t = l @ ''}''" by (metis render.simps(6))
  have "n \<noteq> 0"
  proof
    assume "n = 0"
    with w show False by (simp add: json_parse_def)
  qed
  then obtain m where "n = Suc m" by (cases n) auto
  then have "take n ?t = CHR ''{'' # take m s" by (simp only: t(1) take_Suc_Cons)
  from json_parse_append [OF whole w this] have "list_all is_space (drop n ?t)" .
  moreover have "n \<le> length l" using assms(4) unfolding t(2) by simp
  then have "CHR ''}'' \<in> set (drop n (l @ ''}''))" by simp
  then have "CHR ''}'' \<in> set (drop n ?t)" unfolding t(2) .
  ultimately have "is_space CHR ''}''" unfolding list_all_iff by blast
  then show False by (simp add: is_space_def)
qed

end
