(* ===== verification/Rfc3339.thy ===== *)
theory Rfc3339
  imports Go_Time
begin

text \<open>
  The text form of a \<open>time.Time\<close>, as \<open>time.Time.MarshalJSON\<close> and \<open>UnmarshalJSON\<close> write and read
  it: RFC 3339 with up to nine digits of fraction and a zone offset. A time is printed in its own
  zone, so the offset, in seconds, is an argument of the printer and a result of the parser.

  The calendar is the proleptic Gregorian one, with days counted from 1 January of year 0.
\<close>

section \<open>The calendar\<close>

definition leap :: "int \<Rightarrow> bool" where
  "leap y = (y mod 4 = 0 \<and> (y mod 100 \<noteq> 0 \<or> y mod 400 = 0))"

definition days_before_year :: "int \<Rightarrow> int" where
  "days_before_year y = 365 * y + (y + 3) div 4 - (y + 99) div 100 + (y + 399) div 400"

definition month_lengths :: "bool \<Rightarrow> int list" where
  "month_lengths l = [31, if l then 29 else 28, 31, 30, 31, 30, 31, 31, 30, 31, 30, 31]"

lemma div_carry:
  assumes "0 < m" and "k = m - 1"
  shows "(y + 1 + k) div m = (y + k) div m + (if y mod m = 0 then 1 else (0 :: int))"
proof -
  have r: "m * (y div m) + y mod m = y" "0 \<le> y mod m" "y mod m < m"
    using assms(1) by simp_all
  have up: "(y + 1 + k) div m = y div m + 1"
    by (rule int_div_pos_eq [of _ _ _ "y mod m"])
      (use assms r in \<open>simp_all add: algebra_simps\<close>)
  show ?thesis
  proof (cases "y mod m = 0")
    case True
    have "(y + k) div m = y div m"
      by (rule int_div_pos_eq [of _ _ _ k]) (use assms r True in auto)
    with True up show ?thesis by simp
  next
    case False
    with r(2) have "1 \<le> y mod m" by linarith
    have "(y + k) div m = y div m + 1"
      by (rule int_div_pos_eq [of _ _ _ "y mod m - 1"])
        (use assms r \<open>1 \<le> y mod m\<close> in \<open>simp_all add: algebra_simps\<close>)
    with False up show ?thesis by simp
  qed
qed

lemma leap_sum:
  fixes a b c y :: int
  assumes "p400 \<Longrightarrow> p100" and "p100 \<Longrightarrow> p4"
    and "a' = a + (if p4 then 1 else 0)" and "b' = b + (if p100 then 1 else 0)"
    and "c' = c + (if p400 then 1 else 0)"
  shows "365 * (y + 1) + a' - b' + c'
    = 365 * y + a - b + c + (if p4 \<and> (\<not> p100 \<or> p400) then 366 else 365)"
  using assms(1,2) unfolding assms(3-5) by (cases p4; cases p100; cases p400) simp_all

lemma days_before_year_Suc: "days_before_year (y + 1) = days_before_year y + (if leap y then 366 else 365)"
proof -
  have "(y + 1 + 3) div 4 = (y + 3) div 4 + (if y mod 4 = 0 then 1 else 0)"
    by (rule div_carry) simp_all
  moreover have "(y + 1 + 99) div 100 = (y + 99) div 100 + (if y mod 100 = 0 then 1 else 0)"
    by (rule div_carry) simp_all
  moreover have "(y + 1 + 399) div 400 = (y + 399) div 400 + (if y mod 400 = 0 then 1 else 0)"
    by (rule div_carry) simp_all
  moreover have "(100 :: int) dvd 400" and "(4 :: int) dvd 100" by simp_all
  then have "y mod 400 = 0 \<Longrightarrow> y mod 100 = 0" and "y mod 100 = 0 \<Longrightarrow> y mod 4 = 0"
    unfolding mod_eq_0_iff_dvd by (blast intro: dvd_trans)+
  ultimately show ?thesis
    unfolding days_before_year_def leap_def by (intro leap_sum)
qed

lemma sum_month_lengths: "sum_list (month_lengths l) = (if l then 366 else 365)"
  by (simp add: month_lengths_def)

function find_year :: "int \<Rightarrow> int \<Rightarrow> int" where
  "find_year y d = (if d < days_before_year (y + 1) then y else find_year (y + 1) d)"
  by pat_completeness auto
termination
  by (relation "measure (\<lambda>(y, d). nat (d - days_before_year y))")
     (auto simp: days_before_year_Suc not_less split: if_splits)

declare find_year.simps [simp del]

lemma find_year_bounds:
  "days_before_year y \<le> d \<Longrightarrow>
     days_before_year (find_year y d) \<le> d \<and> d < days_before_year (find_year y d + 1) \<and> y \<le> find_year y d"
proof (induction y d rule: find_year.induct)
  case (1 y d)
  then show ?case by (subst (1 2 3) find_year.simps) (auto simp: not_less)
qed

fun find_month :: "int list \<Rightarrow> int \<Rightarrow> nat \<times> int" where
  "find_month [] r = (0, r)"
| "find_month (l # ls) r = (if r < l then (0, r) else map_prod Suc id (find_month ls (r - l)))"

lemma find_month_bounds:
  "0 \<le> r \<Longrightarrow> r < sum_list ls \<Longrightarrow> find_month ls r = (m, r') \<Longrightarrow>
     m < length ls \<and> 0 \<le> r' \<and> r' < ls ! m \<and> sum_list (take m ls) + r' = r"
proof (induction ls r arbitrary: m rule: find_month.induct)
  case (2 l ls r)
  show ?case
  proof (cases "r < l")
    case False
    obtain k where k: "find_month ls (r - l) = (k, r')" "m = Suc k"
      using 2(4) False by (cases "find_month ls (r - l)") auto
    from 2(1) [OF False _ _ k(1)] 2(2,3) False k(2) show ?thesis by simp
  qed (use 2 in auto)
qed simp

text \<open>Year, month and day of a day count, and the day count of a date.\<close>

definition civil_of_days :: "int \<Rightarrow> int \<times> nat \<times> int" where
  "civil_of_days d =
     (let y = find_year (d div 366) d;
          (m, r) = find_month (month_lengths (leap y)) (d - days_before_year y)
      in (y, Suc m, r + 1))"

definition days_of_civil :: "int \<Rightarrow> nat \<Rightarrow> int \<Rightarrow> int" where
  "days_of_civil y m day = days_before_year y + sum_list (take (m - 1) (month_lengths (leap y))) + day - 1"

definition valid_civil :: "int \<Rightarrow> nat \<Rightarrow> int \<Rightarrow> bool" where
  "valid_civil y m day =
     (1 \<le> m \<and> m \<le> 12 \<and> 1 \<le> day \<and> day \<le> month_lengths (leap y) ! (m - 1))"

lemma days_before_year_le: "0 \<le> y \<Longrightarrow> days_before_year y \<le> 366 * y"
proof (induction y rule: int_ge_induct)
  case (step y)
  then show ?case by (auto simp: days_before_year_Suc)
qed (simp add: days_before_year_def)

lemma civil_of_days:
  assumes "0 \<le> d" and "civil_of_days d = (y, m, day)"
  shows "0 \<le> y" and "valid_civil y m day" and "days_of_civil y m day = d"
    and "days_before_year y \<le> d"
proof -
  let ?y = "find_year (d div 366) d"
  have "0 \<le> d div 366" using assms(1) by simp
  have "366 * (d div 366) \<le> d" by (simp add: mult_div_mod_eq [symmetric] minus_mod_eq_mult_div [symmetric])
  with days_before_year_le [OF \<open>0 \<le> d div 366\<close>] have "days_before_year (d div 366) \<le> d" by linarith
  from find_year_bounds [OF this]
  have y: "days_before_year ?y \<le> d" "d < days_before_year (?y + 1)" "d div 366 \<le> ?y" by auto
  obtain k r where k: "find_month (month_lengths (leap ?y)) (d - days_before_year ?y) = (k, r)" by fastforce
  with assms(2) have e: "y = ?y" "m = Suc k" "day = r + 1" by (auto simp: civil_of_days_def Let_def)
  have "k < length (month_lengths (leap ?y)) \<and> 0 \<le> r \<and> r < month_lengths (leap ?y) ! k
    \<and> sum_list (take k (month_lengths (leap ?y))) + r = d - days_before_year ?y"
    by (rule find_month_bounds [OF _ _ k])
      (use y days_before_year_Suc [of ?y] sum_month_lengths [of "leap ?y"] in auto)
  with e y \<open>0 \<le> d div 366\<close> show "0 \<le> y" and "valid_civil y m day" and "days_of_civil y m day = d"
    and "days_before_year y \<le> d"
    by (auto simp: valid_civil_def days_of_civil_def month_lengths_def)
qed

lemma days_before_year_mono: "y \<le> z \<Longrightarrow> days_before_year y \<le> days_before_year z"
  by (rule int_ge_induct [of y z]) (auto simp: days_before_year_Suc)

lemma civil_year_bound:
  assumes "d < days_before_year 10000" and "days_before_year y \<le> d"
  shows "y \<le> 9999"
proof (rule ccontr)
  assume "\<not> y \<le> 9999"
  then have "days_before_year 10000 \<le> days_before_year y" by (intro days_before_year_mono) simp
  with assms show False by simp
qed

section \<open>Numbers of fixed width\<close>

definition dig :: "nat \<Rightarrow> char" where
  "dig n = char_of (48 + n)"

definition undig :: "char \<Rightarrow> nat option" where
  "undig c = (let n = of_char c in if 48 \<le> n \<and> n \<le> 57 then Some (n - 48) else None)"

lemma undig_dig [simp]: "n < 10 \<Longrightarrow> undig (dig n) = Some n"
  by (simp add: undig_def dig_def)

lemma of_char_dig: "n < 10 \<Longrightarrow> of_char (dig n) = (48 + n :: nat)"
  by (simp add: dig_def)

fun num_text :: "nat \<Rightarrow> nat \<Rightarrow> string" where
  "num_text 0 n = []"
| "num_text (Suc k) n = num_text k (n div 10) @ [dig (n mod 10)]"

fun take_num :: "nat \<Rightarrow> nat \<Rightarrow> string \<Rightarrow> (nat \<times> string) option" where
  "take_num 0 acc s = Some (acc, s)"
| "take_num (Suc k) acc [] = None"
| "take_num (Suc k) acc (c # s) =
     (case undig c of None \<Rightarrow> None | Some d \<Rightarrow> take_num k (10 * acc + d) s)"

lemma take_num_append:
  "take_num (k + l) acc s = Option.bind (take_num k acc s) (\<lambda>(n, s'). take_num l n s')"
  by (induction k acc s rule: take_num.induct) (auto split: option.splits)

lemma take_num_text: "n < 10 ^ k \<Longrightarrow> take_num k acc (num_text k n @ s) = Some (acc * 10 ^ k + n, s)"
proof (induction k arbitrary: n s)
  case (Suc k)
  from Suc.prems have "n div 10 < 10 ^ k" by (simp add: less_mult_imp_div_less mult.commute)
  from Suc.IH [OF this] have "take_num k acc (num_text k (n div 10) @ dig (n mod 10) # s)
      = Some (acc * 10 ^ k + n div 10, dig (n mod 10) # s)" .
  moreover have "take_num (k + 1) acc t = Option.bind (take_num k acc t) (\<lambda>(n, s'). take_num 1 n s')" for t
    by (rule take_num_append)
  moreover have "10 * (acc * 10 ^ k + n div 10) + n mod 10 = acc * 10 ^ Suc k + n"
    by (simp add: algebra_simps)
  ultimately show ?case by simp
qed simp

lemma take_num_zeros: "take_num k 0 (replicate k CHR ''0'') = Some (0, [])"
  by (induction k) (simp_all add: undig_def)

lemma length_num_text [simp]: "length (num_text k n) = k"
  by (induction k arbitrary: n) auto

lemma num_text_digits: "c \<in> set (num_text k n) \<Longrightarrow> undig c \<noteq> None"
  by (induction k arbitrary: n) auto

text \<open>The fraction of a second: up to nine digits, without trailing zeros.\<close>

definition frac_text :: "nat \<Rightarrow> string" where
  "frac_text ns =
     (if ns = 0 then []
      else CHR ''.'' # rev (dropWhile (\<lambda>c. c = CHR ''0'') (rev (num_text 9 ns))))"

definition take_frac :: "string \<Rightarrow> nat \<times> string" where
  "take_frac s =
     (case s of
        c # d # rest \<Rightarrow>
          if (c = CHR ''.'' \<or> c = CHR '','') \<and> undig d \<noteq> None then
            (let ds = takeWhile (\<lambda>x. undig x \<noteq> None) (d # rest)
             in (case take_num 9 0 (take 9 (ds @ replicate 9 CHR ''0'')) of
                   None \<Rightarrow> 0
                 | Some (n, _) \<Rightarrow> n,
                 dropWhile (\<lambda>x. undig x \<noteq> None) (d # rest)))
          else (0, s)
      | _ \<Rightarrow> (0, s))"

lemma rev_dropWhile_pad:
  "\<exists>m. xs = rev (dropWhile (\<lambda>c. c = z) (rev xs)) @ replicate m z"
proof -
  have "rev xs = takeWhile (\<lambda>c. c = z) (rev xs) @ dropWhile (\<lambda>c. c = z) (rev xs)" by simp
  moreover have "takeWhile (\<lambda>c. c = z) (rev xs) = replicate (length (takeWhile (\<lambda>c. c = z) (rev xs))) z"
    by (rule replicate_length_same [symmetric]) (auto dest: set_takeWhileD)
  ultimately have "rev (rev xs) = rev (replicate (length (takeWhile (\<lambda>c. c = z) (rev xs))) z
      @ dropWhile (\<lambda>c. c = z) (rev xs))" by metis
  then show ?thesis by (auto simp: rev_append)
qed

lemma take_frac_text:
  assumes "ns < 10 ^ 9" and "s \<noteq> []" and "undig (hd s) = None" and "hd s \<notin> {CHR ''.'', CHR '',''}"
  shows "take_frac (frac_text ns @ s) = (ns, s)"
proof (cases "ns = 0")
  case True
  with assms show ?thesis by (cases s) (auto simp: take_frac_def frac_text_def split: list.splits)
next
  case False
  let ?t = "rev (dropWhile (\<lambda>c. c = CHR ''0'') (rev (num_text 9 ns)))"
  obtain m where m: "num_text 9 ns = ?t @ replicate m CHR ''0''"
    using rev_dropWhile_pad [of "num_text 9 ns" "CHR ''0''"] by (rule exE)
  have full: "take_num 9 0 (num_text 9 ns) = Some (ns, [])"
    using take_num_text [of ns 9 0 "[]"] assms(1) by simp
  have "?t \<noteq> []"
  proof
    assume "?t = []"
    with m have r: "num_text 9 ns = replicate m CHR ''0''" by simp
    then have "m = 9" using length_num_text [of 9 ns] by simp
    with r full take_num_zeros [of 9] False show False by simp
  qed
  then obtain d rest where t: "?t = d # rest" by (cases ?t) auto
  have ds: "undig c \<noteq> None" if "c \<in> set ?t" for c
    by (rule num_text_digits [of c 9 ns]) (use that m in \<open>metis Un_iff set_append\<close>)
  have tw: "takeWhile (\<lambda>x. undig x \<noteq> None) (?t @ s) = ?t" "dropWhile (\<lambda>x. undig x \<noteq> None) (?t @ s) = s"
    using takeWhile_append_stop [of ?t "\<lambda>x. undig x \<noteq> None" s]
      dropWhile_append_stop [of ?t "\<lambda>x. undig x \<noteq> None" s] ds assms(3) by auto
  have "length ?t + m = 9" using m length_num_text [of 9 ns] by (metis length_append length_replicate)
  then have "take 9 (?t @ replicate 9 CHR ''0'') = ?t @ replicate m CHR ''0''" by simp
  with m have "take 9 (?t @ replicate 9 CHR ''0'') = num_text 9 ns" by metis
  with tw t full ds [of d] False show ?thesis
    by (simp add: take_frac_def frac_text_def Let_def)
qed

section \<open>The text of a time\<close>

text \<open>\<open>time.MarshalJSON\<close>, without the quotes: an error for a year beyond four digits or a zone beyond a day.\<close>

definition unix_days :: int where
  "unix_days = 719528"

definition zone_text :: "int \<Rightarrow> string" where
  "zone_text off =
     (if off = 0 then ''Z''
      else let z = nat (\<bar>off\<bar> div 60)
           in (if off \<le> -60 then CHR ''-'' else CHR ''+'')
                # num_text 2 (z div 60) @ CHR '':'' # num_text 2 (z mod 60))"

definition date_text :: "int \<Rightarrow> string" where
  "date_text days =
     (let (y, m, d) = civil_of_days days
      in num_text 4 (nat y) @ CHR ''-'' # num_text 2 m @ CHR ''-'' # num_text 2 (nat d))"

definition clock_text :: "nat \<Rightarrow> string" where
  "clock_text secs =
     num_text 2 (secs div 3600) @ CHR '':'' # num_text 2 (secs div 60 mod 60) @ CHR '':'' # num_text 2 (secs mod 60)"

definition time_text :: "gotime \<Rightarrow> int \<Rightarrow> string result" where
  "time_text t off =
     (let local_secs = wall_ns t div second + off;
          days = local_secs div 86400 + unix_days
      in if days < 0 \<or> days \<ge> days_before_year 10000
           then Inl ''Time.MarshalJSON: year outside of range [0,9999]''
         else if \<bar>off\<bar> div 3600 \<ge> 24
           then Inl ''Time.MarshalJSON: timezone hour outside of range [0,23]''
         else Inr (date_text days @ CHR ''T'' # clock_text (nat (local_secs mod 86400))
                   @ frac_text (nat (wall_ns t mod second)) @ zone_text off))"

text \<open>\<open>time.Parse\<close> with the layout \<open>RFC3339\<close>, on which \<open>time.UnmarshalJSON\<close> falls back.\<close>

definition expect :: "char \<Rightarrow> string \<Rightarrow> string option" where
  "expect c s = (case s of x # xs \<Rightarrow> if x = c then Some xs else None | [] \<Rightarrow> None)"

text \<open>The hour may have one digit.\<close>

definition take_hour :: "string \<Rightarrow> (nat \<times> string) option" where
  "take_hour s =
     (case take_num 2 0 s of
        Some r \<Rightarrow> Some r
      | None \<Rightarrow> take_num 1 0 s)"

definition take_zone :: "string \<Rightarrow> (int \<times> string) option" where
  "take_zone s =
     (case s of
        [] \<Rightarrow> None
      | c # s1 \<Rightarrow>
          if c = CHR ''Z'' then Some (0, s1)
          else if c \<noteq> CHR ''+'' \<and> c \<noteq> CHR ''-'' then None
          else Option.bind (take_num 2 0 s1) (\<lambda>(h, s2).
               Option.bind (expect CHR '':'' s2) (\<lambda>s3.
               Option.bind (take_num 2 0 s3) (\<lambda>(m, s4).
                 if h > 24 \<or> m > 60 then None
                 else Some ((if c = CHR ''-'' then -1 else 1) * int (h * 3600 + m * 60), s4)))))"

definition take_date :: "string \<Rightarrow> (int \<times> string) option" where
  "take_date s =
     Option.bind (take_num 4 0 s) (\<lambda>(y, s1).
     Option.bind (expect CHR ''-'' s1) (\<lambda>s2.
     Option.bind (take_num 2 0 s2) (\<lambda>(m, s3).
     Option.bind (expect CHR ''-'' s3) (\<lambda>s4.
     Option.bind (take_num 2 0 s4) (\<lambda>(d, s5).
       if valid_civil (int y) m (int d) then Some (days_of_civil (int y) m (int d), s5) else None)))))"

definition take_clock :: "string \<Rightarrow> (nat \<times> string) option" where
  "take_clock s =
     Option.bind (take_hour s) (\<lambda>(h, s1).
     Option.bind (expect CHR '':'' s1) (\<lambda>s2.
     Option.bind (take_num 2 0 s2) (\<lambda>(m, s3).
     Option.bind (expect CHR '':'' s3) (\<lambda>s4.
     Option.bind (take_num 2 0 s4) (\<lambda>(sec, s5).
       if h < 24 \<and> m < 60 \<and> sec < 60 then Some (h * 3600 + m * 60 + sec, s5) else None)))))"

definition time_parse :: "string \<Rightarrow> (gotime \<times> int) option" where
  "time_parse s =
     Option.bind (take_date s) (\<lambda>(days, s1).
     Option.bind (expect CHR ''T'' s1) (\<lambda>s2.
     Option.bind (take_clock s2) (\<lambda>(secs, s3).
       let (ns, s4) = take_frac s3 in
       Option.bind (take_zone s4) (\<lambda>(off, s5).
         if s5 \<noteq> [] then None
         else Some (\<lparr>wall_ns = ((days - unix_days) * 86400 + int secs - off) * second + int ns,
                     mono_ns = None\<rparr>, off)))))"

lemma expect_Cons [simp]: "expect c (c # s) = Some s"
  by (simp add: expect_def)

lemma take_num_text2: "n < 100 \<Longrightarrow> take_num 2 0 (num_text 2 n @ s) = Some (n, s)"
  using take_num_text [of n 2 0 s] by simp

lemma take_date_text:
  assumes "0 \<le> days" and "days < days_before_year 10000"
  shows "take_date (date_text days @ s) = Some (days, s)"
proof -
  obtain y m d where c: "civil_of_days days = (y, m, d)" by (cases "civil_of_days days") auto
  note civil = civil_of_days [OF assms(1) c]
  from civil_year_bound [OF assms(2) civil(4)] civil(1) have y: "nat y < 10 ^ 4" "int (nat y) = y" by simp_all
  have "\<forall>x\<in>set (month_lengths (leap y)). x \<le> 31" by (simp add: month_lengths_def)
  moreover have "month_lengths (leap y) ! (m - 1) \<in> set (month_lengths (leap y))"
    by (rule nth_mem) (use civil(2) in \<open>auto simp: valid_civil_def month_lengths_def\<close>)
  ultimately have "d \<le> 31" using civil(2) by (fastforce simp: valid_civil_def)
  with civil(2) have md: "m < 100" "nat d < 100" "int (nat d) = d" by (auto simp: valid_civil_def)
  from take_num_text [OF y(1), of 0] y(2) md civil(2,3) c show ?thesis
    by (simp add: take_date_def date_text_def take_num_text2)
qed

lemma take_clock_text: "secs < 86400 \<Longrightarrow> take_clock (clock_text secs @ s) = Some (secs, s)"
proof -
  assume "secs < 86400"
  then have "secs div 3600 < 24" by (simp add: less_mult_imp_div_less)
  moreover have "secs div 3600 * 3600 + secs div 60 mod 60 * 60 + secs mod 60 = secs"
  proof -
    have "secs div 3600 = secs div 60 div 60" by (simp add: div_mult2_eq [symmetric])
    then show ?thesis using div_mult_mod_eq [of "secs div 60" 60] div_mult_mod_eq [of secs 60] by linarith
  qed
  ultimately show ?thesis
    by (simp add: take_clock_def clock_text_def take_hour_def take_num_text2)
qed

lemma take_zone_signed:
  assumes "h \<le> 24" and "m < 60" and "c = CHR ''+'' \<or> c = CHR ''-''"
  shows "take_zone (c # num_text 2 h @ CHR '':'' # num_text 2 m)
    = Some ((if c = CHR ''-'' then -1 else 1) * int (h * 3600 + m * 60), [])"
proof -
  have "take_num 2 0 (num_text 2 m) = Some (m, [])"
    using take_num_text2 [of m "[]"] assms(2) by simp
  with assms show ?thesis
    by (auto simp: take_zone_def take_num_text2 simp del: of_nat_add of_nat_mult)
qed

lemma take_zone_text:
  assumes "\<bar>off\<bar> div 3600 < 24" and "60 dvd off"
  shows "take_zone (zone_text off) = Some (off, [])"
proof (cases "off = 0")
  case False
  obtain k where k: "off = 60 * k" using assms(2) by (auto elim: dvdE)
  let ?z = "nat (\<bar>off\<bar> div 60)"
  have z: "?z = nat \<bar>k\<bar>" using k by (simp add: abs_mult)
  have "\<bar>off\<bar> < 24 * 3600" using assms(1) by linarith
  then have "nat \<bar>k\<bar> < 1440" using k by (simp add: abs_mult)
  then have h: "nat \<bar>k\<bar> div 60 < 24" by (simp add: less_mult_imp_div_less)
  have "nat \<bar>k\<bar> div 60 * 3600 + nat \<bar>k\<bar> mod 60 * 60 = 60 * nat \<bar>k\<bar>"
    using div_mult_mod_eq [of "nat \<bar>k\<bar>" 60] by linarith
  then have e: "int (nat \<bar>k\<bar> div 60 * 3600 + nat \<bar>k\<bar> mod 60 * 60) = 60 * \<bar>k\<bar>"
    by (simp only:) simp
  from k False have "k \<noteq> 0" by simp
  have "zone_text off = (if k < 0 then CHR ''-'' else CHR ''+'')
      # num_text 2 (nat \<bar>k\<bar> div 60) @ CHR '':'' # num_text 2 (nat \<bar>k\<bar> mod 60)"
    using False z k unfolding zone_text_def by (simp add: Let_def)
  moreover have "take_zone ((if k < 0 then CHR ''-'' else CHR ''+'')
      # num_text 2 (nat \<bar>k\<bar> div 60) @ CHR '':'' # num_text 2 (nat \<bar>k\<bar> mod 60))
      = Some ((if k < 0 then -1 else 1) * (60 * \<bar>k\<bar>), [])"
    using h take_zone_signed [of "nat \<bar>k\<bar> div 60" "nat \<bar>k\<bar> mod 60" "if k < 0 then CHR ''-'' else CHR ''+''"]
    unfolding e by (simp split: if_splits)
  ultimately show ?thesis using k by (simp split: if_splits)
qed (simp add: zone_text_def take_zone_def)

lemma zone_text_start:
  "zone_text off \<noteq> []" "undig (hd (zone_text off)) = None" "hd (zone_text off) \<notin> {CHR ''.'', CHR '',''}"
  by (auto simp: zone_text_def Let_def undig_def)

lemma if2_InrD:
  "(if P then Inl a else if Q then Inl b else Inr c) = Inr s \<Longrightarrow> \<not> P \<and> \<not> Q \<and> s = c"
  by (simp split: if_splits)

lemma time_parse_parts:
  assumes "0 \<le> days" and "days < days_before_year 10000" and "secs < 86400" and "ns < 10 ^ 9"
    and "\<bar>off\<bar> div 3600 < 24" and "60 dvd off"
  shows "time_parse (date_text days @ CHR ''T'' # clock_text secs @ frac_text ns @ zone_text off)
    = Some (\<lparr>wall_ns = ((days - unix_days) * 86400 + int secs - off) * second + int ns, mono_ns = None\<rparr>, off)"
  unfolding time_parse_def take_date_text [OF assms(1,2)] take_clock_text [OF assms(3)]
    take_frac_text [OF assms(4) zone_text_start] take_zone_text [OF assms(5,6)] bind.bind_lunit
    prod.case expect_Cons Let_def by simp

text \<open>A printed time is read back as the same instant in the same zone.\<close>

lemma time_parse_text:
  assumes "time_text t off = Inr s" and "60 dvd off"
  shows "time_parse s = Some (strip_mono t, off)"
proof -
  let ?l = "wall_ns t div second + off"
  from assms(1) have nr: "\<not> (?l div 86400 + unix_days < 0 \<or> ?l div 86400 + unix_days \<ge> days_before_year 10000)"
      "\<not> \<bar>off\<bar> div 3600 \<ge> 24"
    and s: "s = date_text (?l div 86400 + unix_days) @ CHR ''T'' # clock_text (nat (?l mod 86400))
       @ frac_text (nat (wall_ns t mod second)) @ zone_text off"
    unfolding time_text_def Let_def by (blast dest!: if2_InrD)+
  from nr have r: "0 \<le> ?l div 86400 + unix_days" "?l div 86400 + unix_days < days_before_year 10000"
      "\<bar>off\<bar> div 3600 < 24"
    by (simp_all only: de_Morgan_disj not_less not_le)
  have "nat (?l mod 86400) < 86400" "nat (wall_ns t mod second) < 10 ^ 9"
    by (simp_all add: second_def nat_less_iff)
  from time_parse_parts [OF r(1,2) this r(3) assms(2), folded s]
  have "time_parse s = Some (\<lparr>wall_ns = (?l div 86400 * 86400 + int (nat (?l mod 86400)) - off) * second
      + int (nat (wall_ns t mod second)), mono_ns = None\<rparr>, off)"
    by (simp only: add_diff_cancel_right')
  also have "int (nat (?l mod 86400)) = ?l mod 86400"
    by (intro int_nat_eq [THEN trans] if_P pos_mod_sign) simp
  also have "?l div 86400 * 86400 + ?l mod 86400 - off = wall_ns t div second"
    by (simp only: div_mult_mod_eq add_diff_cancel_right')
  also have "int (nat (wall_ns t mod second)) = wall_ns t mod second"
    by (simp add: second_def)
  also have "wall_ns t div second * second + wall_ns t mod second = wall_ns t"
    by (rule div_mult_mod_eq)
  finally show ?thesis by (simp add: strip_mono_def)
qed

text \<open>The text is ASCII.\<close>

lemma undig_ascii: "undig c \<noteq> None \<Longrightarrow> (of_char c :: nat) < 128"
  by (auto simp: undig_def Let_def split: if_splits)

lemma num_text_ascii: "c \<in> set (num_text k n) \<Longrightarrow> (of_char c :: nat) < 128"
  using num_text_digits undig_ascii by blast

lemma frac_text_ascii: "c \<in> set (frac_text ns) \<Longrightarrow> (of_char c :: nat) < 128"
  unfolding frac_text_def
  by (auto split: if_splits dest!: set_dropWhileD dest: num_text_ascii)

lemma zone_text_ascii: "c \<in> set (zone_text off) \<Longrightarrow> (of_char c :: nat) < 128"
  unfolding zone_text_def Let_def by (cases "off = 0"; cases "off \<le> -60") (auto dest: num_text_ascii)

lemma clock_text_ascii: "c \<in> set (clock_text secs) \<Longrightarrow> (of_char c :: nat) < 128"
  unfolding clock_text_def set_append list.set Un_iff insert_iff
  by (elim disjE) (simp_all add: num_text_ascii)

lemma date_text_ascii: "c \<in> set (date_text days) \<Longrightarrow> (of_char c :: nat) < 128"
  unfolding date_text_def
  by (cases "civil_of_days days") (auto dest: num_text_ascii)

lemma time_text_ascii:
  assumes "time_text t off = Inr s" and "c \<in> set s"
  shows "(of_char c :: nat) < 128"
proof -
  from if2_InrD [OF assms(1) [unfolded time_text_def Let_def]] assms(2)
  obtain days secs ns where "c \<in> set (date_text days @ CHR ''T'' # clock_text secs @ frac_text ns @ zone_text off)"
    by blast
  then show ?thesis
    unfolding set_append list.set Un_iff insert_iff
    by (elim disjE) (simp_all add: date_text_ascii clock_text_ascii frac_text_ascii zone_text_ascii)
qed

end
