(* ===== verification/Disk.thy ===== *)
theory Disk
  imports Prelude
begin

text \<open>
  The file system as the agent uses it: whole files by path, with the outcome of each call chosen
  by the environment. \<open>os.WriteFile\<close> may fail before it touched the file or after it truncated it
  and wrote a part; \<open>os.ReadFile\<close> reports a missing file apart from every other error.
\<close>

type_synonym disk = "string \<rightharpoonup> bytes"

datatype write_outcome = WriteOk | WriteRefused string | WriteShort nat string

definition os_write :: "write_outcome \<Rightarrow> disk \<Rightarrow> string \<Rightarrow> bytes \<Rightarrow> disk \<times> string option" where
  "os_write w d path data =
     (case w of
        WriteOk \<Rightarrow> (d(path \<mapsto> data), None)
      | WriteRefused e \<Rightarrow> (d, Some e)
      | WriteShort n e \<Rightarrow> (d(path \<mapsto> take n data), Some e))"

datatype read_result = ReadData bytes | ReadNotExist | ReadError string

definition os_read :: "string option \<Rightarrow> disk \<Rightarrow> string \<Rightarrow> read_result" where
  "os_read fault d path =
     (case fault of
        Some e \<Rightarrow> ReadError e
      | None \<Rightarrow> (case d path of None \<Rightarrow> ReadNotExist | Some b \<Rightarrow> ReadData b))"

declare os_write_def [go_defs] os_read_def [go_defs]

lemma os_write_ok [simp]:
  "os_write WriteOk d path data = (d(path \<mapsto> data), None)"
  "snd (os_write w d path data) = None \<longleftrightarrow> w = WriteOk"
  by (auto simp: os_write_def split: write_outcome.splits)

lemma os_write_other: "p \<noteq> path \<Longrightarrow> fst (os_write w d path data) p = d p"
  by (auto simp: os_write_def split: write_outcome.splits)

lemma os_read_none [simp]:
  "d path = Some b \<Longrightarrow> os_read None d path = ReadData b"
  "d path = None \<Longrightarrow> os_read None d path = ReadNotExist"
  by (simp_all add: os_read_def)

section \<open>Paths\<close>

text \<open>
  \<open>strings.Split\<close> at a character, and \<open>filepath.Join\<close> with \<open>filepath.Clean\<close> for the separator
  \<open>/\<close>; Windows differs in the separator and in volume names.
\<close>

fun split_on :: "char \<Rightarrow> string \<Rightarrow> string list" where
  "split_on c [] = [[]]"
| "split_on c (x # xs) =
     (if x = c then [] # split_on c xs
      else case split_on c xs of [] \<Rightarrow> [[x]] | p # ps \<Rightarrow> (x # p) # ps)"

definition clean_step :: "bool \<Rightarrow> string list \<Rightarrow> string \<Rightarrow> string list" where
  "clean_step rooted st e =
     (if e = [] \<or> e = ''.'' then st
      else if e = ''..'' then
        (if st \<noteq> [] \<and> hd st \<noteq> ''..'' then tl st else if rooted then st else e # st)
      else e # st)"

definition path_clean :: "string \<Rightarrow> string" where
  "path_clean p =
     (let rooted = (p \<noteq> [] \<and> hd p = CHR ''/'');
          body = join ''/'' (rev (foldl (clean_step rooted) [] (split_on CHR ''/'' p)))
      in if rooted then CHR ''/'' # body else if body = [] then ''.'' else body)"

definition path_join :: "string list \<Rightarrow> string" where
  "path_join es =
     (case dropWhile (\<lambda>e. e = []) es of [] \<Rightarrow> [] | es' \<Rightarrow> path_clean (join ''/'' es'))"

lemma path_join_examples:
  "path_join [''/home/u/.config'', ''lockping''] = ''/home/u/.config/lockping''"
  "path_join [''/a/../b/'', ''agent.json''] = ''/b/agent.json''"
  "path_join [[], ''agent.json''] = ''agent.json''"
  "path_join [''../x/.'', ''agent.json''] = ''../x/agent.json''"
  by (simp_all add: path_join_def path_clean_def clean_step_def Let_def)

text \<open>\<open>os.MkdirAll\<close> leaves the files alone; its outcome is the environment's.\<close>

definition os_mkdirall :: "string option \<Rightarrow> disk \<Rightarrow> disk \<times> string option" where
  "os_mkdirall fault d = (d, fault)"

declare os_mkdirall_def [go_defs]

end
