(* ===== verification/Go_Text.thy ===== *)
theory Go_Text
  imports Json_Text
begin

text \<open>
  The functions of Go's \<open>strings\<close>, \<open>strconv\<close> and \<open>net\<close> packages the agent uses on texts, apart
  from JSON.
\<close>

section \<open>Spaces\<close>

text \<open>\<open>unicode.IsSpace\<close>, and \<open>strings.TrimSpace\<close>.\<close>

definition space_rune :: "nat \<Rightarrow> bool" where
  "space_rune r =
     (r \<in> set [9, 10, 11, 12, 13, 32, 133, 160, 5760, 8232, 8233, 8239, 8287, 12288]
      \<or> (8192 \<le> r \<and> r \<le> 8202))"

definition trim_space :: "string \<Rightarrow> string" where
  "trim_space s =
     (let trim = dropWhile (\<lambda>p. space_rune (fst p))
      in concat (map snd (rev (trim (rev (trim (pieces s)))))))"

section \<open>Quoting\<close>

text \<open>
  \<open>%q\<close>. Runes from U+00A0 on are taken to be printable; the few that are not (the soft hyphen, the
  separators, unassigned code points) are written as they are instead of as an escape.
\<close>

definition quote_piece :: "nat \<times> string \<Rightarrow> string" where
  "quote_piece p =
     (let r = fst p in
      if bad_piece p then [backslash, CHR ''x''] @ hex_text (snd p)
      else if r = 34 \<or> r = 92 then backslash # snd p
      else if 32 \<le> r \<and> r < 127 \<or> 160 \<le> r then snd p
      else if r = 7 then [backslash, CHR ''a'']
      else if r = 8 then [backslash, CHR ''b'']
      else if r = 12 then [backslash, CHR ''f'']
      else if r = 10 then [backslash, CHR ''n'']
      else if r = 13 then [backslash, CHR ''r'']
      else if r = 9 then [backslash, CHR ''t'']
      else if r = 11 then [backslash, CHR ''v'']
      else if r < 32 \<or> r = 127 then [backslash, CHR ''x''] @ hex_text [char_of r]
      else [backslash, CHR ''u'', CHR ''0'', CHR ''0''] @ hex_text [char_of r])"

definition go_quote :: "string \<Rightarrow> string" where
  "go_quote s = dquote # concat (map quote_piece (pieces s)) @ [dquote]"

section \<open>Searching\<close>

definition index_of :: "char \<Rightarrow> string \<Rightarrow> nat option" where
  "index_of c s = (let n = length (takeWhile (\<lambda>x. x \<noteq> c) s) in if n < length s then Some n else None)"

definition last_index_of :: "char \<Rightarrow> string \<Rightarrow> nat option" where
  "last_index_of c s =
     (let n = length (takeWhile (\<lambda>x. x \<noteq> c) (rev s))
      in if n < length s then Some (length s - n - 1) else None)"

text \<open>\<open>strings.Replace\<close> with count one and a non-empty pattern.\<close>

fun replace_first :: "string \<Rightarrow> string \<Rightarrow> string \<Rightarrow> string" where
  "replace_first old new [] = []"
| "replace_first old new (c # cs) =
     (if has_prefix (c # cs) old then new @ drop (length old) (c # cs)
      else c # replace_first old new cs)"

text \<open>\<open>net.SplitHostPort\<close>: host and port, \<open>None\<close> for an error.\<close>

definition SplitHostPort :: "string \<Rightarrow> (string \<times> string) option" where
  "SplitHostPort hostport =
     (case last_index_of CHR '':'' hostport of
        None \<Rightarrow> None
      | Some i \<Rightarrow>
          if hd hostport = CHR ''['' then
            (case index_of CHR '']'' hostport of
               None \<Rightarrow> None
             | Some e \<Rightarrow>
                 if e + 1 \<noteq> i then None
                 else if CHR ''['' \<in> set (drop 1 hostport) \<or> CHR '']'' \<in> set (drop (e + 1) hostport) then None
                 else Some (take (e - 1) (drop 1 hostport), drop (i + 1) hostport))
          else if CHR '':'' \<in> set (take i hostport) then None
          else if CHR ''['' \<in> set hostport \<or> CHR '']'' \<in> set hostport then None
          else Some (take i hostport, drop (i + 1) hostport))"

lemma SplitHostPort_examples:
  "SplitHostPort ''127.0.0.1:41800'' = Some (''127.0.0.1'', ''41800'')"
  "SplitHostPort ''[::1]:80'' = Some (''::1'', ''80'')"
  "SplitHostPort ''localhost'' = None"
  "SplitHostPort ''::1'' = None"
  "SplitHostPort ''a:b:1'' = None"
  by (simp_all add: SplitHostPort_def last_index_of_def index_of_def Let_def)

lemma last_index_of_SomeD:
  "last_index_of c s = Some i \<Longrightarrow> s = take i s @ c # drop (i + 1) s \<and> c \<notin> set (drop (i + 1) s)"
proof -
  let ?n = "length (takeWhile (\<lambda>x. x \<noteq> c) (rev s))"
  assume "last_index_of c s = Some i"
  then have n: "?n < length s" "i = length s - ?n - 1"
    by (auto simp: last_index_of_def Let_def split: if_splits)
  have d: "drop (i + 1) s = rev (takeWhile (\<lambda>x. x \<noteq> c) (rev s))"
    using n by (metis (no_types, lifting) Suc_diff_Suc Suc_eq_plus1 diff_Suc_eq_diff_pred diff_commute length_rev rev_rev_ident rev_take takeWhile_eq_take)
  have "rev s ! ?n = c"
    using nth_length_takeWhile [of "\<lambda>x. x \<noteq> c" "rev s"] n(1) by simp
  then have "s ! i = c" using n by (simp add: rev_nth)
  then have "s = take i s @ c # drop (i + 1) s"
    using id_take_nth_drop [of i s] n by simp
  moreover have "c \<notin> set (drop (i + 1) s)"
    unfolding d by (auto dest: set_takeWhileD)
  ultimately show ?thesis by blast
qed

lemma last_index_of_append:
  assumes "c \<notin> set t" shows "last_index_of c (s @ c # t) = Some (length s)"
proof -
  have "takeWhile (\<lambda>x. x \<noteq> c) (rev t @ c # rev s) = rev t"
    by (rule takeWhile_append_stop) (use assms in auto)
  then show ?thesis by (simp add: last_index_of_def Let_def)
qed

lemma last_index_of_None: "last_index_of c s = None \<longleftrightarrow> c \<notin> set s"
proof
  assume n: "last_index_of c s = None"
  show "c \<notin> set s"
  proof
    assume "c \<in> set s"
    then obtain xs ys where "s = xs @ c # ys" "c \<notin> set ys" by (metis split_list_last)
    with n last_index_of_append show False by simp
  qed
next
  assume "c \<notin> set s"
  then have "takeWhile (\<lambda>x. x \<noteq> c) (rev s) = rev s" unfolding takeWhile_eq_all_conv by auto
  from arg_cong [OF this, of length] have "length (takeWhile (\<lambda>x. x \<noteq> c) (rev s)) = length s"
    by (simp only: length_rev)
  then show "last_index_of c s = None" by (simp only: last_index_of_def Let_def less_irrefl if_False)
qed

end
