(* ===== verification/Devices.thy ===== *)
theory Devices
  imports Keys Json_Valid Json_Torn Rfc3339 Disk Go_Text "HOL-Library.AList" "HOL-Library.Multiset" "HOL-Library.List_Lexorder" "HOL-Library.Char_ord"
begin

text \<open>
  \<open>internal/secure/devices.go\<close>: the allowlist of paired devices and its file. The Go map is an
  association list with distinct keys, \<open>None\<close> for the nil map that a file holding \<open>null\<close> leaves
  behind. \<open>time.Now\<close>, the local zone, the outcome of the write and the iteration order of the
  map are arguments. The mutex makes each operation atomic; the interleaving of whole operations
  is in \<open>Gateway\<close>.
\<close>

record deviceInfo =
  dev_ID :: string
  dev_Pub :: string
  dev_Name :: string
  PairedAt :: gotime
  PairedZone :: int

definition empty_device :: deviceInfo where
  "empty_device = \<lparr>dev_ID = [], dev_Pub = [], dev_Name = [], PairedAt = zero_time, PairedZone = 0\<rparr>"

type_synonym device_map = "(string \<times> deviceInfo) list"

record deviceStore =
  path :: string
  devices :: "device_map option"

definition entries :: "deviceStore \<Rightarrow> device_map" where
  "entries s = (case devices s of None \<Rightarrow> [] | Some m \<Rightarrow> m)"

section \<open>The file\<close>

text \<open>\<open>json.MarshalIndent\<close> of the map: keys in bytewise order, each device as its struct.\<close>

definition device_members :: "deviceInfo \<Rightarrow> string \<Rightarrow> (string \<times> json) list" where
  "device_members d ts =
     [(''pub'', JStr (dev_Pub d))] @ string_member ''name'' (dev_Name d) @ [(''paired_at'', JStr ts)]"

definition device_json :: "deviceInfo \<Rightarrow> json result" where
  "device_json d =
     (case time_text (PairedAt d) (PairedZone d) of
        Inl err \<Rightarrow> Inl (''json: error calling MarshalJSON for type time.Time: '' @ err)
      | Inr ts \<Rightarrow> Inr (JObj (device_members d ts)))"

fun map_json :: "device_map \<Rightarrow> (string \<times> json) list result" where
  "map_json [] = Inr []"
| "map_json ((k, d) # ds) =
     (case device_json d of
        Inl err \<Rightarrow> Inl err
      | Inr j \<Rightarrow> (case map_json ds of Inl err \<Rightarrow> Inl err | Inr js \<Rightarrow> Inr ((k, j) # js)))"

definition store_text :: "deviceStore \<Rightarrow> string result" where
  "store_text s =
     (case devices s of
        None \<Rightarrow> Inr (json_marshal_indent JNull)
      | Some m \<Rightarrow>
          (case map_json (sort_key fst m) of
             Inl err \<Rightarrow> Inl err
           | Inr js \<Rightarrow> Inr (json_marshal_indent (JObj js))))"

definition persistLocked :: "write_outcome \<Rightarrow> disk \<Rightarrow> deviceStore \<Rightarrow> disk \<times> string option" where
  "persistLocked w d s =
     (case store_text s of
        Inl err \<Rightarrow> (d, Some err)
      | Inr text_bytes \<Rightarrow>
          (case os_write w d (path s) text_bytes of
             (d', Some err) \<Rightarrow> (d', Some (''secure: write devices: '' @ err))
           | (d', None) \<Rightarrow> (d', None)))"

text \<open>
  Decoding the current format and the one before it, a map from identifiers to keys. The time is read
  from the decoded string; Go reads the bytes between the quotes, and so refuses a time that is
  written with escapes.
\<close>

definition device_fields :: "deviceInfo fields" where
  "device_fields =
     [(''pub'', \<lambda>v d. map_option (\<lambda>x. d\<lparr>dev_Pub := x\<rparr>) (into_string v (dev_Pub d))),
      (''name'', \<lambda>v d. map_option (\<lambda>x. d\<lparr>dev_Name := x\<rparr>) (into_string v (dev_Name d))),
      (''paired_at'', \<lambda>v d.
         case v of
           JNull \<Rightarrow> Some d
         | JStr s \<Rightarrow> map_option (\<lambda>(t, z). d\<lparr>PairedAt := t, PairedZone := z\<rparr>) (time_parse s)
         | _ \<Rightarrow> None)]"

fun decode_devices :: "(string \<times> json) list \<Rightarrow> device_map \<Rightarrow> device_map option" where
  "decode_devices [] m = Some m"
| "decode_devices ((k, v) # kvs) m =
     (case decode_struct device_fields v empty_device of
        None \<Rightarrow> None
      | Some d \<Rightarrow> decode_devices kvs (AList.update k d m))"

fun decode_legacy :: "(string \<times> json) list \<Rightarrow> device_map \<Rightarrow> device_map option" where
  "decode_legacy [] m = Some m"
| "decode_legacy ((k, v) # kvs) m =
     (case into_string v [] of
        None \<Rightarrow> None
      | Some pub \<Rightarrow> decode_legacy kvs (AList.update k (empty_device\<lparr>dev_Pub := pub\<rparr>) m))"

definition LoadDevices :: "string option \<Rightarrow> disk \<Rightarrow> string \<Rightarrow> deviceStore result" where
  "LoadDevices fault dsk p =
     (case os_read fault dsk p of
        ReadNotExist \<Rightarrow> Inr \<lparr>path = p, devices = Some []\<rparr>
      | ReadError err \<Rightarrow> Inl (''secure: read devices: '' @ err)
      | ReadData data \<Rightarrow>
          (case json_parse data of
             Some JNull \<Rightarrow> Inr \<lparr>path = p, devices = None\<rparr>
           | Some (JObj kvs) \<Rightarrow>
               (case decode_devices kvs [] of
                  Some m \<Rightarrow> Inr \<lparr>path = p, devices = Some m\<rparr>
                | None \<Rightarrow>
                    (case decode_legacy kvs [] of
                       Some m \<Rightarrow> Inr \<lparr>path = p, devices = Some m\<rparr>
                     | None \<Rightarrow> Inl (''secure: devices file '' @ p @ '' is corrupt'')))
           | _ \<Rightarrow> Inl (''secure: devices file '' @ p @ '' is corrupt'')))"

section \<open>The operations\<close>

definition Add ::
  "gotime \<times> int \<Rightarrow> write_outcome \<Rightarrow> disk \<Rightarrow> deviceStore \<Rightarrow> string \<Rightarrow> string \<Rightarrow> string
     \<Rightarrow> (disk \<times> deviceStore) \<times> unit outcome" where
  "Add now w d s clientID pubB64 nm =
     (case DecodeKey pubB64 of
        Inl err \<Rightarrow> ((d, s), Fail err)
      | Inr _ \<Rightarrow>
          (case devices s of
             None \<Rightarrow> ((d, s), Panic ''assignment to entry in nil map'')
           | Some m \<Rightarrow>
               let info = empty_device\<lparr>dev_Pub := pubB64, dev_Name := nm, PairedAt := fst now, PairedZone := snd now\<rparr>;
                   s' = s\<lparr>devices := Some (AList.update clientID info m)\<rparr>
               in case persistLocked w d s' of
                    (d', None) \<Rightarrow> ((d', s'), Ret ())
                  | (d', Some err) \<Rightarrow> ((d', s'), Fail err)))"

definition Remove ::
  "write_outcome \<Rightarrow> disk \<Rightarrow> deviceStore \<Rightarrow> string \<Rightarrow> (disk \<times> deviceStore) \<times> string option" where
  "Remove w d s clientID =
     (case map_of (entries s) clientID of
        None \<Rightarrow> ((d, s), Some (''secure: onbekend device '' @ go_quote clientID))
      | Some _ \<Rightarrow>
          let s' = s\<lparr>devices := map_option (AList.delete clientID) (devices s)\<rparr>
          in case persistLocked w d s' of (d', err) \<Rightarrow> ((d', s'), err))"

definition Get :: "deviceStore \<Rightarrow> string \<Rightarrow> bytes option" where
  "Get s clientID =
     (case map_of (entries s) clientID of
        None \<Rightarrow> None
      | Some info \<Rightarrow> (case DecodeKey (dev_Pub info) of Inl _ \<Rightarrow> None | Inr k \<Rightarrow> Some k))"

text \<open>
  \<open>List\<close>. The first argument is the order in which the range loop delivers the map. Up to twelve
  elements \<open>sort.Slice\<close> is this insertion sort; beyond that it may order equal times differently,
  which another iteration order gives as well.
\<close>

fun insert_back :: "('a \<Rightarrow> 'a \<Rightarrow> bool) \<Rightarrow> 'a \<Rightarrow> 'a list \<Rightarrow> 'a list" where
  "insert_back lt x [] = [x]"
| "insert_back lt x (y # ys) = (if lt x y then y # insert_back lt x ys else x # y # ys)"

definition sort_slice :: "('a \<Rightarrow> 'a \<Rightarrow> bool) \<Rightarrow> 'a list \<Rightarrow> 'a list" where
  "sort_slice lt xs = rev (foldl (\<lambda>acc x. insert_back lt x acc) [] xs)"

definition List_devices :: "device_map \<Rightarrow> deviceInfo list" where
  "List_devices order =
     sort_slice (\<lambda>a b. time_before (PairedAt a) (PairedAt b)) (map (\<lambda>(id, info). info\<lparr>dev_ID := id\<rparr>) order)"

definition Count :: "deviceStore \<Rightarrow> nat" where
  "Count s = length (entries s)"

section \<open>The contract of an allowlist\<close>

text \<open>
  What the gateway and the configuration page rely on: a lookup after an insertion or a removal.
  The lemma proved from it is that whether a device is paired depends on the last change made for
  that device alone, whatever happens to the others in between.
\<close>

locale allowlist =
  fixes get :: "'s \<Rightarrow> string \<Rightarrow> 'k option"
    and put :: "'s \<Rightarrow> string \<Rightarrow> string \<Rightarrow> string \<Rightarrow> 's"
    and del :: "'s \<Rightarrow> string \<Rightarrow> 's"
    and key_of :: "string \<Rightarrow> 'k option"
  assumes get_put: "key_of p = Some k \<Longrightarrow> get (put s i p n) j = (if i = j then Some k else get s j)"
    and get_del: "get (del s i) j = (if i = j then None else get s j)"
begin

text \<open>A change is a pairing (identifier, key, name) or a removal.\<close>

definition change :: "'s \<Rightarrow> string \<times> (string \<times> string) option \<Rightarrow> 's" where
  "change s c = (case c of (i, Some (p, n)) \<Rightarrow> put s i p n | (i, None) \<Rightarrow> del s i)"

definition valid_change :: "string \<times> (string \<times> string) option \<Rightarrow> bool" where
  "valid_change c = (case c of (i, Some (p, n)) \<Rightarrow> key_of p \<noteq> None | (i, None) \<Rightarrow> True)"

lemma get_change:
  "valid_change c \<Longrightarrow>
     get (change s c) j = (if fst c = j then Option.bind (map_option fst (snd c)) key_of else get s j)"
  by (auto simp: change_def valid_change_def get_put get_del split: prod.splits option.splits)

lemma get_changes_other:
  "list_all valid_change cs \<Longrightarrow> \<forall>c\<in>set cs. fst c \<noteq> j \<Longrightarrow> get (foldl change s cs) j = get s j"
  by (induction cs arbitrary: s) (auto simp: get_change)

lemma get_last_change:
  assumes "list_all valid_change cs" and "valid_change c" and "\<forall>c'\<in>set cs. fst c' \<noteq> fst c"
  shows "get (foldl change (change s c) cs) (fst c) = Option.bind (map_option fst (snd c)) key_of"
  using get_changes_other [OF assms(1,3)] get_change [OF assms(2)] by simp

end

text \<open>The in-memory changes that \<open>Add\<close> and \<open>Remove\<close> make to a store whose map is not nil.\<close>

definition dev_put :: "gotime \<times> int \<Rightarrow> deviceStore \<Rightarrow> string \<Rightarrow> string \<Rightarrow> string \<Rightarrow> deviceStore" where
  "dev_put now s i p n =
     s\<lparr>devices := Some (AList.update i
        (empty_device\<lparr>dev_Pub := p, dev_Name := n, PairedAt := fst now, PairedZone := snd now\<rparr>) (entries s))\<rparr>"

definition dev_del :: "deviceStore \<Rightarrow> string \<Rightarrow> deviceStore" where
  "dev_del s i = s\<lparr>devices := map_option (AList.delete i) (devices s)\<rparr>"

lemma entries_simps [simp]:
  "entries (s\<lparr>devices := Some m\<rparr>) = m"
  "entries (s\<lparr>devices := None\<rparr>) = []"
  "devices s = Some m \<Longrightarrow> entries s = m"
  by (simp_all add: entries_def)

lemma entries_dev_del [simp]: "entries (dev_del s i) = AList.delete i (entries s)"
  by (cases "devices s") (simp_all add: dev_del_def entries_def)

lemma entries_dev_put [simp]:
  "entries (dev_put now s i p n) = AList.update i
     (empty_device\<lparr>dev_Pub := p, dev_Name := n, PairedAt := fst now, PairedZone := snd now\<rparr>) (entries s)"
  by (simp add: dev_put_def)

lemma Get_entries:
  "Get s i = Option.bind (map_of (entries s) i) (\<lambda>info. key_read (dev_Pub info))"
  by (simp add: Get_def key_read_def split: option.splits sum.splits)

lemma Get_dev_put:
  "key_read p = Some k \<Longrightarrow> Get (dev_put now s i p n) j = (if i = j then Some k else Get s j)"
  by (simp add: Get_entries AList.update_conv' empty_device_def)

lemma Get_dev_del: "Get (dev_del s i) j = (if i = j then None else Get s j)"
  by (simp add: Get_entries AList.delete_conv')

interpretation device_allowlist: allowlist Get "dev_put now" dev_del key_read for now
  by unfold_locales (simp_all add: Get_dev_put Get_dev_del)

text \<open>\<open>Add\<close> and \<open>Remove\<close> branch by branch. The map changes before the file is written.\<close>

lemma persistLocked_err_iff:
  "snd (persistLocked w d s) = None \<longleftrightarrow> is_ok (store_text s) \<and> w = WriteOk"
proof (cases "store_text s")
  case (Inr t)
  then show ?thesis
    by (cases w) (simp_all add: persistLocked_def os_write_def)
qed (simp add: persistLocked_def)

lemma persistLocked_ok:
  "persistLocked w d s = (d', None) \<Longrightarrow> \<exists>t. store_text s = Inr t \<and> d' = d(path s \<mapsto> t)"
  by (auto simp: persistLocked_def os_write_def split: sum.splits prod.splits option.splits write_outcome.splits)

lemma persistLocked_other: "p \<noteq> path s \<Longrightarrow> fst (persistLocked w d s) p = d p"
  by (auto simp: persistLocked_def os_write_other split: sum.splits prod.splits option.splits)
     (metis fst_conv os_write_other)+

lemma Add_store:
  "snd (fst (Add now w d s i p n)) =
     (if is_ok (DecodeKey p) \<and> devices s \<noteq> None then dev_put now s i p n else s)"
  by (auto simp: Add_def dev_put_def Let_def split: sum.splits option.splits prod.splits)

lemma Add_result:
  "snd (Add now w d s i p n) =
     (case DecodeKey p of
        Inl err \<Rightarrow> Fail err
      | Inr _ \<Rightarrow>
          (if devices s = None then Panic ''assignment to entry in nil map''
           else case snd (persistLocked w d (dev_put now s i p n)) of None \<Rightarrow> Ret () | Some err \<Rightarrow> Fail err))"
  by (auto simp: Add_def dev_put_def Let_def split: sum.splits option.splits prod.splits)

lemma Add_disk:
  "is_ok (DecodeKey p) \<Longrightarrow> devices s \<noteq> None \<Longrightarrow>
     fst (fst (Add now w d s i p n)) = fst (persistLocked w d (dev_put now s i p n))"
  by (auto simp: Add_def dev_put_def Let_def split: sum.splits option.splits prod.splits)

lemma Remove_store:
  "snd (fst (Remove w d s i)) = (if map_of (entries s) i = None then s else dev_del s i)"
  by (auto simp: Remove_def dev_del_def Let_def split: option.splits prod.splits)

lemma Remove_result:
  "map_of (entries s) i \<noteq> None \<Longrightarrow> snd (Remove w d s i) = snd (persistLocked w d (dev_del s i))"
  by (auto simp: Remove_def dev_del_def Let_def split: option.splits prod.splits)

lemma Remove_disk:
  "map_of (entries s) i \<noteq> None \<Longrightarrow> fst (fst (Remove w d s i)) = fst (persistLocked w d (dev_del s i))"
  by (auto simp: Remove_def dev_del_def Let_def split: option.splits prod.splits)

text \<open>After \<open>Remove\<close>, whatever it returned, the device is not paired; the others are as before.\<close>

lemma Get_Remove:
  "Get (snd (fst (Remove w d s i))) j = (if i = j then None else Get s j)"
  using Get_dev_del [of s i j] by (auto simp: Remove_store Get_entries)

section \<open>Well-formed stores\<close>

definition wf_store :: "deviceStore \<Rightarrow> bool" where
  "wf_store s = distinct (map fst (entries s))"

lemma wf_dev_put: "wf_store s \<Longrightarrow> wf_store (dev_put now s i p n)"
  by (simp add: wf_store_def distinct_update)

lemma wf_dev_del: "wf_store s \<Longrightarrow> wf_store (dev_del s i)"
  by (simp add: wf_store_def distinct_delete)

lemma distinct_decode_devices:
  "decode_devices kvs m = Some m' \<Longrightarrow> distinct (map fst m) \<Longrightarrow> distinct (map fst m')"
  by (induction kvs m rule: decode_devices.induct) (auto simp: distinct_update split: option.splits)

lemma distinct_decode_legacy:
  "decode_legacy kvs m = Some m' \<Longrightarrow> distinct (map fst m) \<Longrightarrow> distinct (map fst m')"
  by (induction kvs m rule: decode_legacy.induct) (auto simp: distinct_update split: option.splits)

lemma wf_LoadDevices: "LoadDevices f d p = Inr s \<Longrightarrow> wf_store s"
  by (auto simp: LoadDevices_def wf_store_def entries_def
      dest: distinct_decode_devices distinct_decode_legacy
      split: read_result.splits option.splits json.splits)

lemma Count_dev_put:
  "wf_store s \<Longrightarrow> Count (dev_put now s i p n) = (if map_of (entries s) i = None then Suc (Count s) else Count s)"
proof -
  have "length (AList.update k v xs) = (if map_of xs k = None then Suc (length xs) else length xs)"
    for k :: string and v :: deviceInfo and xs
    by (induction xs) auto
  then show ?thesis by (simp add: Count_def)
qed

section \<open>The file is read back\<close>

text \<open>
  A device survives a restart as it was, without the monotonic reading of its pairing time. The
  texts have to be valid UTF-8, which everything that arrived in a relay frame is, and the zone a
  whole number of minutes.
\<close>

definition stored :: "deviceInfo \<Rightarrow> deviceInfo" where
  "stored d = d\<lparr>dev_ID := [], PairedAt := strip_mono (PairedAt d)\<rparr>"

definition storable :: "string \<times> deviceInfo \<Rightarrow> bool" where
  "storable kd =
     (valid_utf8 (fst kd) \<and> valid_utf8 (dev_Pub (snd kd)) \<and> valid_utf8 (dev_Name (snd kd))
      \<and> 60 dvd PairedZone (snd kd) \<and> dev_ID (snd kd) = [])"

lemma device_fields_lookup:
  "find_field device_fields ''pub'' = Some (\<lambda>v d. map_option (\<lambda>x. d\<lparr>dev_Pub := x\<rparr>) (into_string v (dev_Pub d)))"
  "find_field device_fields ''name'' = Some (\<lambda>v d. map_option (\<lambda>x. d\<lparr>dev_Name := x\<rparr>) (into_string v (dev_Name d)))"
  "find_field device_fields ''paired_at'' = Some (\<lambda>v d.
     case v of
       JNull \<Rightarrow> Some d
     | JStr s \<Rightarrow> map_option (\<lambda>(t, z). d\<lparr>PairedAt := t, PairedZone := z\<rparr>) (time_parse s)
     | _ \<Rightarrow> None)"
  by (simp_all add: find_field_def device_fields_def fold_rune_def)

lemma decode_device_members:
  assumes "time_text (PairedAt d) (PairedZone d) = Inr ts" and "storable (k, d)"
  shows "decode_struct device_fields (JObj (device_members d ts)) empty_device = Some (stored d)"
proof -
  from time_parse_text [OF assms(1)] assms(2)
  have p: "time_parse ts = Some (strip_mono (PairedAt d), PairedZone d)"
    by (simp add: storable_def)
  with assms(2) show ?thesis
    by (cases d) (simp add: decode_struct_def device_members_def device_fields_lookup member_defs
        empty_device_def stored_def storable_def)
qed

lemma device_members_wf:
  assumes "time_text (PairedAt d) (PairedZone d) = Inr ts" and "storable (k, d)"
  shows "list_all wf_member (device_members d ts)"
proof -
  have "valid_utf8 ts" using time_text_ascii [OF assms(1)] by (intro valid_utf8_ascii) auto
  with assms(2) show ?thesis
    by (simp add: device_members_def list_all_members valid_utf8_ascii storable_def)
qed

lemma map_json_decode:
  assumes "map_json m = Inr js" and "list_all storable m"
  shows "decode_devices js acc = Some (foldl (\<lambda>a (k, d). AList.update k (stored d) a) acc m)
    \<and> (\<forall>(k, v)\<in>set js. valid_utf8 k \<and> wf_json v \<and> depth v = 1)"
  using assms
proof (induction m arbitrary: js acc rule: map_json.induct)
  case (2 k d ds)
  then obtain ts js' where j: "time_text (PairedAt d) (PairedZone d) = Inr ts" "map_json ds = Inr js'"
      "js = (k, JObj (device_members d ts)) # js'"
    by (auto simp: device_json_def split: sum.splits)
  from 2(3) have st: "storable (k, d)" "list_all storable ds" by auto
  have "wf_json (JObj (device_members d ts))" "depth (JObj (device_members d ts)) = 1"
    using device_members_wf [OF j(1) st(1)] wf_JObj_members depth_JObj_members by auto
  with 2(1) [OF _ j(2) st(2), of _ "AList.update k (stored d) acc"] decode_device_members [OF j(1) st(1)]
    j st(1) show ?case
    by (auto simp: storable_def device_json_def simp del: wf_json.simps depth.simps)
qed simp

lemma map_of_foldl_update:
  "distinct (map fst m) \<Longrightarrow>
     map_of (foldl (\<lambda>a (k, d). AList.update k (f d) a) acc m) k
       = (case map_of m k of None \<Rightarrow> map_of acc k | Some d \<Rightarrow> Some (f d))"
proof (induction m arbitrary: acc)
  case (Cons kd m)
  then show ?case
    by (cases kd) (auto simp: AList.update_conv' map_of_eq_None_iff [THEN iffD2] split: option.splits)
qed simp

lemma map_of_sort_key:
  fixes m :: device_map
  assumes "distinct (map fst m)"
  shows "map_of (sort_key fst m) = map_of m" and "distinct (map fst (sort_key fst m))"
proof -
  have "mset (map fst (sort_key fst m)) = mset (map fst m)" by simp
  from mset_eq_imp_distinct_iff [OF this] assms show d: "distinct (map fst (sort_key fst m))" by simp
  show "map_of (sort_key fst m) = map_of m"
    by (rule map_of_inject_set [OF d assms, THEN iffD2]) simp
qed

text \<open>Marshalling fails only on a time that cannot be printed.\<close>

lemma map_json_ok:
  "\<forall>(k, d)\<in>set m. is_ok (time_text (PairedAt d) (PairedZone d)) \<Longrightarrow> is_ok (map_json m)"
proof (induction m rule: map_json.induct)
  case (2 k d ds)
  then obtain ts where ts: "time_text (PairedAt d) (PairedZone d) = Inr ts" by (auto simp: is_ok_iff)
  moreover from 2 ts have "is_ok (map_json ds)" by (auto simp: device_json_def)
  ultimately show ?case by (auto simp: is_ok_iff device_json_def)
qed simp

lemma store_text_ok:
  "devices s = Some m \<Longrightarrow> \<forall>(k, d)\<in>set m. is_ok (time_text (PairedAt d) (PairedZone d)) \<Longrightarrow>
     is_ok (store_text s)"
  using map_json_ok [of "sort_key fst m"] by (auto simp: store_text_def is_ok_iff)

text \<open>What the file holds after a successful write is what the store held.\<close>

lemma store_text_document:
  assumes "devices s = Some m" and "list_all storable m" and "store_text s = Inr t"
  obtains js where "t = json_marshal_indent (JObj js)" "wf_json (JObj js)" "depth (JObj js) \<le> max_nesting"
    "decode_devices js [] = Some (foldl (\<lambda>a (k, d). AList.update k (stored d) a) [] (sort_key fst m))"
proof -
  from assms(1,3) obtain js where js: "map_json (sort_key fst m) = Inr js" "t = json_marshal_indent (JObj js)"
    by (auto simp: store_text_def split: sum.splits)
  have st: "list_all storable (sort_key fst m)" using assms(2) by (simp add: list_all_iff)
  from map_json_decode [OF js(1) st, of "[]"]
  have dec: "decode_devices js [] = Some (foldl (\<lambda>a (k, d). AList.update k (stored d) a) [] (sort_key fst m))"
    and wf: "\<forall>(k, v)\<in>set js. valid_utf8 k \<and> wf_json v \<and> depth v = 1"
    by auto
  have "wf_json (JObj js)" using wf by (auto simp: list_all_iff)
  moreover have "depth (JObj js) \<le> max_nesting"
  proof -
    have "\<forall>x\<in>set (map snd (map (map_prod id depth) js)). x \<le> 1" using wf by auto
    then have "foldr max (map snd (map (map_prod id depth) js)) 0 \<le> 1"
      by (induction js) auto
    then show ?thesis by (simp add: max_nesting_def)
  qed
  ultimately show thesis using that js(2) dec by blast
qed

lemma LoadDevices_store_text:
  assumes "devices s = Some m" and "wf_store s" and "list_all storable m" and "store_text s = Inr t"
    and "d p = Some t"
  shows "\<exists>s'. LoadDevices None d p = Inr s' \<and> path s' = p \<and> devices s' \<noteq> None \<and> wf_store s'
    \<and> map_of (entries s') = map_option stored \<circ> map_of m"
proof -
  let ?m = "foldl (\<lambda>a (k, d). AList.update k (stored d) a) [] (sort_key fst m)"
  obtain js where js: "t = json_marshal_indent (JObj js)" "wf_json (JObj js)" "depth (JObj js) \<le> max_nesting"
      "decode_devices js [] = Some ?m"
    by (rule store_text_document [OF assms(1,3,4)])
  then have "json_parse t = Some (JObj js)" by simp
  with js(4) assms(5) have l: "LoadDevices None d p = Inr \<lparr>path = p, devices = Some ?m\<rparr>"
    by (simp add: LoadDevices_def)
  from assms(1,2) have dm: "distinct (map fst m)" by (simp add: wf_store_def entries_def)
  have "map_of ?m k = (map_option stored \<circ> map_of m) k" for k
    using map_of_foldl_update [OF map_of_sort_key(2) [OF dm], of stored "[]" k]
    by (simp add: map_of_sort_key(1) [OF dm] split: option.splits)
  then show ?thesis using l wf_LoadDevices [OF l] by (simp add: fun_eq_iff)
qed

text \<open>A part of the text is refused.\<close>

lemma LoadDevices_torn:
  assumes "devices s = Some m" and "list_all storable m" and "store_text s = Inr t"
    and "d p = Some (take n t)" and "n < length t"
  shows "LoadDevices None d p = Inl (''secure: devices file '' @ p @ '' is corrupt'')"
proof -
  obtain js where js: "t = json_marshal_indent (JObj js)" "wf_json (JObj js)" "depth (JObj js) \<le> max_nesting"
    using store_text_document [OF assms(1-3)] by metis
  have "json_parse (take n t) = None"
    using json_torn [OF js(2) _ js(3), of "Some ''  ''" n] assms(5)
    unfolding js(1) json_marshal_indent_def by (simp add: blank_indent_def is_space_def del: render.simps)
  with assms(4) show ?thesis by (simp add: LoadDevices_def)
qed

text \<open>Everything that was read from a file can be written back to one.\<close>

lemma take_zone_minutes: "take_zone s = Some (off, rest) \<Longrightarrow> 60 dvd off"
  by (auto simp: take_zone_def split: list.splits if_splits bind_splits prod.splits)

lemma time_parse_minutes: "time_parse s = Some (t, off) \<Longrightarrow> 60 dvd off"
  by (auto simp: time_parse_def dest: take_zone_minutes split: bind_splits prod.splits if_splits)

definition storable_info :: "deviceInfo \<Rightarrow> bool" where
  "storable_info d = (valid_utf8 (dev_Pub d) \<and> valid_utf8 (dev_Name d) \<and> 60 dvd PairedZone d \<and> dev_ID d = [])"

lemma storable_split: "storable (k, d) \<longleftrightarrow> valid_utf8 k \<and> storable_info d"
  by (auto simp: storable_def storable_info_def)

lemma storable_empty [simp]: "storable_info empty_device" "valid_utf8 p \<Longrightarrow> storable_info (empty_device\<lparr>dev_Pub := p\<rparr>)"
  by (simp_all add: storable_info_def empty_device_def)

lemma device_fields_storable:
  assumes "(k, f) \<in> set device_fields" and "utf8_json v" and "storable_info x" and "f v x = Some x'"
  shows "storable_info x'"
proof -
  have zone: "60 dvd z" if "time_parse t = Some (p, z)" for t p z
    using that by (rule time_parse_minutes)
  show ?thesis
    using assms
    by (auto simp: device_fields_def storable_info_def dest: into_string_utf8 split: json.splits) (rule zone)
qed

lemma decode_device_storable:
  assumes "decode_struct device_fields v empty_device = Some d" and "utf8_json v"
  shows "storable_info d"
  using assms decode_members_invariant [of device_fields _ empty_device d storable_info, OF _ _ _ device_fields_storable]
  by (auto simp: decode_struct_def split: json.splits)

lemma storable_update:
  "list_all storable m \<Longrightarrow> storable (k, d) \<Longrightarrow> list_all storable (AList.update k d m)"
  by (induction m) auto

lemma decode_devices_storable:
  "decode_devices kvs m = Some m' \<Longrightarrow> list_all utf8_member kvs \<Longrightarrow> list_all storable m \<Longrightarrow> list_all storable m'"
proof (induction kvs m rule: decode_devices.induct)
  case (2 k v kvs m)
  then obtain d where d: "decode_struct device_fields v empty_device = Some d"
      "decode_devices kvs (AList.update k d m) = Some m'" by (auto split: option.splits)
  from 2(3,4) have "list_all utf8_member kvs" "storable (k, d)" using decode_device_storable [OF d(1)]
    by (simp_all add: storable_split utf8_member_pair)
  with 2 d show ?case by (blast intro: storable_update)
qed simp

lemma decode_legacy_storable:
  "decode_legacy kvs m = Some m' \<Longrightarrow> list_all utf8_member kvs \<Longrightarrow> list_all storable m \<Longrightarrow> list_all storable m'"
proof (induction kvs m rule: decode_legacy.induct)
  case (2 k v kvs m)
  then obtain p where p: "into_string v [] = Some p"
      "decode_legacy kvs (AList.update k (empty_device\<lparr>dev_Pub := p\<rparr>) m) = Some m'" by (auto split: option.splits)
  from 2(3) have "list_all utf8_member kvs" "storable (k, empty_device\<lparr>dev_Pub := p\<rparr>)"
    using into_string_utf8 [OF p(1)] by (simp_all add: storable_split utf8_member_pair)
  with 2 p show ?case by (blast intro: storable_update)
qed simp

lemma LoadDevices_storable:
  assumes "LoadDevices f d p = Inr s" shows "list_all storable (entries s) \<and> path s = p"
proof (cases "os_read f d p")
  case (ReadData data)
  show ?thesis
  proof (cases "json_parse data")
    case None
    with assms ReadData show ?thesis by (simp add: LoadDevices_def)
  next
    case (Some v)
    with json_parse_utf8 [OF Some] assms ReadData show ?thesis
      by (cases v) (auto simp: LoadDevices_def entries_def
          dest: decode_devices_storable decode_legacy_storable split: option.splits)
  qed
qed (use assms in \<open>auto simp: LoadDevices_def entries_def\<close>)

text \<open>The allowlist a successful operation leaves in memory is the one the next start loads.\<close>

definition storable_store :: "deviceStore \<Rightarrow> bool" where
  "storable_store s = (wf_store s \<and> devices s \<noteq> None \<and> list_all storable (entries s))"

lemma reload_after_write:
  assumes "storable_store s" and "persistLocked w d s = (d', None)"
  shows "\<exists>s'. LoadDevices None d' (path s) = Inr s' \<and> storable_store s' \<and> path s' = path s \<and> Get s' = Get s
    \<and> map_of (entries s') = map_option stored \<circ> map_of (entries s)"
proof -
  from assms(1) obtain m where m: "devices s = Some m" by (auto simp: storable_store_def)
  from persistLocked_ok [OF assms(2)] obtain t where t: "store_text s = Inr t" "d' = d(path s \<mapsto> t)" by blast
  have "list_all storable m" "wf_store s" using assms(1) m by (auto simp: storable_store_def)
  from LoadDevices_store_text [OF m this(2,1) t(1), of d' "path s"] obtain s' where s':
    "LoadDevices None d' (path s) = Inr s'" "path s' = path s" "devices s' \<noteq> None" "wf_store s'"
    "map_of (entries s') = map_option stored \<circ> map_of m"
    by (auto simp: t(2))
  moreover have "Get s' j = Get s j" for j
    by (cases "map_of m j") (simp_all add: Get_entries s'(5) m stored_def)
  ultimately show ?thesis using LoadDevices_storable [OF s'(1)] m
    by (auto simp: storable_store_def)
qed

text \<open>
  Whatever becomes of the write, the next start sees all of it or nothing of it: the new allowlist, the
  file as it was, or a file it refuses.
\<close>

definition corrupt_devices :: "string \<Rightarrow> deviceStore result" where
  "corrupt_devices p = Inl (''secure: devices file '' @ p @ '' is corrupt'')"

lemma persist_all_or_nothing:
  assumes "storable_store s" and "persistLocked w d s = (d', e)"
  shows "(\<exists>s'. LoadDevices None d' (path s) = Inr s' \<and> storable_store s' \<and> Get s' = Get s
      \<and> map_of (entries s') = map_option stored \<circ> map_of (entries s))
    \<or> e \<noteq> None \<and> (d' = d \<or> LoadDevices None d' (path s) = corrupt_devices (path s))"
proof (cases "store_text s")
  case (Inl err)
  with assms(2) show ?thesis by (auto simp: persistLocked_def)
next
  case (Inr t)
  have whole: ?thesis if "d' = d(path s \<mapsto> t)"
    using reload_after_write [OF assms(1), of WriteOk d d'] Inr that by (simp add: persistLocked_def) blast
  show ?thesis
  proof (cases w)
    case WriteOk
    with assms(2) Inr whole show ?thesis by (simp add: persistLocked_def)
  next
    case (WriteRefused err)
    with assms(2) Inr show ?thesis by (auto simp: persistLocked_def os_write_def)
  next
    case (WriteShort n err)
    with assms(2) Inr have d': "d' = d(path s \<mapsto> take n t)" "e \<noteq> None"
      by (auto simp: persistLocked_def os_write_def)
    obtain m where m: "devices s = Some m" "list_all storable m"
      using assms(1) by (auto simp: storable_store_def)
    show ?thesis
    proof (cases "n < length t")
      case True
      with LoadDevices_torn [OF m Inr, of d' "path s" n] d' show ?thesis by (simp add: corrupt_devices_def)
    next
      case False
      with whole d'(1) show ?thesis by simp
    qed
  qed
qed

lemma Add_persisted:
  assumes "Add now w d s i p n = ((d', s'), Ret ())"
  shows "devices s \<noteq> None" and "s' = dev_put now s i p n" and "persistLocked w d (dev_put now s i p n) = (d', None)"
proof -
  from assms have dec: "is_ok (DecodeKey p)" and dev: "devices s \<noteq> None"
    by (auto simp: Add_def split: sum.splits option.splits)
  with assms Add_store [of now w d s i p n] have s': "s' = dev_put now s i p n" by simp
  then show "devices s \<noteq> None" "s' = dev_put now s i p n" using dev by simp_all
  show "persistLocked w d (dev_put now s i p n) = (d', None)"
    using assms dec dev Add_result [of now w d s i p n] Add_disk [OF dec dev, of now w d i n] s'
    by (auto simp: prod_eq_iff split: sum.splits option.splits)
qed

lemma storable_put:
  assumes "storable_store s" and "valid_utf8 i" and "valid_utf8 p" and "valid_utf8 n" and "60 dvd snd now"
  shows "storable_store (dev_put now s i p n)"
proof -
  have "list_all storable (entries (dev_put now s i p n))"
    using assms by (simp add: storable_store_def) (intro storable_update, simp_all add: storable_def empty_device_def)
  with assms(1) wf_dev_put [of s now i p n] show ?thesis by (simp add: storable_store_def dev_put_def)
qed

lemma storable_del: "storable_store s \<Longrightarrow> storable_store (dev_del s i)"
  using wf_dev_del [of s i]
  by (auto simp: storable_store_def list_all_iff AList.delete_eq, simp add: dev_del_def)

section \<open>Listing\<close>

lemma mset_insert_back: "mset (insert_back lt x ys) = add_mset x (mset ys)"
  by (induction lt x ys rule: insert_back.induct) auto

lemma mset_sort_slice: "mset (sort_slice lt xs) = mset xs"
proof -
  have "mset (foldl (\<lambda>acc x. insert_back lt x acc) acc xs) = mset acc + mset xs" for acc
    by (induction xs arbitrary: acc) (auto simp: mset_insert_back)
  then show ?thesis by (simp add: sort_slice_def)
qed

text \<open>For an order given by a key, the result is sorted by the key.\<close>

lemma sorted_insert_back:
  fixes f :: "'a \<Rightarrow> 'b :: linorder"
  assumes "\<forall>a\<in>set (x # ys). \<forall>b\<in>set (x # ys). lt a b \<longleftrightarrow> f a < f b"
    and "sorted (map f (rev ys))"
  shows "sorted (map f (rev (insert_back lt x ys)))"
  using assms
proof (induction ys)
  case (Cons y ys)
  have set: "set (insert_back lt x ys) = insert x (set ys)"
    using mset_insert_back [of lt x ys] by (metis set_mset_add_mset_insert set_mset_mset)
  from Cons show ?case by (auto simp: sorted_append set)
qed simp

lemma sorted_sort_slice:
  fixes f :: "'a \<Rightarrow> 'b :: linorder"
  assumes "\<forall>a\<in>set xs. \<forall>b\<in>set xs. lt a b \<longleftrightarrow> f a < f b"
  shows "sorted (map f (sort_slice lt xs))"
proof -
  have "sorted (map f (rev (foldl (\<lambda>acc x. insert_back lt x acc) acc xs)))"
    if "\<forall>a\<in>set (acc @ xs). \<forall>b\<in>set (acc @ xs). lt a b \<longleftrightarrow> f a < f b" "sorted (map f (rev acc))" for acc
    using that
  proof (induction xs arbitrary: acc)
    case (Cons x xs)
    have set: "set (insert_back lt x acc) = insert x (set acc)"
      using mset_insert_back [of lt x acc] by (metis set_mset_add_mset_insert set_mset_mset)
    have "sorted (map f (rev (insert_back lt x acc)))"
      by (rule sorted_insert_back) (use Cons.prems in auto)
    with Cons show ?case by (simp add: set)
  qed simp
  from this [of "[]"] assms show ?thesis by (simp add: sort_slice_def)
qed

section \<open>Properties\<close>

text \<open>What an operation on the allowlist does to the file, as one write of the store it leaves.\<close>

lemma Add_write:
  assumes "storable_store s" and "Add now w d s i p n = ((d', s'), r)"
  shows "d' = d \<and> r \<noteq> Ret () \<and> s' = s
    \<or> is_ok (DecodeKey p) \<and> s' = dev_put now s i p n
      \<and> (\<exists>e. persistLocked w d s' = (d', e) \<and> (r = Ret () \<longleftrightarrow> e = None))"
proof -
  have dev: "devices s \<noteq> None" using assms(1) by (simp add: storable_store_def)
  show ?thesis
  proof (cases "is_ok (DecodeKey p)")
    case False
    with assms(2) show ?thesis by (auto simp: Add_def is_ok_iff split: sum.splits)
  next
    case True
    with assms(2) dev Add_store [of now w d s i p n] have s': "s' = dev_put now s i p n" by simp
    moreover have "d' = fst (persistLocked w d s')" using Add_disk [OF True dev, of now w d i n] assms(2) s' by simp
    moreover have "r = Ret () \<longleftrightarrow> snd (persistLocked w d s') = None"
      using Add_result [of now w d s i p n] assms(2) True dev s' by (auto simp: is_ok_iff split: option.splits)
    ultimately show ?thesis using True by (metis prod.collapse)
  qed
qed

lemma Remove_write:
  assumes "Remove w d s i = ((d', s'), e)"
  shows "d' = d \<and> e \<noteq> None \<and> s' = s \<or> s' = dev_del s i \<and> persistLocked w d s' = (d', e)"
  using Remove_store [of w d s i] Remove_result [of s i w d] Remove_disk [of s i w d] assms
  by (cases "map_of (entries s) i") (auto simp: Remove_def prod_eq_iff)

text \<open>
  C22. The device file is all or nothing. Whatever becomes of the write behind a pairing or a removal
  (done, refused, or broken off after any number of bytes), the next start either loads exactly the
  allowlist that was in memory, with the same keys, names and pairing times, or the file is as it was
  before, or it is refused as corrupt; it is never read as another allowlist. After a success it
  is the first. This holds for every store that was loaded from a file, or grown from one by devices
  with valid UTF-8 texts.
\<close>

theorem device_file_all_or_nothing:
  assumes "storable_store s" and "valid_utf8 i" and "valid_utf8 p" and "valid_utf8 n" and "60 dvd snd now"
    and "Add now w d s i p n = ((d', s'), r) \<and> ok = (r = Ret ()) \<or> Remove w d s i = ((d', s'), e) \<and> ok = (e = None)"
  shows "(\<exists>s2. LoadDevices None d' (path s) = Inr s2 \<and> storable_store s2 \<and> Get s2 = Get s'
      \<and> map_of (entries s2) = map_option stored \<circ> map_of (entries s'))
    \<or> \<not> ok \<and> (d' = d \<or> LoadDevices None d' (path s) = corrupt_devices (path s))"
  using assms(6)
proof (elim disjE conjE)
  assume a: "Add now w d s i p n = ((d', s'), r)" "ok = (r = Ret ())"
  from Add_write [OF assms(1) a(1)] a(2) show ?thesis
  proof (elim disjE conjE exE)
    fix e'
    assume "s' = dev_put now s i p n" "persistLocked w d s' = (d', e')" "(r = Ret ()) = (e' = None)"
    with persist_all_or_nothing [OF storable_put [OF assms(1-5)], of w d d' e'] a(2) show ?thesis
      by (simp add: dev_put_def)
  qed simp
next
  assume r: "Remove w d s i = ((d', s'), e)" "ok = (e = None)"
  from Remove_write [OF r(1)] r(2) show ?thesis
  proof (elim disjE conjE)
    assume "s' = dev_del s i" "persistLocked w d s' = (d', e)"
    with persist_all_or_nothing [OF storable_del [OF assms(1), of i], of w d d' e] r(2) show ?thesis
      by (simp add: dev_del_def)
  qed simp
qed

definition new_store :: deviceStore where
  "new_store = \<lparr>path = ''devices.json'', devices = Some []\<rparr>"

lemma zero_time_text: "is_ok (time_text zero_time 0)"
  by (simp add: time_text_def zero_time_def days_before_year_def unix_days_def unix_to_internal_def second_def)

theorem device_file_all_or_nothing_witness:
  "\<exists>d' s' t. Add (zero_time, 0) (WriteShort 1 ''disk full'') Map.empty new_store ''phone'' (EncodeKey (replicate 32 CHR 0x02)) ''Tab''
       = ((d', s'), Fail ''secure: write devices: disk full'')
     \<and> d' ''devices.json'' = Some ''{'' \<and> Get s' ''phone'' = Some t \<and> LoadDevices None d' ''devices.json'' = corrupt_devices ''devices.json''"
proof -
  let ?p = "EncodeKey (replicate 32 CHR 0x02)"
  let ?s' = "dev_put (zero_time, 0) new_store ''phone'' ?p ''Tab''"
  have p: "valid_utf8 ?p" unfolding EncodeKey_def by (rule valid_utf8_ascii) (rule ballI, rule std_encode_ascii)
  have st: "storable_store new_store" by (simp add: storable_store_def wf_store_def entries_def new_store_def)
  have key: "DecodeKey ?p = Inr (replicate 32 CHR 0x02)" by (simp add: DecodeKey_EncodeKey)
  have "is_ok (store_text ?s')"
    by (rule store_text_ok [where m = "entries ?s'"])
       (simp_all add: zero_time_text dev_put_def, simp add: entries_def new_store_def zero_time_text)
  then obtain js where t: "store_text ?s' = Inr (json_marshal_indent (JObj js))"
    by (auto simp: store_text_def is_ok_iff dev_put_def split: sum.splits)
  have one: "take 1 (json_marshal_indent (JObj js)) = ''{''" by (simp add: json_marshal_indent_def bracketed_def)
  have "persistLocked (WriteShort 1 ''disk full'') Map.empty ?s'
      = (Map.empty(''devices.json'' \<mapsto> ''{''), Some ''secure: write devices: disk full'')"
    using t one by (simp add: persistLocked_def os_write_def) (simp add: dev_put_def new_store_def)
  then have a: "Add (zero_time, 0) (WriteShort 1 ''disk full'') Map.empty new_store ''phone'' ?p ''Tab''
      = ((Map.empty(''devices.json'' \<mapsto> ''{''), ?s'), Fail ''secure: write devices: disk full'')"
    using key by (simp add: Add_def new_store_def dev_put_def)
  have "Get ?s' ''phone'' = Some (replicate 32 CHR 0x02)"
    by (subst Get_dev_put [of _ "replicate 32 CHR 0x02"]) (simp_all add: key_read_def key)
  moreover have "json_parse ''{'' = None" by (simp add: json_parse_def max_nesting_def)
  then have bad: "LoadDevices None (Map.empty(''devices.json'' \<mapsto> ''{'')) ''devices.json'' = corrupt_devices ''devices.json''"
    by (simp add: LoadDevices_def corrupt_devices_def)
  have "LoadDevices None (Map.empty(''devices.json'' \<mapsto> ''{'')) ''devices.json'' = corrupt_devices ''devices.json''"
    using device_file_all_or_nothing [OF st _ p _ _ disjI1 [OF conjI [OF a refl]]] bad
    by (auto simp: valid_utf8_ascii_Cons new_store_def)
  ultimately show ?thesis using a by auto
qed

text \<open>
  Pairings and removals survive a restart: when an operation on the allowlist reports success,
  loading the file it wrote gives an allowlist with exactly the same keys, and the same names and
  pairing times up to the monotonic clock reading. This holds for every store that was loaded from
  a file, or grown from one by devices with valid UTF-8 texts.
\<close>

theorem devices_survive_restart:
  assumes "storable_store s" and "valid_utf8 i" and "valid_utf8 p" and "valid_utf8 n" and "60 dvd snd now"
    and "Add now w d s i p n = ((d', s'), Ret ()) \<or> Remove w d s i = ((d', s'), None)"
  shows "\<exists>s2. LoadDevices None d' (path s) = Inr s2 \<and> storable_store s2 \<and> Get s2 = Get s'
    \<and> map_of (entries s2) = map_option stored \<circ> map_of (entries s')"
  using assms(6)
proof
  assume "Add now w d s i p n = ((d', s'), Ret ())"
  note a = Add_persisted [OF this]
  from reload_after_write [OF storable_put [OF assms(1-5)], of w d d'] a show ?thesis by (auto simp: dev_put_def)
next
  assume r: "Remove w d s i = ((d', s'), None)"
  then have known: "map_of (entries s) i \<noteq> None" by (auto simp: Remove_def split: option.splits)
  with r Remove_store [of w d s i] have s': "s' = dev_del s i" by simp
  have "persistLocked w d s' = (d', None)"
    using r Remove_result [OF known, of w d] Remove_disk [OF known, of w d] s' by (simp add: prod_eq_iff)
  moreover have "path s' = path s" by (simp add: s' dev_del_def)
  ultimately show ?thesis
    using reload_after_write [OF storable_del [OF assms(1), of i], of w d d'] s' by auto
qed

theorem devices_survive_restart_witness:
  "\<exists>d' s' s2. Add (zero_time, 0) WriteOk Map.empty new_store ''phone'' (EncodeKey (replicate 32 CHR 0x02)) ''Tab''
       = ((d', s'), Ret ())
     \<and> LoadDevices None d' ''devices.json'' = Inr s2 \<and> Get s2 ''phone'' = Get s' ''phone''"
proof -
  let ?p = "EncodeKey (replicate 32 CHR 0x02)"
  let ?s' = "dev_put (zero_time, 0) new_store ''phone'' ?p ''Tab''"
  have p: "valid_utf8 ?p" unfolding EncodeKey_def by (rule valid_utf8_ascii) (rule ballI, rule std_encode_ascii)
  have st: "storable_store new_store" by (simp add: storable_store_def wf_store_def entries_def new_store_def)
  have "is_ok (store_text ?s')"
    by (rule store_text_ok [where m = "entries ?s'"])
       (simp_all add: zero_time_text dev_put_def, simp add: entries_def new_store_def zero_time_text)
  then have "snd (persistLocked WriteOk Map.empty ?s') = None" by (simp add: persistLocked_err_iff)
  then have "snd (Add (zero_time, 0) WriteOk Map.empty new_store ''phone'' ?p ''Tab'') = Ret ()"
    by (simp add: Add_result) (simp add: new_store_def)
  then obtain d' s' where a: "Add (zero_time, 0) WriteOk Map.empty new_store ''phone'' ?p ''Tab'' = ((d', s'), Ret ())"
    by (metis prod.collapse)
  from devices_survive_restart [OF st _ p _ _ disjI1 [OF a]] a show ?thesis
    by (auto simp: valid_utf8_ascii_Cons new_store_def)
qed

text \<open>
  The list of devices is complete and in order: for any iteration order of the map it holds each
  device once, with its identifier filled in, and the devices are sorted by pairing time, provided
  their times are compared by the wall clock as those of a loaded file are.
\<close>

theorem List_devices_sorted:
  assumes "mset order = mset (entries s)"
    and "\<forall>(i, d)\<in>set (entries s). \<forall>(j, e)\<in>set (entries s).
      time_before (PairedAt d) (PairedAt e) \<longleftrightarrow> wall_ns (PairedAt d) < wall_ns (PairedAt e)"
  shows "mset (List_devices order) = image_mset (\<lambda>(i, d). d\<lparr>dev_ID := i\<rparr>) (mset (entries s))
    \<and> sorted (map (\<lambda>d. wall_ns (PairedAt d)) (List_devices order))"
proof -
  let ?xs = "map (\<lambda>(i, d). d\<lparr>dev_ID := i\<rparr>) order"
  have "mset (List_devices order) = image_mset (\<lambda>(i, d). d\<lparr>dev_ID := i\<rparr>) (mset (entries s))"
    by (simp add: List_devices_def mset_sort_slice assms(1) [symmetric])
  moreover have "set order = set (entries s)" using assms(1) by (metis set_mset_mset)
  with assms(2) have "\<forall>a\<in>set ?xs. \<forall>b\<in>set ?xs.
      time_before (PairedAt a) (PairedAt b) \<longleftrightarrow> wall_ns (PairedAt a) < wall_ns (PairedAt b)"
    by fastforce
  from sorted_sort_slice [OF this]
  have "sorted (map (\<lambda>d. wall_ns (PairedAt d)) (List_devices order))" by (simp add: List_devices_def)
  ultimately show ?thesis by blast
qed

theorem List_devices_sorted_witness:
  "sorted (map (\<lambda>d. wall_ns (PairedAt d))
     (List_devices [(''b'', empty_device\<lparr>PairedAt := time_unix 20\<rparr>), (''a'', empty_device\<lparr>PairedAt := time_unix 10\<rparr>)]))"
proof -
  let ?m = "[(''b'', empty_device\<lparr>PairedAt := time_unix 20\<rparr>), (''a'', empty_device\<lparr>PairedAt := time_unix 10\<rparr>)]"
  from List_devices_sorted [of ?m "\<lparr>path = [], devices = Some ?m\<rparr>"] show ?thesis
    by (simp add: entries_def time_before_def)
qed

end
