(* ===== verification/Gateway.thy ===== *)
theory Gateway
  imports Core Crypt Pairing Devices
begin

text \<open>
  Package \<open>gateway\<close> (\<open>internal/gateway/gateway.go\<close>): the boundary between the relay and the core.

  A window is an object the gateway points to and a running \<open>handlePairRequest\<close> may still hold
  when \<open>OpenPairing\<close> has replaced it, so windows live in a heap and \<open>g_window\<close> is an address.
  Relay messages are handled one after the other; the configuration page runs beside them. Each
  handler is split where it gives up a mutex, and composed sequentially in \<open>Handle\<close>; the last
  section interleaves the parts with the operations of the page.
\<close>

record gateway =
  g_core :: core
  g_keys :: keys
  g_agentID :: string
  g_relayURL :: string
  g_devices :: deviceStore
  g_window :: "nat option"
  g_code :: string
  g_expires :: gotime

text \<open>What lies outside the gateway value: the window objects, the disk and the session layer.\<close>

record 's world =
  heap :: "window list"
  dsk :: disk
  sess :: 's

text \<open>
  What the environment contributes to one call: two clock readings, the time and zone a device is
  stored with, the outcome of the write and the random bytes of a nonce.
\<close>

record inputs =
  now1 :: gotime
  now2 :: gotime
  paired_now :: "gotime \<times> int"
  wr :: write_outcome
  rand :: "bytes result"

definition newGateway :: "core \<Rightarrow> keys \<Rightarrow> string \<Rightarrow> string \<Rightarrow> deviceStore \<Rightarrow> gateway" where
  "newGateway c k agentID relayURL store =
     \<lparr>g_core = c, g_keys = k, g_agentID = agentID, g_relayURL = relayURL, g_devices = store,
      g_window = None, g_code = [], g_expires = zero_time\<rparr>"

text \<open>\<open>OpenPairing\<close> reads the clock for the window and again for its own expiry.\<close>

definition OpenPairing ::
  "gotime \<Rightarrow> gotime \<Rightarrow> bytes result \<Rightarrow> gateway \<times> 's world \<Rightarrow> (gateway \<times> 's world) \<times> string result" where
  "OpenPairing t1 t2 rnd gw =
     (case gw of (g, w) \<Rightarrow>
        (case NewWindow t1 rnd of
           Inl err \<Rightarrow> ((g, w), Inl err)
         | Inr (win, secretB64) \<Rightarrow>
             let code = EncodePairCode (g_relayURL g) (g_agentID g) secretB64
             in ((g\<lparr>g_window := Some (length (heap w)), g_code := code, g_expires := time_add t2 WindowTTL\<rparr>,
                  w\<lparr>heap := heap w @ [win]\<rparr>), Inr code)))"

definition Pairing :: "gateway \<Rightarrow> gotime \<Rightarrow> string \<times> duration \<times> bool" where
  "Pairing g now =
     (case g_window g of
        None \<Rightarrow> ([], 0, False)
      | Some _ \<Rightarrow>
          let remaining = time_sub (g_expires g) now
          in if remaining \<le> 0 then ([], 0, False) else (g_code g, remaining, True))"

text \<open>\<open>sanitizeName\<close>: the loop over the runes, with the runes kept so far.\<close>

fun sanitize_loop :: "nat list \<Rightarrow> nat list \<Rightarrow> nat list" where
  "sanitize_loop [] clean = clean"
| "sanitize_loop (r # rs) clean =
     (let clean' = (if r \<ge> 32 \<and> r \<noteq> 127 then clean @ [r] else clean)
      in if length clean' \<ge> 40 then clean' else sanitize_loop rs clean')"

definition sanitizeName :: "string \<Rightarrow> string" where
  "sanitizeName name = string_of_runes (sanitize_loop (runes name) [])"

definition sealReply :: "nacl \<Rightarrow> bytes result \<Rightarrow> gateway \<Rightarrow> payload \<Rightarrow> bytes \<Rightarrow> string option" where
  "sealReply cr rnd g out peerPub =
     (case wire_encode out of
        Inl _ \<Rightarrow> None
      | Inr enc \<Rightarrow> (case Seal cr rnd enc peerPub (g_keys g) of Inl _ \<Rightarrow> None | Inr sealed \<Rightarrow> Some sealed))"

section \<open>Sealed payloads\<close>

text \<open>The part of \<open>handleSealed\<close> after the allowlist was asked.\<close>

definition sealedFinish ::
  "'s controller \<Rightarrow> nacl \<Rightarrow> inputs \<Rightarrow> gateway \<times> 's world \<Rightarrow> string \<Rightarrow> bytes
     \<Rightarrow> (gateway \<times> 's world) \<times> string option" where
  "sealedFinish ctrl cr i gw payload peerPub =
     (case gw of (g, w) \<Rightarrow>
        (case Open cr payload peerPub (g_keys g) of
           None \<Rightarrow> ((g, w), None)
         | Some plain \<Rightarrow>
             (case wire_decode plain of
                Inl _ \<Rightarrow> ((g, w), None)
              | Inr inp \<Rightarrow>
                  (case core_handle ctrl (g_core g) (sess w) (now1 i) (now2 i) inp of
                     ((c', s'), None) \<Rightarrow> ((g\<lparr>g_core := c'\<rparr>, w\<lparr>sess := s'\<rparr>), None)
                   | ((c', s'), Some out) \<Rightarrow>
                       ((g\<lparr>g_core := c'\<rparr>, w\<lparr>sess := s'\<rparr>), sealReply cr (rand i) g out peerPub)))))"

definition handleSealed ::
  "'s controller \<Rightarrow> nacl \<Rightarrow> inputs \<Rightarrow> gateway \<times> 's world \<Rightarrow> string \<Rightarrow> string
     \<Rightarrow> (gateway \<times> 's world) \<times> string option" where
  "handleSealed ctrl cr i gw from payload =
     (case Get (g_devices (fst gw)) from of
        None \<Rightarrow> (gw, None)
      | Some peerPub \<Rightarrow> sealedFinish ctrl cr i gw payload peerPub)"

section \<open>Pair requests\<close>

text \<open>The part that decodes the payload and takes the window, and the part after it.\<close>

definition pairStart :: "gateway \<Rightarrow> string \<Rightarrow> (payload \<times> nat option) option" where
  "pairStart g payload =
     (case wire_decode payload of
        Inl _ \<Rightarrow> None
      | Inr inp \<Rightarrow> if Kind inp \<noteq> KindPairRequest then None else Some (inp, g_window g))"

definition pairAccept :: "gateway \<Rightarrow> window \<Rightarrow> payload" where
  "pairAccept g win =
     (let agentPubB64 = EncodeKey (Pub (g_keys g))
      in empty_payload\<lparr>Kind := KindPairAccept, PubKey := agentPubB64,
           MAC := AcceptMAC win (g_agentID g) agentPubB64\<rparr>)"

definition pairFinish ::
  "inputs \<Rightarrow> gateway \<times> 's world \<Rightarrow> string \<Rightarrow> payload \<Rightarrow> nat option
     \<Rightarrow> (gateway \<times> 's world) \<times> string option outcome" where
  "pairFinish i gw from inp addr =
     (case gw of (g, w) \<Rightarrow>
        if \<not> VerifyRequest (map_option (\<lambda>a. heap w ! a) addr) (now1 i) from (PubKey inp) (MAC inp)
        then ((g, w), Ret None)
        else case Add (paired_now i) (wr i) (dsk w) (g_devices g) from (PubKey inp) (sanitizeName (Machine inp)) of
               ((d', s'), res) \<Rightarrow>
                 let g' = g\<lparr>g_devices := s'\<rparr>; w' = w\<lparr>dsk := d'\<rparr>
                 in case res of
                      Panic m \<Rightarrow> ((g', w'), Panic m)
                    | Fail _ \<Rightarrow> ((g', w'), Ret None)
                    | Ret _ \<Rightarrow>
                        let a = the addr; win = Consume (heap w ! a)
                        in ((g', w'\<lparr>heap := (heap w)[a := win]\<rparr>),
                            case wire_encode (pairAccept g win) of
                              Inl _ \<Rightarrow> Ret None
                            | Inr enc \<Rightarrow> Ret (Some enc)))"

definition handlePairRequest ::
  "inputs \<Rightarrow> gateway \<times> 's world \<Rightarrow> string \<Rightarrow> string \<Rightarrow> (gateway \<times> 's world) \<times> string option outcome" where
  "handlePairRequest i gw from payload =
     (case pairStart (fst gw) payload of
        None \<Rightarrow> (gw, Ret None)
      | Some (inp, addr) \<Rightarrow> pairFinish i gw from inp addr)"

definition Handle ::
  "'s controller \<Rightarrow> nacl \<Rightarrow> inputs \<Rightarrow> gateway \<times> 's world \<Rightarrow> string \<Rightarrow> string
     \<Rightarrow> (gateway \<times> 's world) \<times> string option outcome" where
  "Handle ctrl cr i gw from payload =
     (if IsSealed payload
      then (case handleSealed ctrl cr i gw from payload of (gw', r) \<Rightarrow> (gw', Ret r))
      else handlePairRequest i gw from payload)"

text \<open>The operations of the page on the allowlist, through \<open>Devices\<close>.\<close>

definition unpair ::
  "write_outcome \<Rightarrow> gateway \<times> 's world \<Rightarrow> string \<Rightarrow> (gateway \<times> 's world) \<times> string option" where
  "unpair wo gw i =
     (case gw of (g, w) \<Rightarrow>
        (case Remove wo (dsk w) (g_devices g) i of
           ((d', s'), err) \<Rightarrow> ((g\<lparr>g_devices := s'\<rparr>, w\<lparr>dsk := d'\<rparr>), err)))"

section \<open>Names\<close>

definition shown_rune :: "nat \<Rightarrow> bool" where
  "shown_rune r = (r \<ge> 32 \<and> r \<noteq> 127)"

lemma sanitize_loop_filter:
  "length clean < 40 \<Longrightarrow> sanitize_loop rs clean = take 40 (clean @ filter shown_rune rs)"
  by (induction rs clean rule: sanitize_loop.induct)
     (auto simp: shown_rune_def Let_def not_le le_Suc_eq take_Cons')

lemma sanitizeName_filter: "sanitizeName s = string_of_runes (take 40 (filter shown_rune (runes s)))"
  by (simp add: sanitizeName_def sanitize_loop_filter)

lemma runes_sanitizeName: "runes (sanitizeName s) = take 40 (filter shown_rune (runes s))"
  unfolding sanitizeName_filter
  by (rule runes_string_of_runes) (auto dest!: in_set_takeD dest: runes_valid)

lemma valid_utf8_sanitizeName: "valid_utf8 (sanitizeName s)"
  unfolding sanitizeName_filter
  by (rule valid_utf8_string_of_runes) (auto dest!: in_set_takeD dest: runes_valid)

section \<open>What a handler changes\<close>

lemma sealedFinish_frame:
  assumes "sealedFinish ctrl cr i (g, w) payload peer = ((g', w'), r)"
  shows "g' = g\<lparr>g_core := g_core g'\<rparr>" and "w' = w\<lparr>sess := sess w'\<rparr>"
  using assms by (auto simp: sealedFinish_def split: option.splits sum.splits prod.splits)

lemma handleSealed_frame:
  assumes "handleSealed ctrl cr i (g, w) from payload = ((g', w'), r)"
  shows "g' = g\<lparr>g_core := g_core g'\<rparr>" and "w' = w\<lparr>sess := sess w'\<rparr>"
  using assms sealedFinish_frame [of ctrl cr i g w payload]
  by (auto simp: handleSealed_def split: option.splits)

text \<open>The command a sealed payload carries, when it reaches the core.\<close>

definition delivered :: "nacl \<Rightarrow> gateway \<Rightarrow> string \<Rightarrow> string \<Rightarrow> (bytes \<times> payload) option" where
  "delivered cr g from payload =
     Option.bind (Get (g_devices g) from) (\<lambda>peer.
     Option.bind (Open cr payload peer (g_keys g)) (\<lambda>plain.
       case wire_decode plain of Inl _ \<Rightarrow> None | Inr inp \<Rightarrow> Some (peer, inp)))"

lemma handleSealed_delivered:
  "handleSealed ctrl cr i (g, w) from payload =
     (case delivered cr g from payload of
        None \<Rightarrow> ((g, w), None)
      | Some (peer, inp) \<Rightarrow>
          (case core_handle ctrl (g_core g) (sess w) (now1 i) (now2 i) inp of
             ((c', s'), out) \<Rightarrow>
               ((g\<lparr>g_core := c'\<rparr>, w\<lparr>sess := s'\<rparr>),
                Option.bind out (\<lambda>out. sealReply cr (rand i) g out peer))))"
  by (auto simp: handleSealed_def sealedFinish_def delivered_def split: option.splits sum.splits prod.splits)

lemma delivered_SomeD:
  "delivered cr g from payload = Some (peer, inp) \<Longrightarrow>
     \<exists>plain. Get (g_devices g) from = Some peer \<and> Open cr payload peer (g_keys g) = Some plain
       \<and> wire_decode plain = Inr inp"
  by (auto simp: delivered_def split: bind_splits sum.splits)

lemma delivered_sealed: "delivered cr g from payload \<noteq> None \<Longrightarrow> IsSealed payload"
  by (auto simp: delivered_def Open_def split: option.splits sum.splits if_splits bind_splits)

lemma pairFinish_rejected:
  "\<not> VerifyRequest (map_option (\<lambda>a. heap w ! a) addr) (now1 i) from (PubKey inp) (MAC inp) \<Longrightarrow>
     pairFinish i (g, w) from inp addr = ((g, w), Ret None)"
  by (simp add: pairFinish_def)

lemma pairFinish_frame:
  assumes "pairFinish i (g, w) from inp addr = ((g', w'), r)"
  shows "g' = g\<lparr>g_devices := g_devices g'\<rparr>" and "sess w' = sess w"
    and "length (heap w') = length (heap w)"
  using assms
  by (auto simp: pairFinish_def Let_def split: if_splits prod.splits outcome.splits)

text \<open>The window changes only when a device was paired, and then it was open before.\<close>

lemma pairFinish_heap:
  assumes "pairFinish i (g, w) from inp addr = ((g', w'), r)"
  shows "heap w' = heap w \<or>
    (\<exists>a. addr = Some a \<and> heap w' = (heap w)[a := Consume (heap w ! a)]
       \<and> VerifyRequest (Some (heap w ! a)) (now1 i) from (PubKey inp) (MAC inp)
       \<and> (\<exists>enc. r = Ret (Some enc)))"
  using assms
  by (cases addr)
     (auto simp: pairFinish_def VerifyRequest_def Let_def wire_encode_text
       split: if_splits prod.splits outcome.splits)

lemma pairFinish_devices:
  assumes "pairFinish i (g, w) from inp addr = ((g', w'), r)"
  shows "g_devices g' =
    (if VerifyRequest (map_option (\<lambda>a. heap w ! a) addr) (now1 i) from (PubKey inp) (MAC inp)
        \<and> is_ok (DecodeKey (PubKey inp)) \<and> devices (g_devices g) \<noteq> None
     then dev_put (paired_now i) (g_devices g) from (PubKey inp) (sanitizeName (Machine inp))
     else g_devices g)"
proof -
  let ?A = "Add (paired_now i) (wr i) (dsk w) (g_devices g) from (PubKey inp) (sanitizeName (Machine inp))"
  have "g_devices g' = (if VerifyRequest (map_option (\<lambda>a. heap w ! a) addr) (now1 i) from (PubKey inp) (MAC inp)
      then snd (fst ?A) else g_devices g)"
    using assms by (auto simp: pairFinish_def Let_def split: if_splits prod.splits outcome.splits)
  then show ?thesis by (auto simp: Add_store)
qed

lemma pairFinish_reply:
  assumes "pairFinish i (g, w) from inp addr = ((g', w'), Ret (Some enc))"
  shows "\<exists>a. addr = Some a \<and> VerifyRequest (Some (heap w ! a)) (now1 i) from (PubKey inp) (MAC inp)
    \<and> is_ok (DecodeKey (PubKey inp)) \<and> devices (g_devices g) \<noteq> None
    \<and> enc = wire_text (pairAccept g (heap w ! a))
    \<and> heap w' = (heap w)[a := Consume (heap w ! a)]"
  using assms
  by (cases addr)
     (auto simp: pairFinish_def VerifyRequest_def Let_def wire_encode_text Add_def pairAccept_def AcceptMAC_def
       window_mac_def Consume_def
       split: if_splits prod.splits outcome.splits sum.splits option.splits)

section \<open>End to end\<close>

text \<open>A JSON object is no sealed payload.\<close>

lemma wire_text_not_sealed [simp]: "\<not> IsSealed (wire_text p)"
  using json_marshal_object [of "payload_members p"]
  by (auto simp: wire_text_def IsSealed_def has_prefix_def sealedPrefix_def)

lemma std_encode_valid_utf8: "valid_utf8 (std_encode bs)"
  by (rule valid_utf8_ascii) (rule ballI, rule std_encode_ascii)

text \<open>What a paired device seals for the agent is delivered as it was sent.\<close>

lemma delivered_Seal:
  assumes "nacl_laws cr" and "generated cr k" and "generated cr (g_keys g)"
    and "Get (g_devices g) from = Some (Pub k)" and "valid_payload p" and "length nonce = nonceSize"
    and "Seal cr (Inr nonce) (wire_text p) (Pub (g_keys g)) k = Inr sealed"
  shows "delivered cr g from sealed = Some (Pub k, p)"
  using Open_Seal [OF assms(1,2,3,6,7)] assms(4,5) by (simp add: delivered_def wire_decode_text)

text \<open>And what the agent seals for the device opens there.\<close>

lemma sealReply_opens:
  assumes "nacl_laws cr" and "generated cr k" and "generated cr (g_keys g)" and "length nonce = nonceSize"
    and "sealReply cr (Inr nonce) g out (Pub k) = Some sealed"
  shows "Open cr sealed (Pub (g_keys g)) k = Some (wire_text out)"
proof -
  from assms(5) have "Seal cr (Inr nonce) (wire_text out) (Pub k) (g_keys g) = Inr sealed"
    by (auto simp: sealReply_def wire_encode_text split: sum.splits)
  from Open_Seal [OF assms(1,3,2,4) this] show ?thesis .
qed

lemma sealReply_some: "\<exists>sealed. sealReply cr (Inr nonce) g out peer = Some sealed"
  by (simp add: sealReply_def wire_encode_text Seal_def)

text \<open>The request a client builds from the secret of the code, and the run of the agent on it.\<close>

definition pairRequest :: "string \<Rightarrow> string \<Rightarrow> string \<Rightarrow> string \<Rightarrow> payload result" where
  "pairRequest secretB64 clientID pubB64 nm =
     (case RequestMAC secretB64 clientID pubB64 of
        Inl e \<Rightarrow> Inl e
      | Inr m \<Rightarrow> Inr (empty_payload\<lparr>Kind := KindPairRequest, PubKey := pubB64, MAC := m, Machine := nm\<rparr>))"

lemma kinds_valid [simp]:
  "valid_utf8 KindPairRequest" "valid_utf8 KindPairAccept" "valid_utf8 KindStatus" "valid_utf8 KindLock"
  "valid_utf8 KindLockResult" "valid_utf8 KindStatusRequest"
  by (simp_all add: kind_defs valid_utf8_ascii_Cons)

lemma pairRequest_valid:
  assumes "pairRequest secretB64 clientID pubB64 nm = Inr p" and "valid_utf8 pubB64" and "valid_utf8 nm"
  shows "valid_payload p"
  using assms std_encode_valid_utf8
  by (auto simp: pairRequest_def RequestMAC_def valid_payload_def empty_payload_def split: sum.splits)

lemma pairAccept_valid: "valid_payload (pairAccept g win)"
  by (simp add: pairAccept_def valid_payload_def empty_payload_def Let_def EncodeKey_def AcceptMAC_def
      std_encode_valid_utf8)


text \<open>A verified request whose device can be stored.\<close>

lemma pairFinish_accepts:
  assumes "VerifyRequest (Some (heap w ! a)) (now1 i) from (PubKey inp) (MAC inp)"
    and "Add (paired_now i) (wr i) (dsk w) (g_devices g) from (PubKey inp) (sanitizeName (Machine inp)) = ((d', s'), Ret ())"
  shows "pairFinish i (g, w) from inp (Some a) =
    ((g\<lparr>g_devices := s'\<rparr>, w\<lparr>dsk := d', heap := (heap w)[a := Consume (heap w ! a)]\<rparr>),
     Ret (Some (wire_text (pairAccept g (Consume (heap w ! a))))))"
proof -
  have "pairAccept (g\<lparr>g_devices := s'\<rparr>) win = pairAccept g win" for win
    by (simp add: pairAccept_def)
  with assms show ?thesis
    by (simp add: pairFinish_def Let_def wire_encode_text)
qed

lemma OpenPairing_result:
  assumes "OpenPairing t1 t2 (Inr sec) (g, w) = ((g1, w1), r)"
  shows "g_window g1 = Some (length (heap w))"
    and "heap w1 = heap w @ [\<lparr>secret = sec, expires = time_add t1 WindowTTL, used = False\<rparr>]"
    and "r = Inr (EncodePairCode (g_relayURL g) (g_agentID g) (rawurl_encode sec))"
    and "g1 = g\<lparr>g_window := g_window g1, g_code := g_code g1, g_expires := time_add t2 WindowTTL\<rparr>"
    and "dsk w1 = dsk w" and "sess w1 = sess w"
  using assms by (auto simp: OpenPairing_def NewWindow_def Let_def)

lemma OpenPairing_frame:
  assumes "OpenPairing t1 t2 rnd (g, w) = ((g1, w1), r)"
  shows "g_devices g1 = g_devices g" and "g_core g1 = g_core g" and "g_keys g1 = g_keys g"
    and "g_agentID g1 = g_agentID g" and "dsk w1 = dsk w" and "sess w1 = sess w"
    and "\<exists>ws. heap w1 = heap w @ ws"
    and "g_window g1 = g_window g \<or> g_window g1 = Some (length (heap w)) \<and> length (heap w) < length (heap w1)"
  using assms by (auto simp: OpenPairing_def Let_def split: sum.splits prod.splits)

lemma Add_ok:
  assumes "DecodeKey pub = Inr k" and "devices s \<noteq> None" and "is_ok (store_text (dev_put now s i pub nm))"
  shows "\<exists>d'. Add now WriteOk d s i pub nm = ((d', dev_put now s i pub nm), Ret ())"
proof -
  let ?s' = "dev_put now s i pub nm"
  let ?A = "Add now WriteOk d s i pub nm"
  have ok: "is_ok (DecodeKey pub)" using assms(1) by simp
  have "snd (persistLocked WriteOk d ?s') = None" using assms(3) by (simp add: persistLocked_err_iff)
  then have "snd ?A = Ret ()" using assms(1,2) by (simp add: Add_result)
  moreover have "snd (fst ?A) = ?s'" using ok assms(2) by (simp add: Add_store)
  ultimately show ?thesis by (metis prod.collapse)
qed

text \<open>
  The whole exchange: a window is opened, the client answers its code, and the agent stores the
  client, consumes the window and accepts.
\<close>

lemma pairing_run:
  assumes op: "OpenPairing t1 t2 (Inr sec) (g, w) = ((g1, w1), c)"
    and req: "pairRequest (rawurl_encode sec) from (EncodeKey pub) nm = Inr p"
    and len: "length pub = 32" and nm: "valid_utf8 nm"
    and time: "\<not> time_after (now1 i) (time_add t1 WindowTTL)"
    and st: "devices (g_devices g) \<noteq> None" "wr i = WriteOk"
      "is_ok (store_text (dev_put (paired_now i) (g_devices g) from (EncodeKey pub) (sanitizeName nm)))"
  shows "\<exists>d' win. secret win = sec
    \<and> pairStart g1 (wire_text p) = Some (p, Some (length (heap w)))
    \<and> pairFinish i (g1, w1) from p (Some (length (heap w)))
      = ((g1\<lparr>g_devices := dev_put (paired_now i) (g_devices g) from (EncodeKey pub) (sanitizeName nm)\<rparr>,
          w1\<lparr>dsk := d', heap := (heap w1)[length (heap w) := win]\<rparr>),
         Ret (Some (wire_text (pairAccept g1 win))))"
proof -
  let ?win = "\<lparr>secret = sec, expires = time_add t1 WindowTTL, used = False\<rparr>"
  note o = OpenPairing_result [OF op [unfolded sum.inject]]
  note f = OpenPairing_frame [OF op]
  have p: "Kind p = KindPairRequest" "PubKey p = EncodeKey pub" "Machine p = nm"
    "RequestMAC (rawurl_encode sec) from (EncodeKey pub) = Inr (MAC p)"
    using req by (auto simp: pairRequest_def split: sum.splits)
  have "valid_payload p"
    using pairRequest_valid [OF req _ nm] by (simp add: EncodeKey_def std_encode_valid_utf8)
  with p(1) o(1) have start: "pairStart g1 (wire_text p) = Some (p, Some (length (heap w)))"
    by (simp add: pairStart_def wire_decode_text)
  have win: "heap w1 ! length (heap w) = ?win" by (simp add: o(2))
  have "NewWindow t1 (Inr sec) = Inr (?win, rawurl_encode sec)" by (simp add: NewWindow_def)
  from request_mac_verifies [OF this p(4)] time
  have ver: "VerifyRequest (Some (heap w1 ! length (heap w))) (now1 i) from (PubKey p) (MAC p)"
    by (simp add: win p)
  obtain d' where "Add (paired_now i) WriteOk (dsk w1) (g_devices g) from (EncodeKey pub) (sanitizeName nm)
      = ((d', dev_put (paired_now i) (g_devices g) from (EncodeKey pub) (sanitizeName nm)), Ret ())"
    using Add_ok [OF _ st(1,3)] len by fastforce
  then have "Add (paired_now i) (wr i) (dsk w1) (g_devices g1) from (PubKey p) (sanitizeName (Machine p))
      = ((d', dev_put (paired_now i) (g_devices g) from (EncodeKey pub) (sanitizeName nm)), Ret ())"
    by (simp add: f(1) p st(2))
  from pairFinish_accepts [OF ver this] start show ?thesis
    by (intro exI [of _ d'] exI [of _ "Consume ?win"]) (simp add: win Consume_def)
qed

section \<open>A concrete agent\<close>

definition demo_keys :: keys where
  "demo_keys = \<lparr>Pub = replicate 32 CHR 0x01, Priv = replicate 32 CHR 0x01\<rparr>"

definition phone_keys :: keys where
  "phone_keys = \<lparr>Pub = replicate 32 CHR 0x02, Priv = replicate 32 CHR 0x02\<rparr>"

definition demo_store :: deviceStore where
  "demo_store =
     \<lparr>path = ''devices.json'', devices = Some [(''phone'', empty_device\<lparr>dev_Pub := EncodeKey (Pub phone_keys)\<rparr>)]\<rparr>"

definition demo_gateway :: gateway where
  "demo_gateway = newGateway (newCore ''pc'' ''linux'') demo_keys ''agent-1'' ''wss://relay/ws'' demo_store"

definition demo_world :: "(bool \<times> nat) world" where
  "demo_world = \<lparr>heap = [], dsk = Map.empty, sess = (False, 0)\<rparr>"

definition demo_nonce :: bytes where
  "demo_nonce = replicate 24 CHR 0x07"

definition demo_inputs :: inputs where
  "demo_inputs =
     \<lparr>now1 = at_time 1000 5, now2 = at_time 1000 5, paired_now = (at_time 1000 5, 3600), wr = WriteOk,
      rand = Inr demo_nonce\<rparr>"

definition demo_sealed :: "payload \<Rightarrow> string" where
  "demo_sealed p =
     sealedPrefix @ std_encode (demo_nonce @ box_Seal toy_nacl demo_nonce (wire_text p) (Pub demo_keys) (Priv phone_keys))"

lemma demo_generated: "generated toy_nacl demo_keys" "generated toy_nacl phone_keys"
  by (simp_all add: toy_generated demo_keys_def phone_keys_def)

lemma demo_get: "Get (g_devices demo_gateway) ''phone'' = Some (Pub phone_keys)"
  by (simp add: demo_gateway_def newGateway_def demo_store_def Get_def entries_def phone_keys_def)

lemma demo_seal:
  "Seal toy_nacl (Inr demo_nonce) (wire_text p) (Pub (g_keys demo_gateway)) phone_keys = Inr (demo_sealed p)"
  by (simp add: Seal_def demo_sealed_def demo_gateway_def newGateway_def)

lemma demo_delivered:
  "valid_payload p \<Longrightarrow> delivered toy_nacl demo_gateway ''phone'' (demo_sealed p) = Some (Pub phone_keys, p)"
  by (rule delivered_Seal [OF toy_nacl_laws demo_generated(2) _ demo_get _ _ demo_seal])
     (simp_all add: demo_generated demo_gateway_def newGateway_def demo_nonce_def nonceSize_def)

lemma demo_lock_valid: "valid_payload demo_lock"
  by (simp add: demo_lock_def valid_payload_def empty_payload_def valid_utf8_ascii_Cons)

lemma demo_time_text:
  "is_ok (time_text (at_time 1000 5) 3600)" "is_ok (time_text zero_time 0)"
  by (simp_all add: time_text_def at_time_def zero_time_def days_before_year_def unix_days_def
      unix_to_internal_def second_def)

lemma demo_pairing:
  "length (Pub phone_keys) = 32" "valid_utf8 ''Tab''"
  "\<not> time_after (now1 demo_inputs) (time_add (at_time 990 1) WindowTTL)"
  "devices (g_devices demo_gateway) \<noteq> None" "wr demo_inputs = WriteOk"
  "is_ok (store_text (dev_put (paired_now demo_inputs) (g_devices demo_gateway) ''tablet'' pub nm))"
proof -
  show "is_ok (store_text (dev_put (paired_now demo_inputs) (g_devices demo_gateway) ''tablet'' pub nm))"
    by (rule store_text_ok)
       (auto simp: dev_put_def demo_gateway_def newGateway_def demo_store_def demo_inputs_def empty_device_def
          demo_time_text entries_def)
qed (simp_all add: phone_keys_def demo_gateway_def newGateway_def demo_store_def demo_inputs_def WindowTTL_def
      go_defs at_time_def valid_utf8_ascii_Cons)

text \<open>
  C8. Pairing, end to end. The client answers the code the agent shows with a request made from
  its secret; while the window has not expired and the device file can be written, the agent
  replies with an acceptance that verifies under the same secret and carries the agent's key, and
  from then on the allowlist holds the client's key. The session is not touched.
\<close>

theorem pairing_exchange:
  assumes "OpenPairing t1 t2 (Inr sec) (g, w) = ((g1, w1), Inr code)"
    and "pairRequest (rawurl_encode sec) from (EncodeKey pub) nm = Inr p"
    and "length pub = 32" and "valid_utf8 nm"
    and "\<not> time_after (now1 i) (time_add t1 WindowTTL)"
    and "devices (g_devices g) \<noteq> None" "wr i = WriteOk"
      "is_ok (store_text (dev_put (paired_now i) (g_devices g) from (EncodeKey pub) (sanitizeName nm)))"
    and "Handle ctrl cr i (g1, w1) from (wire_text p) = ((g2, w2), r)"
  shows "Get (g_devices g2) from = Some pub \<and> sess w2 = sess w
    \<and> (\<exists>enc acc. r = Ret (Some enc) \<and> wire_decode enc = Inr acc \<and> Kind acc = KindPairAccept
      \<and> PubKey acc = EncodeKey (Pub (g_keys g))
      \<and> VerifyAcceptMAC (rawurl_encode sec) (g_agentID g) (PubKey acc) (MAC acc))"
proof -
  note f = OpenPairing_frame [OF assms(1)]
  obtain d' win where run: "secret win = sec"
    "pairStart g1 (wire_text p) = Some (p, Some (length (heap w)))"
    "pairFinish i (g1, w1) from p (Some (length (heap w)))
      = ((g1\<lparr>g_devices := dev_put (paired_now i) (g_devices g) from (EncodeKey pub) (sanitizeName nm)\<rparr>,
          w1\<lparr>dsk := d', heap := (heap w1)[length (heap w) := win]\<rparr>),
         Ret (Some (wire_text (pairAccept g1 win))))"
    using pairing_run [OF assms(1-8)] by blast
  with assms(9) have r: "r = Ret (Some (wire_text (pairAccept g1 win)))"
    and "g_devices g2 = dev_put (paired_now i) (g_devices g) from (EncodeKey pub) (sanitizeName nm)"
    and "sess w2 = sess w1"
    by (auto simp: Handle_def handlePairRequest_def)
  then have "Get (g_devices g2) from = Some pub \<and> sess w2 = sess w"
    using Get_dev_put [of "EncodeKey pub" pub] assms(3) f(6) by (simp add: key_read_def)
  moreover have "VerifyAcceptMAC (rawurl_encode sec) (g_agentID g) (EncodeKey (Pub (g_keys g)))
      (AcceptMAC win (g_agentID g) (EncodeKey (Pub (g_keys g))))"
    using accept_mac_verifies [of t1 "Inr sec" "win\<lparr>expires := time_add t1 WindowTTL, used := False\<rparr>"
        "rawurl_encode sec" "g_agentID g" "EncodeKey (Pub (g_keys g))"] run(1)
    by (cases win) (simp add: NewWindow_def AcceptMAC_def window_mac_def)
  ultimately show ?thesis using f(3,4)
    by (intro conjI exI [of _ "wire_text (pairAccept g1 win)"] exI [of _ "pairAccept g1 win"])
       (simp_all add: r wire_decode_text pairAccept_valid, simp_all add: pairAccept_def Let_def)
qed

theorem pairing_exchange_witness:
  "\<exists>p g2 w2 r. pairRequest (rawurl_encode ''secret'') ''tablet'' (EncodeKey (Pub phone_keys)) ''Tab'' = Inr p
     \<and> Handle fakeSession toy_nacl demo_inputs (fst (OpenPairing (at_time 990 1) (at_time 990 1) (Inr ''secret'') (demo_gateway, demo_world)))
         ''tablet'' (wire_text p) = ((g2, w2), r)
     \<and> Get (g_devices g2) ''tablet'' = Some (Pub phone_keys) \<and> (\<exists>enc. r = Ret (Some enc))"
proof -
  obtain g1 w1 code where op: "OpenPairing (at_time 990 1) (at_time 990 1) (Inr ''secret'') (demo_gateway, demo_world)
      = ((g1, w1), Inr code)" by (simp add: OpenPairing_def NewWindow_def Let_def)
  obtain p where p: "pairRequest (rawurl_encode ''secret'') ''tablet'' (EncodeKey (Pub phone_keys)) ''Tab'' = Inr p"
    by (simp add: pairRequest_def RequestMAC_def)
  obtain g2 w2 r where h: "Handle fakeSession toy_nacl demo_inputs (g1, w1) ''tablet'' (wire_text p) = ((g2, w2), r)"
    by (metis prod.collapse)
  from pairing_exchange [OF op p _ _ _ _ _ _ h] demo_pairing op p h show ?thesis
    by (simp only: fst_conv) blast
qed



end
