(* ===== verification/GatewayRun.thy ===== *)
theory GatewayRun
  imports Gateway
begin

text \<open>
  The interleavings of the gateway. One goroutine serves relay messages, one at a time; the
  configuration page opens pairing windows and removes devices at any moment. A handler holds no
  mutex between reading the allowlist, or the window pointer, and what follows; those are the
  points at which another operation can come in between.

  A window object is read and consumed by the relay goroutine alone, which is why the step that
  verifies and consumes it can be one step here.
\<close>

datatype phase = Idle | SealedHeld string string bytes | PairHeld string payload "nat option"

text \<open>
  The log records the address of the window behind every pairing that was answered. A panic ends
  the process, so it has no step.
\<close>

type_synonym 's sys = "(gateway \<times> 's world) \<times> phase \<times> nat list"

inductive gstep :: "'s controller \<Rightarrow> nacl \<Rightarrow> 's sys \<Rightarrow> 's sys \<Rightarrow> bool" for ctrl cr where
  open_pairing: "OpenPairing t1 t2 rnd gw = (gw', r) \<Longrightarrow> gstep ctrl cr (gw, ph, log) (gw', ph, log)"
| remove_device: "unpair wo gw i = (gw', r) \<Longrightarrow> gstep ctrl cr (gw, ph, log) (gw', ph, log)"
| get_peer: "IsSealed payload \<Longrightarrow> Get (g_devices (fst gw)) from = Some peer \<Longrightarrow>
    gstep ctrl cr (gw, Idle, log) (gw, SealedHeld from payload peer, log)"
| finish_sealed: "sealedFinish ctrl cr i gw payload peer = (gw', r) \<Longrightarrow>
    gstep ctrl cr (gw, SealedHeld from payload peer, log) (gw', Idle, log)"
| take_window: "\<not> IsSealed payload \<Longrightarrow> pairStart (fst gw) payload = Some (inp, addr) \<Longrightarrow>
    gstep ctrl cr (gw, Idle, log) (gw, PairHeld from inp addr, log)"
| finish_pair: "pairFinish i gw from inp addr = (gw', Ret r) \<Longrightarrow>
    gstep ctrl cr (gw, PairHeld from inp addr, log)
      (gw', Idle, if r = None then log else (case addr of None \<Rightarrow> log | Some a \<Rightarrow> a # log))"

inductive_cases gstepE: "gstep ctrl cr x y"

inductive greach :: "'s controller \<Rightarrow> nacl \<Rightarrow> 's sys \<Rightarrow> 's sys \<Rightarrow> bool" for ctrl cr x where
  start: "greach ctrl cr x x"
| next_step: "greach ctrl cr x y \<Longrightarrow> gstep ctrl cr y z \<Longrightarrow> greach ctrl cr x z"

definition held_addr :: "phase \<Rightarrow> nat option" where
  "held_addr ph = (case ph of PairHeld _ _ addr \<Rightarrow> addr | _ \<Rightarrow> None)"

definition gw_inv :: "'s sys \<Rightarrow> bool" where
  "gw_inv y =
     (case y of ((g, w), ph, log) \<Rightarrow>
        distinct log \<and> (\<forall>a\<in>set log. a < length (heap w) \<and> used (heap w ! a))
        \<and> (\<forall>a. g_window g = Some a \<longrightarrow> a < length (heap w))
        \<and> (\<forall>a. held_addr ph = Some a \<longrightarrow> a < length (heap w))
        \<and> wf_store (g_devices g))"

lemma unpair_frame:
  assumes "unpair wo (g, w) i = ((g', w'), r)"
  shows "g' = g\<lparr>g_devices := g_devices g'\<rparr>" and "heap w' = heap w" and "sess w' = sess w"
    and "g_devices g' = snd (fst (Remove wo (dsk w) (g_devices g) i))"
  using assms by (auto simp: unpair_def split: prod.splits)

lemma wf_Remove: "wf_store s \<Longrightarrow> wf_store (snd (fst (Remove w d s i)))"
  by (simp add: Remove_store wf_dev_del)

lemma gw_inv_open_pairing:
  assumes "OpenPairing t1 t2 rnd gw = (gw', r)" and "gw_inv (gw, ph, log)"
  shows "gw_inv (gw', ph, log)"
proof -
  obtain g w g' w' where gw: "gw = (g, w)" "gw' = (g', w')" by (cases gw; cases gw') auto
  note f = OpenPairing_frame [OF assms(1) [unfolded gw]]
  obtain ws where ws: "heap w' = heap w @ ws" using f(7) by blast
  from assms(2) have "\<forall>a. g_window g = Some a \<longrightarrow> a < length (heap w)" by (simp add: gw_inv_def gw)
  with f(8) have "\<forall>a. g_window g' = Some a \<longrightarrow> a < length (heap w')" by (auto simp: ws)
  with assms(2) f(1) show ?thesis
    by (auto simp: gw_inv_def gw ws nth_append)
qed

lemma gw_inv_unpair:
  assumes "unpair wo gw i = (gw', r)" and "gw_inv (gw, ph, log)"
  shows "gw_inv (gw', ph, log)"
proof -
  obtain g w g' w' where gw: "gw = (g, w)" "gw' = (g', w')" by (cases gw; cases gw') auto
  note f = unpair_frame [OF assms(1) [unfolded gw]]
  have "g_window g' = g_window g" using arg_cong [OF f(1), of g_window] by simp
  with assms(2) f(2,4) show ?thesis by (simp add: gw_inv_def gw wf_Remove)
qed

lemma gw_inv_finish_sealed:
  assumes "sealedFinish ctrl cr i gw payload peer = (gw', r)" and "gw_inv (gw, SealedHeld from payload peer, log)"
  shows "gw_inv (gw', Idle, log)"
proof -
  obtain g w g' w' where gw: "gw = (g, w)" "gw' = (g', w')" by (cases gw; cases gw') auto
  note f = sealedFinish_frame [OF assms(1) [unfolded gw]]
  have "g_window g' = g_window g" "g_devices g' = g_devices g" "heap w' = heap w"
    using arg_cong [OF f(1), of g_window] arg_cong [OF f(1), of g_devices] arg_cong [OF f(2), of heap]
    by simp_all
  with assms(2) show ?thesis by (simp add: gw_inv_def gw held_addr_def)
qed

text \<open>The step that pairs: the window was open, so it is not in the log, and it is used afterwards.\<close>

lemma gw_inv_finish_pair:
  assumes "pairFinish i gw from inp addr = (gw', Ret r)" and "gw_inv (gw, PairHeld from inp addr, log)"
  shows "gw_inv (gw', Idle, if r = None then log else (case addr of None \<Rightarrow> log | Some a \<Rightarrow> a # log))"
proof -
  obtain g w g' w' where gw: "gw = (g, w)" "gw' = (g', w')" by (cases gw; cases gw') auto
  note p = assms(1) [unfolded gw]
  have win: "g_window g' = g_window g" using arg_cong [OF pairFinish_frame(1) [OF p], of g_window] by simp
  have wf: "wf_store (g_devices g')"
    using pairFinish_devices [OF p] assms(2) wf_dev_put [of "g_devices g"] by (auto simp: gw_inv_def gw)
  have inv: "distinct log" "\<forall>a\<in>set log. a < length (heap w) \<and> used (heap w ! a)"
    "\<forall>a. g_window g = Some a \<longrightarrow> a < length (heap w)" "\<forall>a. addr = Some a \<longrightarrow> a < length (heap w)"
    using assms(2) by (auto simp: gw_inv_def gw held_addr_def)
  show ?thesis
  proof (cases r)
    case None
    with pairFinish_heap [OF p] have "heap w' = heap w" by auto
    with None inv win wf show ?thesis by (simp add: gw_inv_def gw held_addr_def)
  next
    case (Some enc)
    from pairFinish_reply [OF p [unfolded Some]] obtain a where a: "addr = Some a"
        "VerifyRequest (Some (heap w ! a)) (now1 i) from (PubKey inp) (MAC inp)"
        "heap w' = (heap w)[a := Consume (heap w ! a)]"
      by blast
    then have "\<not> used (heap w ! a)" by (simp add: VerifyRequest_iff window_open_def)
    with inv(2) have "a \<notin> set log" by blast
    with a inv win wf Some show ?thesis
      by (auto simp: gw_inv_def gw held_addr_def nth_list_update Consume_def)
  qed
qed

lemma gw_inv_step: "gstep ctrl cr x y \<Longrightarrow> gw_inv x \<Longrightarrow> gw_inv y"
proof (induction rule: gstep.induct)
  case (get_peer payload gw "from" peer log)
  then show ?case by (cases gw) (simp add: gw_inv_def held_addr_def)
next
  case (take_window payload gw inp addr log "from")
  then have "addr = g_window (fst gw)" by (auto simp: pairStart_def split: sum.splits if_splits)
  with take_window(3) show ?case by (cases gw) (simp add: gw_inv_def held_addr_def)
qed (blast intro: gw_inv_open_pairing gw_inv_unpair gw_inv_finish_sealed gw_inv_finish_pair)+

lemma gw_inv_reach: "greach ctrl cr x y \<Longrightarrow> gw_inv x \<Longrightarrow> gw_inv y"
  by (induction rule: greach.induct) (auto intro: gw_inv_step)

text \<open>A call of \<open>Handle\<close> that returns is a run of the steps, with nothing in between.\<close>

lemma Handle_steps:
  assumes "Handle ctrl cr i gw from payload = (gw', Ret r)"
  shows "\<exists>log'. greach ctrl cr (gw, Idle, log) (gw', Idle, log')"
proof (cases "IsSealed payload")
  case True
  with assms have h: "handleSealed ctrl cr i gw from payload = (gw', r)"
    by (auto simp: Handle_def split: prod.splits)
  show ?thesis
  proof (cases "Get (g_devices (fst gw)) from")
    case None
    with h show ?thesis by (auto simp: handleSealed_def intro: start)
  next
    case (Some peer)
    with h have "sealedFinish ctrl cr i gw payload peer = (gw', r)" by (simp add: handleSealed_def)
    with True Some show ?thesis by (blast intro: start next_step get_peer finish_sealed)
  qed
next
  case False
  with assms have h: "handlePairRequest i gw from payload = (gw', Ret r)" by (simp add: Handle_def)
  show ?thesis
  proof (cases "pairStart (fst gw) payload")
    case None
    with h show ?thesis by (auto simp: handlePairRequest_def intro: start)
  next
    case (Some ia)
    obtain inp addr where ia: "ia = (inp, addr)" by fastforce
    with h Some have "pairFinish i gw from inp addr = (gw', Ret r)" by (simp add: handlePairRequest_def)
    with False Some ia show ?thesis by (blast intro: start next_step take_window finish_pair)
  qed
qed

section \<open>The specification the gateway refines\<close>

text \<open>
  What the gateway promises, without windows, files and messages: a set of open tickets and the
  keys of the paired devices. Opening a window issues a new ticket; a device is admitted only while
  there is an open ticket, which is spent when the device is told so; a removal forgets the device.
  Nothing else happens to either.
\<close>

record promise =
  issued :: nat
  tickets :: "nat set"
  paired :: "string \<Rightarrow> bytes option"

datatype event = Issue | Admit nat string bytes bool | Forget string | Quiet

fun promised :: "promise \<Rightarrow> event \<Rightarrow> promise \<Rightarrow> bool" where
  "promised s Issue s' = (s' = s\<lparr>issued := Suc (issued s), tickets := insert (issued s) (tickets s)\<rparr>)"
| "promised s (Admit a i k told) s' =
     (a \<in> tickets s \<and> length k = 32
      \<and> s' = s\<lparr>paired := (paired s)(i \<mapsto> k), tickets := (if told then tickets s - {a} else tickets s)\<rparr>)"
| "promised s (Forget i) s' = (s' = s\<lparr>paired := (paired s)(i := None)\<rparr>)"
| "promised s Quiet s' = (s' = s)"

inductive promise_run :: "promise \<Rightarrow> event list \<Rightarrow> promise \<Rightarrow> bool" where
  run_empty: "promise_run s [] s"
| run_step: "promise_run s es s' \<Longrightarrow> promised s' e s'' \<Longrightarrow> promise_run s (e # es) s''"

text \<open>The tickets spent by a run, the last first.\<close>

fun told :: "event \<Rightarrow> nat list" where
  "told (Admit a i k b) = (if b then [a] else [])"
| "told _ = []"

definition spent :: "event list \<Rightarrow> nat list" where
  "spent es = concat (map told es)"

definition abs_gw :: "gateway \<times> 's world \<Rightarrow> promise" where
  "abs_gw gw =
     \<lparr>issued = length (heap (snd gw)), tickets = {a. a < length (heap (snd gw)) \<and> \<not> used (heap (snd gw) ! a)},
      paired = Get (g_devices (fst gw))\<rparr>"

lemma abs_gw_same:
  "heap w' = heap w \<Longrightarrow> g_devices g' = g_devices g \<Longrightarrow> abs_gw (g', w') = abs_gw (g, w)"
  by (simp add: abs_gw_def)

lemma OpenPairing_promised:
  assumes "OpenPairing t1 t2 rnd gw = (gw', r)"
  shows "\<exists>e. promised (abs_gw gw) e (abs_gw gw') \<and> told e = []"
proof -
  obtain g w g' w' where gw: "gw = (g, w)" "gw' = (g', w')" by (cases gw; cases gw') auto
  show ?thesis
  proof (cases rnd)
    case (Inl err)
    with assms gw have "promised (abs_gw gw) Quiet (abs_gw gw')" by (auto simp: OpenPairing_def NewWindow_def)
    then show ?thesis by (intro exI [of _ Quiet]) simp
  next
    case (Inr sec)
    note o = OpenPairing_result [OF assms [unfolded gw Inr]] and f = OpenPairing_frame(1) [OF assms [unfolded gw]]
    have "promised (abs_gw gw) Issue (abs_gw gw')"
      by (auto simp: abs_gw_def gw o(2) f nth_append less_Suc_eq)
    then show ?thesis by (intro exI [of _ Issue]) simp
  qed
qed

lemma unpair_promised:
  assumes "unpair wo gw i = (gw', r)"
  shows "promised (abs_gw gw) (Forget i) (abs_gw gw')"
proof -
  obtain g w g' w' where gw: "gw = (g, w)" "gw' = (g', w')" by (cases gw; cases gw') auto
  note f = unpair_frame [OF assms [unfolded gw]]
  have "Get (g_devices g') j = (if j = i then None else Get (g_devices g) j)" for j
    by (simp add: f(4) Get_Remove)
  then show ?thesis by (auto simp: abs_gw_def gw f(2))
qed

lemma pairFinish_promised:
  assumes "pairFinish i gw from inp addr = (gw', Ret r)" and "\<forall>a. addr = Some a \<longrightarrow> a < length (heap (snd gw))"
  shows "\<exists>e. promised (abs_gw gw) e (abs_gw gw')
    \<and> told e = (if r = None then [] else case addr of None \<Rightarrow> [] | Some a \<Rightarrow> [a])"
proof -
  obtain g w g' w' where gw: "gw = (g, w)" "gw' = (g', w')" by (cases gw; cases gw') auto
  note p = assms(1) [unfolded gw]
  show ?thesis
  proof (cases "VerifyRequest (map_option (\<lambda>a. heap w ! a) addr) (now1 i) from (PubKey inp) (MAC inp)
      \<and> is_ok (DecodeKey (PubKey inp)) \<and> devices (g_devices g) \<noteq> None")
    case False
    have "r = None"
    proof (cases r)
      case (Some enc)
      from pairFinish_reply [OF p [unfolded Some]] False show ?thesis by auto
    qed
    then have "heap w' = heap w" using pairFinish_heap [OF p] by auto
    moreover have "g_devices g' = g_devices g" using pairFinish_devices [OF p] False by auto
    ultimately have "abs_gw gw' = abs_gw gw" unfolding gw by (intro abs_gw_same)
    then have "promised (abs_gw gw) Quiet (abs_gw gw')" by simp
    with \<open>r = None\<close> show ?thesis by (intro exI [of _ Quiet]) simp
  next
    case True
    then obtain a k where a: "addr = Some a" and k: "DecodeKey (PubKey inp) = Inr k"
      by (cases addr) (auto simp: VerifyRequest_def is_ok_iff)
    have open_a: "a < length (heap w)" "\<not> used (heap w ! a)"
      using True a assms(2) gw by (auto simp: VerifyRequest_iff window_open_def)
    have dev: "Get (g_devices g') = (Get (g_devices g))(from \<mapsto> k)"
      using pairFinish_devices [OF p] True Get_dev_put [of "PubKey inp" k] k by (auto simp: key_read_def fun_eq_iff)
    have len: "length k = 32" by (rule DecodeKey_length [OF k])
    show ?thesis
    proof (cases r)
      case None
      with pairFinish_heap [OF p] have "heap w' = heap w" by auto
      with open_a dev len have "promised (abs_gw gw) (Admit a from k False) (abs_gw gw')"
        by (simp add: abs_gw_def gw)
      with None show ?thesis by (intro exI [of _ "Admit a from k False"]) simp
    next
      case (Some enc)
      with pairFinish_reply [OF p [unfolded Some]] a have "heap w' = (heap w)[a := Consume (heap w ! a)]" by auto
      with open_a dev len have "promised (abs_gw gw) (Admit a from k True) (abs_gw gw')"
        by (auto simp: abs_gw_def gw nth_list_update Consume_def)
      with Some a show ?thesis by (intro exI [of _ "Admit a from k True"]) simp
    qed
  qed
qed

lemma sealedFinish_abs:
  assumes "sealedFinish ctrl cr i gw payload peer = (gw', r)"
  shows "abs_gw gw' = abs_gw gw"
proof -
  obtain g w g' w' where gw: "gw = (g, w)" "gw' = (g', w')" by (cases gw; cases gw') auto
  note f = sealedFinish_frame [OF assms [unfolded gw]]
  have "g_devices g' = g_devices g" "heap w' = heap w"
    using arg_cong [OF f(1), of g_devices] arg_cong [OF f(2), of heap] by simp_all
  then show ?thesis unfolding gw by (intro abs_gw_same)
qed

lemma gstep_promised:
  "gstep ctrl cr x y \<Longrightarrow> gw_inv x \<Longrightarrow>
     \<exists>e. promised (abs_gw (fst x)) e (abs_gw (fst y)) \<and> snd (snd y) = told e @ snd (snd x)"
proof (induction rule: gstep.induct)
  case (open_pairing t1 t2 rnd gw gw' r ph log)
  then show ?case using OpenPairing_promised by fastforce
next
  case (remove_device wo gw i gw' r ph log)
  then have "promised (abs_gw gw) (Forget i) (abs_gw gw')" by (intro unpair_promised)
  then show ?case by (intro exI [of _ "Forget i"]) simp
next
  case (finish_sealed i gw payload peer gw' r "from" log)
  from sealedFinish_abs [OF finish_sealed(1)] show ?case by (intro exI [of _ Quiet]) simp
next
  case (finish_pair i gw "from" inp addr gw' r log)
  have "\<forall>a. addr = Some a \<longrightarrow> a < length (heap (snd gw))"
    using finish_pair(2) by (cases gw) (simp add: gw_inv_def held_addr_def)
  from pairFinish_promised [OF finish_pair(1) this] obtain e where e: "promised (abs_gw gw) e (abs_gw gw')"
      "told e = (if r = None then [] else case addr of None \<Rightarrow> [] | Some a \<Rightarrow> [a])" by blast
  then show ?case by (intro exI [of _ e]) (simp split: option.splits)
qed (intro exI [of _ Quiet], simp)+

lemma greach_promised:
  "greach ctrl cr x y \<Longrightarrow> gw_inv x \<Longrightarrow> \<exists>es. promise_run (abs_gw (fst x)) es (abs_gw (fst y)) \<and> snd (snd y) = spent es @ snd (snd x)"
proof (induction rule: greach.induct)
  case start
  show ?case by (intro exI [of _ "[]"]) (simp add: run_empty spent_def)
next
  case (next_step y z)
  then obtain es where es: "promise_run (abs_gw (fst x)) es (abs_gw (fst y))" "snd (snd y) = spent es @ snd (snd x)" by blast
  from gstep_promised [OF next_step(2) gw_inv_reach [OF next_step(1,4)]] obtain e where
    e: "promised (abs_gw (fst y)) e (abs_gw (fst z))" "snd (snd z) = told e @ snd (snd y)" by blast
  from run_step [OF es(1) e(1)] es(2) e(2) show ?case by (intro exI [of _ "e # es"]) (simp add: spent_def)
qed

section \<open>Properties\<close>

text \<open>
  C1. The security boundary. A relay message makes the agent ask the operating system for a lock
  only when it is a sealed payload that the key of a paired device opens, holding a lock command
  that passes the freshness check, and then it asks once.
\<close>

theorem lock_only_from_paired:
  assumes "session_controller ctrl requests"
    and "Handle ctrl cr i (g, w) from payload = ((g', w'), r)"
    and "requests (sess w') \<noteq> requests (sess w)"
  shows "requests (sess w') = Suc (requests (sess w))
    \<and> (\<exists>peer plain inp. Get (g_devices g) from = Some peer \<and> Open cr payload peer (g_keys g) = Some plain
         \<and> wire_decode plain = Inr inp \<and> Kind inp = KindLock \<and> accepts (g_core g) (now1 i) (now2 i) inp)"
proof (cases "delivered cr g from payload")
  case None
  have "sess w' = sess w"
  proof (cases "IsSealed payload")
    case True
    with None assms(2) show ?thesis by (auto simp: Handle_def handleSealed_delivered)
  next
    case False
    with assms(2) pairFinish_frame(2) [of i g w "from"] show ?thesis
      by (auto simp: Handle_def handlePairRequest_def split: option.splits)
  qed
  with assms(3) show ?thesis by simp
next
  case (Some pi)
  obtain peer inp where pi: "pi = (peer, inp)" by fastforce
  obtain c' s' out where h: "core_handle ctrl (g_core g) (sess w) (now1 i) (now2 i) inp = ((c', s'), out)"
    by (metis prod.collapse)
  with assms(2) Some pi delivered_sealed [of cr g "from" payload] have "sess w' = s'"
    by (auto simp: Handle_def handleSealed_delivered)
  with session_controller.handle_requests [OF assms(1) h] assms(3)
  have "requests (sess w') = Suc (requests (sess w))" "Kind inp = KindLock"
      "accepts (g_core g) (now1 i) (now2 i) inp"
    by (auto simp: of_bool_def split: if_splits)
  with delivered_SomeD [OF Some [unfolded pi]] show ?thesis by blast
qed

theorem lock_only_from_paired_witness:
  "\<exists>g' w' r inp. Handle fakeSession toy_nacl demo_inputs (demo_gateway, demo_world) ''phone'' (demo_sealed demo_lock)
       = ((g', w'), r)
     \<and> snd (sess w') = Suc (snd (sess demo_world))
     \<and> Kind inp = KindLock \<and> accepts (g_core demo_gateway) (now1 demo_inputs) (now2 demo_inputs) inp"
proof -
  obtain g' w' r where h: "Handle fakeSession toy_nacl demo_inputs (demo_gateway, demo_world) ''phone''
      (demo_sealed demo_lock) = ((g', w'), r)" by (metis prod.collapse)
  have d: "delivered toy_nacl demo_gateway ''phone'' (demo_sealed demo_lock) = Some (Pub phone_keys, demo_lock)"
    by (rule demo_delivered [OF demo_lock_valid])
  then have "IsSealed (demo_sealed demo_lock)" using delivered_sealed by fastforce
  with h d have "sess w' = (True, 1)"
    by (auto simp: Handle_def handleSealed_delivered go_defs demo_defs demo_gateway_def newGateway_def
        demo_world_def demo_inputs_def split: prod.splits)
  then have "snd (sess w') \<noteq> snd (sess demo_world)" by (simp add: demo_world_def)
  from lock_only_from_paired [OF fake_session.session_controller_axioms h this] h show ?thesis by blast
qed

text \<open>
  C5. A pairing window admits at most one answered pairing, whatever the configuration page does
  between the steps of the handlers, and every window that admitted one refuses all further
  requests.
\<close>

theorem window_pairs_once:
  assumes "greach ctrl cr ((newGateway c k agentID relayURL store, w), Idle, []) ((g', w'), ph, log)"
    and "wf_store store"
  shows "distinct log \<and> (\<forall>a\<in>set log. \<not> VerifyRequest (Some (heap w' ! a)) now clientID pub mac)"
proof -
  have "gw_inv ((newGateway c k agentID relayURL store, w), Idle, [])"
    using assms(2) by (simp add: gw_inv_def newGateway_def held_addr_def)
  from gw_inv_reach [OF assms(1) this] show ?thesis
    by (auto simp: gw_inv_def VerifyRequest_def)
qed

theorem window_pairs_once_witness:
  "\<exists>g w ph. greach fakeSession toy_nacl ((demo_gateway, demo_world), Idle, []) ((g, w), ph, [0])
     \<and> \<not> VerifyRequest (Some (heap w ! 0)) (at_time 1000 5) ''tablet'' ''key'' ''mac''"
proof -
  obtain g1 w1 code where op: "OpenPairing (at_time 990 1) (at_time 990 1) (Inr ''secret'') (demo_gateway, demo_world)
      = ((g1, w1), Inr code)" by (simp add: OpenPairing_def NewWindow_def Let_def)
  obtain p where p: "pairRequest (rawurl_encode ''secret'') ''tablet'' (EncodeKey (Pub phone_keys)) ''Tab'' = Inr p"
    by (simp add: pairRequest_def RequestMAC_def)
  obtain g2 w2 enc where run: "pairStart g1 (wire_text p) = Some (p, Some 0)"
      "pairFinish demo_inputs (g1, w1) ''tablet'' p (Some 0) = ((g2, w2), Ret (Some enc))"
    using pairing_run [OF op p demo_pairing] by (auto simp: demo_world_def)
  have "greach fakeSession toy_nacl ((demo_gateway, demo_world), Idle, []) ((g1, w1), Idle, [])"
    by (rule next_step [OF start open_pairing [OF op]])
  moreover have "gstep fakeSession toy_nacl ((g1, w1), Idle, []) ((g1, w1), PairHeld ''tablet'' p (Some 0), [])"
    by (rule take_window [where payload = "wire_text p"]) (simp_all add: run(1))
  moreover have "gstep fakeSession toy_nacl ((g1, w1), PairHeld ''tablet'' p (Some 0), []) ((g2, w2), Idle, [0])"
    using finish_pair [OF run(2), of fakeSession toy_nacl "[]"] by simp
  ultimately have r: "greach fakeSession toy_nacl ((demo_gateway, demo_world), Idle, []) ((g2, w2), Idle, [0])"
    by (blast intro: next_step)
  have "wf_store demo_store" by (simp add: wf_store_def entries_def demo_store_def)
  from window_pairs_once [OF r [unfolded demo_gateway_def] this] r show ?thesis by fastforce
qed

text \<open>
  C6. Refinement. Every run of the gateway, with the configuration page interleaved at any point, is a
  run of the promise: seen through the open windows and the keys of the allowlist it only issues
  tickets, admits devices against an open ticket, spends the ticket of every pairing it answers, and
  forgets removed devices. The log of answered pairings is the list of spent tickets.
\<close>

theorem gateway_refines_promise:
  assumes "greach ctrl cr ((newGateway c k agentID relayURL store, w), Idle, []) ((g', w'), ph, log)"
    and "wf_store store"
  shows "\<exists>es. promise_run (abs_gw (newGateway c k agentID relayURL store, w)) es (abs_gw (g', w')) \<and> log = spent es"
proof -
  have "gw_inv ((newGateway c k agentID relayURL store, w), Idle, [])"
    using assms(2) by (simp add: gw_inv_def newGateway_def held_addr_def)
  from greach_promised [OF assms(1) this] show ?thesis by simp
qed

theorem gateway_refines_promise_witness:
  "\<exists>g w. fst (OpenPairing (at_time 990 1) (at_time 990 1) (Inr ''secret'') (demo_gateway, demo_world)) = (g, w)
     \<and> (\<exists>es. promise_run (abs_gw (demo_gateway, demo_world)) es (abs_gw (g, w)) \<and> spent es = [])"
proof -
  obtain g w code where op: "OpenPairing (at_time 990 1) (at_time 990 1) (Inr ''secret'') (demo_gateway, demo_world)
      = ((g, w), Inr code)" by (simp add: OpenPairing_def NewWindow_def Let_def)
  have r: "greach fakeSession toy_nacl ((demo_gateway, demo_world), Idle, []) ((g, w), Idle, [])"
    by (rule next_step [OF start open_pairing [OF op]])
  have wf: "wf_store demo_store" by (simp add: wf_store_def entries_def demo_store_def)
  from gateway_refines_promise [OF r [unfolded demo_gateway_def] wf] op show ?thesis
    by (fastforce simp: demo_gateway_def)
qed

text \<open>
  C12. A payload that is not sealed never reaches the core or the session. It can change the
  allowlist only as a pair request whose MAC the window taken at the start verifies, and then
  only by the entry of its own sender; it is answered only if the window was consumed.
\<close>

theorem plaintext_only_pairs:
  assumes "\<not> IsSealed payload" and "Handle ctrl cr i (g, w) from payload = ((g', w'), r)"
  shows "g_core g' = g_core g \<and> sess w' = sess w
    \<and> (g_devices g' = g_devices g \<or>
       (\<exists>inp a. wire_decode payload = Inr inp \<and> Kind inp = KindPairRequest \<and> g_window g = Some a
          \<and> VerifyRequest (Some (heap w ! a)) (now1 i) from (PubKey inp) (MAC inp)
          \<and> g_devices g' = dev_put (paired_now i) (g_devices g) from (PubKey inp) (sanitizeName (Machine inp))))
    \<and> (\<forall>enc. r = Ret (Some enc) \<longrightarrow>
         (\<exists>a. g_window g = Some a \<and> heap w' = (heap w)[a := Consume (heap w ! a)]
            \<and> enc = wire_text (pairAccept g (heap w ! a))))"
proof (cases "pairStart g payload")
  case None
  with assms show ?thesis by (auto simp: Handle_def handlePairRequest_def)
next
  case (Some ia)
  then obtain inp where inp: "ia = (inp, g_window g)" "wire_decode payload = Inr inp" "Kind inp = KindPairRequest"
    by (auto simp: pairStart_def split: sum.splits if_splits)
  with Some assms have p: "pairFinish i (g, w) from inp (g_window g) = ((g', w'), r)"
    by (simp add: Handle_def handlePairRequest_def)
  have "g_core g' = g_core g" using arg_cong [OF pairFinish_frame(1) [OF p], of g_core] by simp
  moreover have "enc = wire_text (pairAccept g (heap w ! a)) \<and> heap w' = (heap w)[a := Consume (heap w ! a)]"
    if "r = Ret (Some enc)" "g_window g = Some a" for enc a
    using pairFinish_reply [OF p [unfolded that(1)]] that(2) by simp
  moreover have "g_window g \<noteq> None" if "r = Ret (Some enc)" for enc
    using pairFinish_reply [OF p [unfolded that]] by auto
  ultimately show ?thesis
    using pairFinish_frame(2) [OF p] pairFinish_devices [OF p] inp
    by (cases "g_window g") (auto simp: VerifyRequest_def split: if_splits)
qed

theorem plaintext_only_pairs_witness:
  "\<exists>g1 w1 p g2 w2 enc. fst (OpenPairing (at_time 990 1) (at_time 990 1) (Inr ''secret'') (demo_gateway, demo_world)) = (g1, w1)
     \<and> Handle fakeSession toy_nacl demo_inputs (g1, w1) ''tablet'' (wire_text p) = ((g2, w2), Ret (Some enc))
     \<and> sess w2 = sess w1 \<and> (\<exists>a. heap w2 = (heap w1)[a := Consume (heap w1 ! a)])"
proof -
  obtain g1 w1 code where op: "OpenPairing (at_time 990 1) (at_time 990 1) (Inr ''secret'') (demo_gateway, demo_world)
      = ((g1, w1), Inr code)" by (simp add: OpenPairing_def NewWindow_def Let_def)
  obtain p where p: "pairRequest (rawurl_encode ''secret'') ''tablet'' (EncodeKey (Pub phone_keys)) ''Tab'' = Inr p"
    by (simp add: pairRequest_def RequestMAC_def)
  obtain g2 w2 enc where run: "pairStart g1 (wire_text p) = Some (p, Some 0)"
      "pairFinish demo_inputs (g1, w1) ''tablet'' p (Some 0) = ((g2, w2), Ret (Some enc))"
    using pairing_run [OF op p demo_pairing] by (auto simp: demo_world_def)
  then have h: "Handle fakeSession toy_nacl demo_inputs (g1, w1) ''tablet'' (wire_text p) = ((g2, w2), Ret (Some enc))"
    by (simp add: Handle_def handlePairRequest_def)
  from plaintext_only_pairs [OF wire_text_not_sealed h] op h show ?thesis
    by (intro exI [of _ g1] exI [of _ w1] exI [of _ p] exI [of _ g2] exI [of _ w2] exI [of _ enc]) auto
qed

text \<open>
  A removed device is locked out at once and stays out whatever happens to other devices:
  nothing it seals is opened or answered until it is paired again, even when writing the device
  file failed.
\<close>

theorem removed_device_ignored:
  assumes "list_all (\<lambda>(j, c). j \<noteq> dev \<and> (\<forall>p n. c = Some (p, n) \<longrightarrow> is_ok (DecodeKey p))) changes"
    and "g_devices g = foldl (\<lambda>s (j, c). case c of Some (p, n) \<Rightarrow> dev_put now s j p n | None \<Rightarrow> dev_del s j)
           (snd (fst (Remove wo d s0 dev))) changes"
    and "IsSealed payload"
  shows "Handle ctrl cr i (g, w) dev payload = ((g, w), Ret None)"
proof -
  have ch: "device_allowlist.change now s c = (case c of (j, Some (p, n)) \<Rightarrow> dev_put now s j p n | (j, None) \<Rightarrow> dev_del s j)"
    for s c by (rule device_allowlist.change_def)
  have "(\<lambda>s (j, c). case c of Some (p, n) \<Rightarrow> dev_put now s j p n | None \<Rightarrow> dev_del s j) = device_allowlist.change now"
    by (auto simp: fun_eq_iff ch split: option.splits)
  with assms(2) have g: "g_devices g = foldl (device_allowlist.change now) (snd (fst (Remove wo d s0 dev))) changes"
    by simp
  have "list_all device_allowlist.valid_change changes" "\<forall>c\<in>set changes. fst c \<noteq> dev"
    using assms(1) by (auto simp: list_all_iff device_allowlist.valid_change_def key_read_def is_ok_iff
        split: option.splits sum.splits)
  from device_allowlist.get_changes_other [OF this] have "Get (g_devices g) dev = None"
    by (simp add: g Get_Remove)
  with assms(3) show ?thesis by (simp add: Handle_def handleSealed_def)
qed

theorem removed_device_ignored_witness:
  "Handle fakeSession toy_nacl demo_inputs
      (demo_gateway\<lparr>g_devices := snd (fst (Remove (WriteRefused ''disk full'') Map.empty demo_store ''phone''))\<rparr>, demo_world)
      ''phone'' (demo_sealed demo_lock)
    = ((demo_gateway\<lparr>g_devices := snd (fst (Remove (WriteRefused ''disk full'') Map.empty demo_store ''phone''))\<rparr>, demo_world),
       Ret None)"
  by (rule removed_device_ignored [of _ "[]"]) (simp_all add: demo_sealed_def IsSealed_def)

text \<open>
  C17. A sealed status request or lock command of a paired device is handed to the core as it was
  sent, and the reply is the core's answer, sealed so that the device opens it.
\<close>

theorem sealed_exchange:
  assumes "nacl_laws cr" and "generated cr k" and "generated cr (g_keys g)"
    and "Get (g_devices g) from = Some (Pub k)" and "valid_payload p"
    and "Kind p = KindStatusRequest \<or> Kind p = KindLock"
    and "length nonce = nonceSize" "length nonce' = nonceSize" "rand i = Inr nonce'"
    and "Seal cr (Inr nonce) (wire_text p) (Pub (g_keys g)) k = Inr sealed"
    and "core_handle ctrl (g_core g) (sess w) (now1 i) (now2 i) p = ((c', s'), out)"
  shows "\<exists>reply o'. Handle ctrl cr i (g, w) from sealed = ((g\<lparr>g_core := c'\<rparr>, w\<lparr>sess := s'\<rparr>), Ret (Some reply))
    \<and> out = Some o' \<and> Open cr reply (Pub (g_keys g)) k = Some (wire_text o')
    \<and> (valid_payload o' \<longrightarrow> wire_decode (wire_text o') = Inr o')"
proof -
  have d: "delivered cr g from sealed = Some (Pub k, p)"
    by (rule delivered_Seal [OF assms(1-5,7,10)])
  obtain o' where o: "out = Some o'"
    using assms(6,11) by (auto simp: core_handle_def kind_defs split: prod.splits if_splits)
  obtain reply where r: "sealReply cr (Inr nonce') g o' (Pub k) = Some reply" using sealReply_some by blast
  have "Handle ctrl cr i (g, w) from sealed = ((g\<lparr>g_core := c'\<rparr>, w\<lparr>sess := s'\<rparr>), Ret (Some reply))"
    using delivered_sealed [of cr g "from" sealed] d assms(9,11) o r by (simp add: Handle_def handleSealed_delivered)
  with sealReply_opens [OF assms(1-3,8) r] o show ?thesis by (simp add: wire_decode_text)
qed

theorem sealed_exchange_witness:
  "\<exists>reply o' gw. Handle fakeSession toy_nacl demo_inputs (demo_gateway, demo_world) ''phone'' (demo_sealed demo_lock)
       = (gw, Ret (Some reply))
     \<and> Open toy_nacl reply (Pub demo_keys) phone_keys = Some (wire_text (lockResult ''n1'' True []))"
proof -
  obtain c' s' out where h: "core_handle fakeSession (g_core demo_gateway) (sess demo_world) (now1 demo_inputs)
      (now2 demo_inputs) demo_lock = ((c', s'), out)" by (metis prod.collapse)
  then have out: "out = Some (lockResult ''n1'' True [])"
    by (auto simp: go_defs demo_defs demo_gateway_def newGateway_def demo_world_def demo_inputs_def)
  have k: "g_keys demo_gateway = demo_keys" by (simp add: demo_gateway_def newGateway_def)
  show ?thesis
    using sealed_exchange [OF toy_nacl_laws demo_generated(2) _ demo_get demo_lock_valid _ _ _ _ demo_seal h, of demo_nonce]
    by (auto simp: out k demo_generated demo_lock_def demo_nonce_def nonceSize_def demo_inputs_def)
qed

end
