(* ===== verification/Auth.thy ===== *)
theory Auth
  imports Keys Sha256
begin

text \<open>
  \<open>internal/secure/auth.go\<close>: the answer to the relay's key-possession challenge,
  \<open>HMAC-SHA256 (SHA256 (context @ X25519 priv relay_pub)) nonce\<close>.
\<close>

definition authContext :: string where
  "authContext = ''lockping-relay-auth''"

definition ProveChallenge :: "nacl \<Rightarrow> string \<Rightarrow> string \<Rightarrow> keys \<Rightarrow> string result" where
  "ProveChallenge cr nonceB64 relayPubB64 k =
     (case DecodeKey relayPubB64 of
        Inl err \<Rightarrow> Inl (''secure: relay-sleutel: '' @ err)
      | Inr relayPub \<Rightarrow>
          (case std_decode nonceB64 of
             None \<Rightarrow> Inl ''secure: challenge-nonce: illegal base64 data''
           | Some nonce \<Rightarrow>
               (case X25519 cr (Priv k) relayPub of
                  Inl err \<Rightarrow> Inl (''secure: ECDH: '' @ err)
                | Inr shared \<Rightarrow>
                    Inr (std_encode (hmac_sha256 (sha256 (authContext @ shared)) nonce)))))"

text \<open>
  What the relay computes to check the proof, after \<open>docs/protocol.md\<close>: the same construction with
  its own private key and the public key it has registered for the agent.
\<close>

definition relay_expects :: "nacl \<Rightarrow> bytes \<Rightarrow> bytes \<Rightarrow> bytes \<Rightarrow> string result" where
  "relay_expects cr nonce agentPub relayPriv =
     (case X25519 cr relayPriv agentPub of
        Inl err \<Rightarrow> Inl err
      | Inr shared \<Rightarrow> Inr (std_encode (hmac_sha256 (sha256 (authContext @ shared)) nonce)))"

lemma ProveChallenge_agrees:
  assumes "nacl_laws cr" and "generated cr a" and "generated cr r"
    and "relay_expects cr nonce (Pub a) (Priv r) = Inr m"
  shows "ProveChallenge cr (std_encode nonce) (EncodeKey (Pub r)) a = Inr m"
proof -
  from assms(1,3) have "length (Pub r) = 32" by (auto simp: nacl_laws_def)
  moreover from assms(1-3) have "X25519 cr (Priv a) (Pub r) = X25519 cr (Priv r) (Pub a)"
    by (auto simp: nacl_laws_def)
  ultimately show ?thesis
    using assms(4) by (auto simp: ProveChallenge_def relay_expects_def split: sum.splits)
qed

lemma ProveChallenge_ok_iff:
  "is_ok (ProveChallenge cr nb rb k) \<longleftrightarrow>
     (\<exists>relayPub nonce shared. DecodeKey rb = Inr relayPub \<and> std_decode nb = Some nonce
        \<and> X25519 cr (Priv k) relayPub = Inr shared)"
  by (auto simp: ProveChallenge_def split: sum.splits option.splits)

end
