(* ===== verification/Relay.thy ===== *)
theory Relay
  imports Auth Unmarshal Go_Time
begin

text \<open>
  Package \<open>relay\<close> (\<open>internal/relay/client.go\<close>): the frames, the handshake, the loop that serves
  envelopes, and the reconnecting loop with its backoff.

  The WebSocket library is not part of the repository. A connection is what it delivers: the
  results of the successive reads, the outcomes of the successive writes, and the frames sent. A
  read that decodes a frame is \<open>json.Unmarshal\<close> into the given variable, an error when that
  fails. The timeout of the handshake and the cancellation of the context appear as read and
  write errors.
\<close>

record message =
  m_Type :: string
  m_ID :: string
  m_Role :: string
  m_Pub :: string
  m_To :: string
  m_From :: string
  m_Payload :: string
  m_Code :: string
  m_Nonce :: string
  m_RelayPub :: string
  m_MAC :: string

definition empty_message :: message where
  "empty_message =
     \<lparr>m_Type = [], m_ID = [], m_Role = [], m_Pub = [], m_To = [], m_From = [], m_Payload = [],
      m_Code = [], m_Nonce = [], m_RelayPub = [], m_MAC = []\<rparr>"

definition message_members :: "message \<Rightarrow> (string \<times> json) list" where
  "message_members m =
     [(''type'', JStr (m_Type m))]
     @ string_member ''id'' (m_ID m) @ string_member ''role'' (m_Role m)
     @ string_member ''pub'' (m_Pub m) @ string_member ''to'' (m_To m)
     @ string_member ''from'' (m_From m) @ string_member ''payload'' (m_Payload m)
     @ string_member ''code'' (m_Code m) @ string_member ''nonce'' (m_Nonce m)
     @ string_member ''relay_pub'' (m_RelayPub m) @ string_member ''mac'' (m_MAC m)"

definition message_fields :: "message fields" where
  "message_fields =
     [(''type'', \<lambda>v m. map_option (\<lambda>x. m\<lparr>m_Type := x\<rparr>) (into_string v (m_Type m))),
      (''id'', \<lambda>v m. map_option (\<lambda>x. m\<lparr>m_ID := x\<rparr>) (into_string v (m_ID m))),
      (''role'', \<lambda>v m. map_option (\<lambda>x. m\<lparr>m_Role := x\<rparr>) (into_string v (m_Role m))),
      (''pub'', \<lambda>v m. map_option (\<lambda>x. m\<lparr>m_Pub := x\<rparr>) (into_string v (m_Pub m))),
      (''to'', \<lambda>v m. map_option (\<lambda>x. m\<lparr>m_To := x\<rparr>) (into_string v (m_To m))),
      (''from'', \<lambda>v m. map_option (\<lambda>x. m\<lparr>m_From := x\<rparr>) (into_string v (m_From m))),
      (''payload'', \<lambda>v m. map_option (\<lambda>x. m\<lparr>m_Payload := x\<rparr>) (into_string v (m_Payload m))),
      (''code'', \<lambda>v m. map_option (\<lambda>x. m\<lparr>m_Code := x\<rparr>) (into_string v (m_Code m))),
      (''nonce'', \<lambda>v m. map_option (\<lambda>x. m\<lparr>m_Nonce := x\<rparr>) (into_string v (m_Nonce m))),
      (''relay_pub'', \<lambda>v m. map_option (\<lambda>x. m\<lparr>m_RelayPub := x\<rparr>) (into_string v (m_RelayPub m))),
      (''mac'', \<lambda>v m. map_option (\<lambda>x. m\<lparr>m_MAC := x\<rparr>) (into_string v (m_MAC m)))]"

definition message_text :: "message \<Rightarrow> string" where
  "message_text m = json_marshal (JObj (message_members m))"

section \<open>Connections\<close>

text \<open>When the scripted reads are used up the connection is closed; further writes succeed.\<close>

record conn =
  incoming :: "bytes result list"
  write_errs :: "string option list"
  sent :: "message list"

definition ws_read :: "conn \<Rightarrow> message \<Rightarrow> conn \<times> message result" where
  "ws_read c m =
     (case incoming c of
        [] \<Rightarrow> (c, Inl ''EOF'')
      | r # rs \<Rightarrow>
          (c\<lparr>incoming := rs\<rparr>,
           case r of
             Inl err \<Rightarrow> Inl err
           | Inr b \<Rightarrow>
               (case unmarshal_into message_fields b m of
                  None \<Rightarrow> Inl ''failed to unmarshal JSON''
                | Some m' \<Rightarrow> Inr m')))"

definition ws_write :: "conn \<Rightarrow> message \<Rightarrow> conn \<times> string option" where
  "ws_write c m =
     (case write_errs c of
        [] \<Rightarrow> (c\<lparr>sent := sent c @ [m]\<rparr>, None)
      | None # ws \<Rightarrow> (c\<lparr>write_errs := ws, sent := sent c @ [m]\<rparr>, None)
      | Some err # ws \<Rightarrow> (c\<lparr>write_errs := ws\<rparr>, Some err))"

section \<open>Backoff\<close>

definition backoff_next :: "duration \<Rightarrow> duration \<times> duration" where
  "backoff_next cur =
     (let cur' =
        (if cur = 0 then second
         else if cur < 30 * second then
           (let d = cur * 2 in if d > 30 * second then 30 * second else d)
         else cur)
      in (cur', cur'))"

definition backoff_reset :: duration where
  "backoff_reset = 0"

definition newBackoff :: duration where
  "newBackoff = 0"

lemma newBackoff_reset [simp]: "newBackoff = backoff_reset"
  by (simp add: newBackoff_def backoff_reset_def)

section \<open>The client\<close>

text \<open>
  \<open>onState\<close> is \<open>None\<close> for a nil callback and otherwise the calls it has received. The handler
  acts on a state of its own, replies, ignores, or panics.
\<close>

record client =
  cl_id :: string
  cl_keys :: keys
  cl_backoff :: duration
  cl_onState :: "bool list option"

datatype handled = Replied string | Ignored | Panicked string

type_synonym 'h handler = "'h \<Rightarrow> string \<Rightarrow> string \<Rightarrow> 'h \<times> handled"

definition newClient :: "string \<Rightarrow> keys \<Rightarrow> client" where
  "newClient i k = \<lparr>cl_id = i, cl_keys = k, cl_backoff = newBackoff, cl_onState = None\<rparr>"

definition OnState :: "client \<Rightarrow> client" where
  "OnState cl = cl\<lparr>cl_onState := Some []\<rparr>"

definition setState :: "bool \<Rightarrow> client \<Rightarrow> client" where
  "setState b cl = cl\<lparr>cl_onState := map_option (\<lambda>calls. calls @ [b]) (cl_onState cl)\<rparr>"

definition hello :: "client \<Rightarrow> message" where
  "hello cl =
     empty_message\<lparr>m_Type := ''hello'', m_ID := cl_id cl, m_Role := ''agent'',
       m_Pub := EncodeKey (Pub (cl_keys cl))\<rparr>"

definition prove :: "nacl \<Rightarrow> client \<Rightarrow> conn \<Rightarrow> message \<Rightarrow> conn \<times> string option" where
  "prove cr cl c challenge =
     (case ProveChallenge cr (m_Nonce challenge) (m_RelayPub challenge) (cl_keys cl) of
        Inl err \<Rightarrow> (c, Some err)
      | Inr mac \<Rightarrow>
          (case ws_write c (empty_message\<lparr>m_Type := ''prove'', m_MAC := mac\<rparr>) of
             (c', Some err) \<Rightarrow> (c', Some (''prove: '' @ err))
           | (c', None) \<Rightarrow> (c', None)))"

text \<open>The end of the handshake, on the answer to the hello or to the proof.\<close>

definition welcomed :: "message \<Rightarrow> string option" where
  "welcomed resp =
     (if m_Type resp \<noteq> ''welcome''
      then Some (''handshake refused: '' @ m_Type resp @ ''/'' @ m_Code resp)
      else None)"

text \<open>The answer to the proof is decoded into the variable that holds the challenge.\<close>

definition handshake :: "nacl \<Rightarrow> client \<Rightarrow> conn \<Rightarrow> conn \<times> string option" where
  "handshake cr cl c =
     (case ws_write c (hello cl) of
        (c1, Some err) \<Rightarrow> (c1, Some (''hello: '' @ err))
      | (c1, None) \<Rightarrow>
          (case ws_read c1 empty_message of
             (c2, Inl err) \<Rightarrow> (c2, Some (''welcome: '' @ err))
           | (c2, Inr resp) \<Rightarrow>
               if m_Type resp = ''challenge'' then
                 (case prove cr cl c2 resp of
                    (c3, Some err) \<Rightarrow> (c3, Some err)
                  | (c3, None) \<Rightarrow>
                      (case ws_read c3 resp of
                         (c4, Inl err) \<Rightarrow> (c4, Some (''welcome na challenge: '' @ err))
                       | (c4, Inr resp') \<Rightarrow> (c4, welcomed resp')))
               else (c2, welcomed resp)))"

definition reply_to :: "message \<Rightarrow> string \<Rightarrow> message" where
  "reply_to m reply = empty_message\<lparr>m_Type := ''envelope'', m_To := m_From m, m_Payload := reply\<rparr>"

text \<open>How serving ends: with an error of the connection, or in a panic.\<close>

datatype ended = Lost string | Crashed string

lemma ws_read_incoming: "ws_read c m = (c', Inr m') \<Longrightarrow> length (incoming c') < length (incoming c)"
  by (auto simp: ws_read_def split: list.splits)

lemma ws_write_incoming: "ws_write c m = (c', r) \<Longrightarrow> incoming c' = incoming c"
  by (auto simp: ws_write_def split: list.splits option.splits)

function serve :: "'h handler \<Rightarrow> 'h \<Rightarrow> conn \<Rightarrow> ('h \<times> conn) \<times> ended" where
  "serve handle st c =
     (case ws_read c empty_message of
        (c1, Inl err) \<Rightarrow> ((st, c1), Lost err)
      | (c1, Inr m) \<Rightarrow>
          if m_Type m \<noteq> ''envelope'' then serve handle st c1
          else
            (case handle st (m_From m) (m_Payload m) of
               (st', Panicked e) \<Rightarrow> ((st', c1), Crashed e)
             | (st', Ignored) \<Rightarrow> serve handle st' c1
             | (st', Replied reply) \<Rightarrow>
                 (case ws_write c1 (reply_to m reply) of
                    (c2, Some err) \<Rightarrow> ((st', c2), Lost err)
                  | (c2, None) \<Rightarrow> serve handle st' c2)))"
  by pat_completeness auto
termination
  by (relation "measure (\<lambda>(handle, st, c). length (incoming c))")
     (auto dest!: ws_read_incoming [OF sym] ws_write_incoming [OF sym])

declare serve.simps [simp del]

text \<open>One connection: the argument is the result of the dial.\<close>

definition session ::
  "nacl \<Rightarrow> 'h handler \<Rightarrow> conn result \<Rightarrow> client \<times> 'h \<Rightarrow> (client \<times> 'h) \<times> conn option \<times> ended" where
  "session cr handle dial cs =
     (case cs of (cl, st) \<Rightarrow>
        (case dial of
           Inl err \<Rightarrow> ((cl, st), None, Lost (''dial: '' @ err))
         | Inr c \<Rightarrow>
             (case handshake cr cl c of
                (c1, Some err) \<Rightarrow> ((cl, st), Some c1, Lost err)
              | (c1, None) \<Rightarrow>
                  (let cl1 = setState True (cl\<lparr>cl_backoff := backoff_reset\<rparr>)
                   in case serve handle st c1 of
                        ((st', c2), e) \<Rightarrow> ((setState False cl1, st'), Some c2, e)))))"

text \<open>
  \<open>Run\<close>, over a script of attempts: the dial, and whether the context is cancelled when the
  session has ended or during the wait after it. The result collects the waits and the
  connections; \<open>Running\<close> means that the script is used up and the loop goes on.
\<close>

record attempt =
  dial :: "conn result"
  cancelled :: bool
  cancelled_waiting :: bool

datatype run_state = Running | Stopped | Dead string

fun Run ::
  "nacl \<Rightarrow> 'h handler \<Rightarrow> attempt list \<Rightarrow> client \<times> 'h
     \<Rightarrow> (client \<times> 'h) \<times> duration list \<times> conn option list \<times> run_state" where
  "Run cr handle [] cs = (cs, [], [], Running)"
| "Run cr handle (a # as) cs =
     (case session cr handle (dial a) cs of
        (cs1, co, Crashed e) \<Rightarrow> (cs1, [], [co], Dead e)
      | (cs1, co, Lost err) \<Rightarrow>
          if cancelled a then (cs1, [], [co], Stopped)
          else
            (case backoff_next (cl_backoff (fst cs1)) of
               (cur, wait) \<Rightarrow>
                 (let cs2 = ((fst cs1)\<lparr>cl_backoff := cur\<rparr>, snd cs1)
                  in if cancelled_waiting a then (cs2, [wait], [co], Stopped)
                     else (case Run cr handle as cs2 of
                             (cs3, waits, cos, r) \<Rightarrow> (cs3, wait # waits, co # cos, r)))))"

section \<open>Frames\<close>

definition valid_message :: "message \<Rightarrow> bool" where
  "valid_message m =
     list_all valid_utf8 [m_Type m, m_ID m, m_Role m, m_Pub m, m_To m, m_From m, m_Payload m, m_Code m,
       m_Nonce m, m_RelayPub m, m_MAC m]"

lemma message_field_lookup:
  "find_field message_fields ''type'' = Some (\<lambda>v m. map_option (\<lambda>x. m\<lparr>m_Type := x\<rparr>) (into_string v (m_Type m)))"
  "find_field message_fields ''id'' = Some (\<lambda>v m. map_option (\<lambda>x. m\<lparr>m_ID := x\<rparr>) (into_string v (m_ID m)))"
  "find_field message_fields ''role'' = Some (\<lambda>v m. map_option (\<lambda>x. m\<lparr>m_Role := x\<rparr>) (into_string v (m_Role m)))"
  "find_field message_fields ''pub'' = Some (\<lambda>v m. map_option (\<lambda>x. m\<lparr>m_Pub := x\<rparr>) (into_string v (m_Pub m)))"
  "find_field message_fields ''to'' = Some (\<lambda>v m. map_option (\<lambda>x. m\<lparr>m_To := x\<rparr>) (into_string v (m_To m)))"
  "find_field message_fields ''from'' = Some (\<lambda>v m. map_option (\<lambda>x. m\<lparr>m_From := x\<rparr>) (into_string v (m_From m)))"
  "find_field message_fields ''payload'' = Some (\<lambda>v m. map_option (\<lambda>x. m\<lparr>m_Payload := x\<rparr>) (into_string v (m_Payload m)))"
  "find_field message_fields ''code'' = Some (\<lambda>v m. map_option (\<lambda>x. m\<lparr>m_Code := x\<rparr>) (into_string v (m_Code m)))"
  "find_field message_fields ''nonce'' = Some (\<lambda>v m. map_option (\<lambda>x. m\<lparr>m_Nonce := x\<rparr>) (into_string v (m_Nonce m)))"
  "find_field message_fields ''relay_pub'' = Some (\<lambda>v m. map_option (\<lambda>x. m\<lparr>m_RelayPub := x\<rparr>) (into_string v (m_RelayPub m)))"
  "find_field message_fields ''mac'' = Some (\<lambda>v m. map_option (\<lambda>x. m\<lparr>m_MAC := x\<rparr>) (into_string v (m_MAC m)))"
  by (simp_all add: find_field_def message_fields_def fold_rune_def)

text \<open>
  A frame decoded into a variable sets the fields it carries; the others keep what they were.
\<close>

definition overlay :: "message \<Rightarrow> message \<Rightarrow> message" where
  "overlay m old =
     \<lparr>m_Type = m_Type m, m_ID = (if m_ID m = [] then m_ID old else m_ID m),
      m_Role = (if m_Role m = [] then m_Role old else m_Role m),
      m_Pub = (if m_Pub m = [] then m_Pub old else m_Pub m),
      m_To = (if m_To m = [] then m_To old else m_To m),
      m_From = (if m_From m = [] then m_From old else m_From m),
      m_Payload = (if m_Payload m = [] then m_Payload old else m_Payload m),
      m_Code = (if m_Code m = [] then m_Code old else m_Code m),
      m_Nonce = (if m_Nonce m = [] then m_Nonce old else m_Nonce m),
      m_RelayPub = (if m_RelayPub m = [] then m_RelayPub old else m_RelayPub m),
      m_MAC = (if m_MAC m = [] then m_MAC old else m_MAC m)\<rparr>"

lemma overlay_empty [simp]: "overlay m empty_message = m"
  by (cases m) (simp add: overlay_def empty_message_def)

lemma decode_message_member:
  "decode_members message_fields [(''type'', JStr s)] m = Some (m\<lparr>m_Type := s\<rparr>)"
  "decode_members message_fields (string_member ''id'' s) m = Some (if s = [] then m else m\<lparr>m_ID := s\<rparr>)"
  "decode_members message_fields (string_member ''role'' s) m = Some (if s = [] then m else m\<lparr>m_Role := s\<rparr>)"
  "decode_members message_fields (string_member ''pub'' s) m = Some (if s = [] then m else m\<lparr>m_Pub := s\<rparr>)"
  "decode_members message_fields (string_member ''to'' s) m = Some (if s = [] then m else m\<lparr>m_To := s\<rparr>)"
  "decode_members message_fields (string_member ''from'' s) m = Some (if s = [] then m else m\<lparr>m_From := s\<rparr>)"
  "decode_members message_fields (string_member ''payload'' s) m = Some (if s = [] then m else m\<lparr>m_Payload := s\<rparr>)"
  "decode_members message_fields (string_member ''code'' s) m = Some (if s = [] then m else m\<lparr>m_Code := s\<rparr>)"
  "decode_members message_fields (string_member ''nonce'' s) m = Some (if s = [] then m else m\<lparr>m_Nonce := s\<rparr>)"
  "decode_members message_fields (string_member ''relay_pub'' s) m = Some (if s = [] then m else m\<lparr>m_RelayPub := s\<rparr>)"
  "decode_members message_fields (string_member ''mac'' s) m = Some (if s = [] then m else m\<lparr>m_MAC := s\<rparr>)"
  by (simp_all add: message_field_lookup string_member_def)

lemma decode_message_members: "decode_members message_fields (message_members m) old = Some (overlay m old)"
  by (cases old)
     (simp add: message_members_def decode_members_append decode_message_member overlay_def
       del: decode_members.simps append.simps)

lemma message_members_wf: "valid_message m \<Longrightarrow> list_all wf_member (message_members m)"
  by (simp add: message_members_def valid_message_def list_all_members valid_utf8_ascii)

lemma unmarshal_message:
  "valid_message m \<Longrightarrow> unmarshal_into message_fields (message_text m) old = Some (overlay m old)"
  by (simp add: message_text_def unmarshal_flat message_members_wf decode_message_members)

lemma ws_read_message:
  "valid_message m \<Longrightarrow> incoming c = Inr (message_text m) # rest \<Longrightarrow>
     ws_read c old = (c\<lparr>incoming := rest\<rparr>, Inr (overlay m old))"
  by (simp add: ws_read_def unmarshal_message)

section \<open>Induction over a run of the loop\<close>

text \<open>One case for each way through the body of \<open>serve\<close>.\<close>

lemma serve_induct [consumes 1, case_names lost skip crashed ignored broken replied]:
  assumes "serve handle st c = ((st', c'), e)"
    and lost: "\<And>st c c1 err. ws_read c empty_message = (c1, Inl err) \<Longrightarrow> P st c st c1 (Lost err)"
    and skip: "\<And>st c c1 m st' c' e. ws_read c empty_message = (c1, Inr m) \<Longrightarrow> m_Type m \<noteq> ''envelope'' \<Longrightarrow>
      P st c1 st' c' e \<Longrightarrow> P st c st' c' e"
    and crashed: "\<And>st c c1 m st1 msg. ws_read c empty_message = (c1, Inr m) \<Longrightarrow> m_Type m = ''envelope'' \<Longrightarrow>
      handle st (m_From m) (m_Payload m) = (st1, Panicked msg) \<Longrightarrow> P st c st1 c1 (Crashed msg)"
    and ignored: "\<And>st c c1 m st1 st' c' e. ws_read c empty_message = (c1, Inr m) \<Longrightarrow> m_Type m = ''envelope'' \<Longrightarrow>
      handle st (m_From m) (m_Payload m) = (st1, Ignored) \<Longrightarrow> P st1 c1 st' c' e \<Longrightarrow> P st c st' c' e"
    and broken: "\<And>st c c1 m st1 r c2 err. ws_read c empty_message = (c1, Inr m) \<Longrightarrow> m_Type m = ''envelope'' \<Longrightarrow>
      handle st (m_From m) (m_Payload m) = (st1, Replied r) \<Longrightarrow> ws_write c1 (reply_to m r) = (c2, Some err) \<Longrightarrow>
      P st c st1 c2 (Lost err)"
    and replied: "\<And>st c c1 m st1 r c2 st' c' e. ws_read c empty_message = (c1, Inr m) \<Longrightarrow> m_Type m = ''envelope'' \<Longrightarrow>
      handle st (m_From m) (m_Payload m) = (st1, Replied r) \<Longrightarrow> ws_write c1 (reply_to m r) = (c2, None) \<Longrightarrow>
      P st1 c2 st' c' e \<Longrightarrow> P st c st' c' e"
  shows "P st c st' c' e"
  using assms(1)
proof (induction "length (incoming c)" arbitrary: st c rule: less_induct)
  case less
  obtain c1 rd where rd: "ws_read c empty_message = (c1, rd)" by fastforce
  show ?case
  proof (cases rd)
    case (Inl err)
    with rd less.prems lost show ?thesis by (auto simp: serve.simps)
  next
    case (Inr m)
    with rd have rd: "ws_read c empty_message = (c1, Inr m)" by simp
    note shorter = ws_read_incoming [OF rd]
    show ?thesis
    proof (cases "m_Type m = ''envelope''")
      case False
      with rd less.prems have "serve handle st c1 = ((st', c'), e)" by (subst (asm) serve.simps) simp
      from skip [OF rd False less.hyps [OF shorter this]] show ?thesis .
    next
      case env: True
      obtain st1 h where h: "handle st (m_From m) (m_Payload m) = (st1, h)" by fastforce
      show ?thesis
      proof (cases h)
        case (Panicked msg)
        with rd env h less.prems crashed show ?thesis by (auto simp: serve.simps)
      next
        case Ignored
        with rd env h less.prems have "serve handle st1 c1 = ((st', c'), e)" by (subst (asm) serve.simps) simp
        from ignored [OF rd env h [unfolded Ignored] less.hyps [OF shorter this]] show ?thesis .
      next
        case (Replied r)
        obtain c2 we where w: "ws_write c1 (reply_to m r) = (c2, we)" by fastforce
        show ?thesis
        proof (cases we)
          case (Some err)
          with rd env h Replied w less.prems broken show ?thesis by (auto simp: serve.simps)
        next
          case None
          with rd env h Replied w less.prems have "serve handle st1 c2 = ((st', c'), e)"
            by (subst (asm) serve.simps) simp
          with shorter ws_write_incoming [OF w] have "P st1 c2 st' c' e" by (intro less.hyps) simp_all
          from replied [OF rd env h [unfolded Replied] w [unfolded None] this] show ?thesis .
        qed
      qed
    qed
  qed
qed

section \<open>The contract of a handler\<close>

text \<open>
  What the client needs of its handler to keep an invariant of the handler's state, and a count
  that grows by at most one for each envelope.
\<close>

locale envelope_handler =
  fixes handle :: "'h handler" and inv :: "'h \<Rightarrow> bool"
  assumes handle_inv: "inv st \<Longrightarrow> handle st sender p = (st', r) \<Longrightarrow> inv st'"
begin

lemma serve_inv: "serve handle st c = ((st', c'), e) \<Longrightarrow> inv st \<Longrightarrow> inv st'"
  by (induction rule: serve_induct) (auto intro: handle_inv)

lemma session_inv: "session cr handle d cs = (cs', co, e) \<Longrightarrow> inv (snd cs) \<Longrightarrow> inv (snd cs')"
  by (cases cs) (auto simp: session_def split: sum.splits prod.splits option.splits dest: serve_inv)

lemma run_inv: "Run cr handle as cs = (cs', waits, cos, r) \<Longrightarrow> inv (snd cs) \<Longrightarrow> inv (snd cs')"
proof (induction as arbitrary: cs cs' waits cos r)
  case (Cons a as)
  obtain cs1 co e where s: "session cr handle (dial a) cs = (cs1, co, e)" by (metis prod_cases3)
  from session_inv [OF s Cons.prems(2)] have i: "inv (snd cs1)" .
  show ?case
    using Cons.prems(1) i Cons.IH [of "(_, snd cs1)"]
    by (auto simp: s Let_def split: ended.splits if_splits prod.splits)
qed simp

end

text \<open>A handler that never panics lets the reconnecting loop end only when its context does.\<close>

locale calm_handler = envelope_handler handle inv for handle :: "'h handler" and inv +
  assumes no_panic: "inv st \<Longrightarrow> handle st sender p = (st', r) \<Longrightarrow> r \<noteq> Panicked msg"
begin

lemma serve_lost: "serve handle st c = ((st', c'), e) \<Longrightarrow> inv st \<Longrightarrow> e \<noteq> Crashed msg"
  by (induction rule: serve_induct) (auto dest: no_panic handle_inv)

lemma session_lost: "session cr handle d cs = (cs', co, e) \<Longrightarrow> inv (snd cs) \<Longrightarrow> e \<noteq> Crashed msg"
  by (cases cs) (auto simp: session_def split: sum.splits prod.splits option.splits dest: serve_lost)

lemma run_end:
  "Run cr handle as cs = (cs', waits, cos, r) \<Longrightarrow> inv (snd cs) \<Longrightarrow>
     r = (if \<exists>a\<in>set as. cancelled a \<or> cancelled_waiting a then Stopped else Running)"
proof (induction as arbitrary: cs cs' waits cos r)
  case (Cons a as)
  obtain cs1 co e where s: "session cr handle (dial a) cs = (cs1, co, e)" by (metis prod_cases3)
  obtain err where e: "e = Lost err" using session_lost [OF s Cons.prems(2)] by (cases e) auto
  obtain cur w where b: "backoff_next (cl_backoff (fst cs1)) = (cur, w)" by fastforce
  show ?case
  proof (cases "cancelled a \<or> cancelled_waiting a")
    case True
    with s e b Cons.prems(1) show ?thesis by (auto simp: Let_def split: if_splits)
  next
    case False
    obtain cs3 ws cos3 r3 where rest: "Run cr handle as ((fst cs1)\<lparr>cl_backoff := cur\<rparr>, snd cs1) = (cs3, ws, cos3, r3)"
      by (metis prod_cases4)
    with False s e b Cons.prems(1) have "r = r3" by (auto simp: Let_def)
    with Cons.IH [OF rest] session_inv [OF s Cons.prems(2)] False show ?thesis by simp
  qed
qed simp

end

locale counting_handler = envelope_handler handle inv for handle :: "'h handler" and inv +
  fixes total :: "'h \<Rightarrow> nat"
  assumes handle_total: "inv st \<Longrightarrow> handle st sender p = (st', r) \<Longrightarrow> total st \<le> total st' \<and> total st' \<le> Suc (total st)"
begin

lemma serve_total:
  "serve handle st c = ((st', c'), e) \<Longrightarrow> inv st \<Longrightarrow>
     total st \<le> total st' \<and> total st' + length (incoming c') \<le> total st + length (incoming c)"
proof (induction rule: serve_induct)
  case (lost st c c1 err)
  then show ?case by (auto simp: ws_read_def split: list.splits)
next
  case (skip st c c1 m st' c' e)
  then show ?case using ws_read_incoming [OF skip.hyps(1)] by simp
next
  case (crashed st c c1 m st1 msg)
  then show ?case using ws_read_incoming [OF crashed.hyps(1)] handle_total [OF _ crashed.hyps(3)] by fastforce
next
  case (ignored st c c1 m st1 st' c' e)
  then show ?case
    using ws_read_incoming [OF ignored.hyps(1)] handle_total [OF _ ignored.hyps(3)] handle_inv [OF _ ignored.hyps(3)]
    by fastforce
next
  case (broken st c c1 m st1 r c2 err)
  then show ?case
    using ws_read_incoming [OF broken.hyps(1)] handle_total [OF _ broken.hyps(3)] ws_write_incoming [OF broken.hyps(4)]
    by fastforce
next
  case (replied st c c1 m st1 r c2 st' c' e)
  then show ?case
    using ws_read_incoming [OF replied.hyps(1)] handle_total [OF _ replied.hyps(3)] handle_inv [OF _ replied.hyps(3)]
      ws_write_incoming [OF replied.hyps(4)]
    by fastforce
qed

end

section \<open>Backoff\<close>

text \<open>
  The contract of a backoff: every wait is within the bounds, and the waits after a reset are the
  given sequence.
\<close>

locale backoff_policy =
  fixes next_wait :: "'b \<Rightarrow> 'b \<times> duration" and fresh :: 'b and valid :: "'b \<Rightarrow> bool"
    and low :: duration and high :: duration
  assumes fresh_valid: "valid fresh"
    and next_valid: "valid b \<Longrightarrow> next_wait b = (b', d) \<Longrightarrow> valid b' \<and> low \<le> d \<and> d \<le> high"
begin

fun waits_from :: "nat \<Rightarrow> 'b \<Rightarrow> duration list" where
  "waits_from 0 b = []"
| "waits_from (Suc n) b = (case next_wait b of (b', d) \<Rightarrow> d # waits_from n b')"

lemma waits_bounded: "valid b \<Longrightarrow> d \<in> set (waits_from n b) \<Longrightarrow> low \<le> d \<and> d \<le> high"
proof (induction n arbitrary: b)
  case (Suc n)
  obtain b' w where w: "next_wait b = (b', w)" by fastforce
  from next_valid [OF Suc.prems(1) w] Suc.prems(2) Suc.IH w show ?case by auto
qed simp

end

definition backoff_valid :: "duration \<Rightarrow> bool" where
  "backoff_valid cur = (cur = 0 \<or> (second \<le> cur \<and> cur \<le> 30 * second))"

interpretation relay_backoff: backoff_policy backoff_next backoff_reset backoff_valid second "30 * second"
  by unfold_locales
     (auto simp: backoff_next_def backoff_reset_def backoff_valid_def Let_def second_def split: if_splits)

text \<open>The \<open>n\<close>-th wait after a reset.\<close>

lemma backoff_step:
  "backoff_next (if n = 0 then 0 else min (30 * second) (2 ^ (n - 1) * second))
     = (min (30 * second) (2 ^ n * second), min (30 * second) (2 ^ n * second))"
proof (cases n)
  case (Suc m)
  have "1 \<le> (2 :: int) ^ m" by simp
  with Suc show ?thesis
    by (auto simp: backoff_next_def Let_def second_def min_def split: if_splits)
qed (simp add: backoff_next_def second_def min_def)

section \<open>The handshake\<close>

text \<open>What a handshake sends: the hello, and after a challenge the proof; nothing else.\<close>

lemma ws_read_sent: "ws_read c m = (c', r) \<Longrightarrow> sent c' = sent c \<and> write_errs c' = write_errs c"
  by (auto simp: ws_read_def split: list.splits)

lemma ws_write_sent: "ws_write c m = (c', r) \<Longrightarrow> sent c' = (if r = None then sent c @ [m] else sent c)"
  by (auto simp: ws_write_def split: list.splits option.splits)

lemma prove_sent:
  "prove cr cl c ch = (c', None) \<Longrightarrow>
     \<exists>mac. ProveChallenge cr (m_Nonce ch) (m_RelayPub ch) (cl_keys cl) = Inr mac
       \<and> sent c' = sent c @ [empty_message\<lparr>m_Type := ''prove'', m_MAC := mac\<rparr>]"
  "prove cr cl c ch = (c', Some err) \<Longrightarrow> sent c' = sent c"
  "prove cr cl c ch = (c', r) \<Longrightarrow> incoming c' = incoming c"
  by (auto simp: prove_def split: sum.splits prod.splits option.splits
      dest: ws_write_sent ws_write_incoming)

lemma handshake_ok:
  assumes "handshake cr cl c = (c', None)"
  shows "sent c' = sent c @ [hello cl]
    \<or> (\<exists>(ch :: message) mac. m_Type ch = ''challenge''
         \<and> ProveChallenge cr (m_Nonce ch) (m_RelayPub ch) (cl_keys cl) = Inr mac
         \<and> sent c' = sent c @ [hello cl, empty_message\<lparr>m_Type := ''prove'', m_MAC := mac\<rparr>])"
proof -
  obtain c1 where h: "ws_write c (hello cl) = (c1, None)"
    using assms by (auto simp: handshake_def split: prod.splits option.splits)
  obtain c2 resp where rd: "ws_read c1 empty_message = (c2, Inr resp)"
    using assms h by (auto simp: handshake_def split: prod.splits option.splits sum.splits)
  note s = ws_write_sent [OF h] ws_read_sent [OF rd]
  show ?thesis
  proof (cases "m_Type resp = ''challenge''")
    case False
    with assms h rd have "c' = c2" by (simp add: handshake_def)
    with s show ?thesis by simp
  next
    case True
    obtain c3 where p: "prove cr cl c2 resp = (c3, None)"
      using assms h rd True by (auto simp: handshake_def split: prod.splits option.splits)
    obtain r where rd2: "ws_read c3 resp = (c', r)"
      using assms h rd True p by (auto simp: handshake_def split: prod.splits sum.splits)
    obtain mac where m: "ProveChallenge cr (m_Nonce resp) (m_RelayPub resp) (cl_keys cl) = Inr mac"
        "sent c3 = sent c2 @ [empty_message\<lparr>m_Type := ''prove'', m_MAC := mac\<rparr>]"
      using prove_sent(1) [OF p] by blast
    have "sent c' = sent c @ [hello cl, empty_message\<lparr>m_Type := ''prove'', m_MAC := mac\<rparr>]"
      using m(2) ws_read_sent [OF rd2] s by simp
    with m(1) True show ?thesis by blast
  qed
qed

text \<open>
  A handshake succeeds only on a welcome, which is the last frame it has read: the first frame, or the
  second one after a challenge, decoded into the variable that holds the challenge.
\<close>

definition read_welcome :: "bytes result list \<Rightarrow> bytes result list \<Rightarrow> bool" where
  "read_welcome frames rest =
     (\<exists>b m. unmarshal_into message_fields b empty_message = Some m
        \<and> (frames = Inr b # rest \<and> m_Type m = ''welcome''
           \<or> (\<exists>b' m'. frames = Inr b # Inr b' # rest \<and> m_Type m = ''challenge''
                \<and> unmarshal_into message_fields b' m = Some m' \<and> m_Type m' = ''welcome'')))"

lemma ws_read_InrD:
  "ws_read c old = (c', Inr m) \<Longrightarrow>
     \<exists>b. incoming c = Inr b # incoming c' \<and> unmarshal_into message_fields b old = Some m"
  by (auto simp: ws_read_def split: list.splits sum.splits option.splits)

lemma handshake_welcome:
  assumes "handshake cr cl c = (c', None)"
  shows "read_welcome (incoming c) (incoming c')"
proof -
  obtain c1 where h: "ws_write c (hello cl) = (c1, None)"
    using assms by (auto simp: handshake_def split: prod.splits option.splits)
  obtain c2 resp where rd: "ws_read c1 empty_message = (c2, Inr resp)"
    using assms h by (auto simp: handshake_def split: prod.splits option.splits sum.splits)
  from ws_read_InrD [OF rd] obtain b where b: "incoming c = Inr b # incoming c2"
      "unmarshal_into message_fields b empty_message = Some resp"
    using ws_write_incoming [OF h] by auto
  show ?thesis
  proof (cases "m_Type resp = ''challenge''")
    case False
    with assms h rd have "c' = c2" "m_Type resp = ''welcome''" by (auto simp: handshake_def welcomed_def split: if_splits)
    with b show ?thesis by (auto simp: read_welcome_def)
  next
    case True
    obtain c3 where p: "prove cr cl c2 resp = (c3, None)"
      using assms h rd True by (auto simp: handshake_def split: prod.splits option.splits)
    obtain resp' where rd2: "ws_read c3 resp = (c', Inr resp')" "m_Type resp' = ''welcome''"
      using assms h rd True p by (auto simp: handshake_def welcomed_def split: prod.splits sum.splits if_splits)
    from ws_read_InrD [OF rd2(1)] prove_sent(3) [OF p] b True rd2(2) show ?thesis
      by (auto simp: read_welcome_def)
  qed
qed

text \<open>An honest relay: it challenges, checks the proof, and welcomes.\<close>

definition challenge_frame :: "bytes \<Rightarrow> bytes \<Rightarrow> message" where
  "challenge_frame nonce relayPub =
     empty_message\<lparr>m_Type := ''challenge'', m_Nonce := std_encode nonce, m_RelayPub := EncodeKey relayPub\<rparr>"

definition welcome_frame :: message where
  "welcome_frame = empty_message\<lparr>m_Type := ''welcome''\<rparr>"

lemma frames_valid: "valid_message (challenge_frame nonce relayPub)" "valid_message welcome_frame"
  using std_encode_ascii
  by (auto simp: valid_message_def challenge_frame_def welcome_frame_def empty_message_def EncodeKey_def
      valid_utf8_ascii_Cons intro: valid_utf8_ascii)

lemma handshake_honest:
  assumes "nacl_laws cr" and "generated cr (cl_keys cl)" and "generated cr r"
    and "relay_expects cr nonce (Pub (cl_keys cl)) (Priv r) = Inr mac"
    and "incoming c = Inr (message_text (challenge_frame nonce (Pub r))) # Inr (message_text welcome_frame) # rest"
    and "write_errs c = []"
  shows "handshake cr cl c =
    (c\<lparr>incoming := rest,
       sent := sent c @ [hello cl, empty_message\<lparr>m_Type := ''prove'', m_MAC := mac\<rparr>]\<rparr>, None)"
proof -
  have "ProveChallenge cr (std_encode nonce) (EncodeKey (Pub r)) (cl_keys cl) = Inr mac"
    by (rule ProveChallenge_agrees [OF assms(1-4)])
  note answer = this
  let ?ch = "challenge_frame nonce (Pub r)"
  let ?c1 = "c\<lparr>sent := sent c @ [hello cl]\<rparr>"
  let ?c2 = "?c1\<lparr>incoming := Inr (message_text welcome_frame) # rest\<rparr>"
  let ?c3 = "?c2\<lparr>sent := sent ?c2 @ [empty_message\<lparr>m_Type := ''prove'', m_MAC := mac\<rparr>]\<rparr>"
  have hi: "ws_write c (hello cl) = (?c1, None)" using assms(6) by (simp add: ws_write_def)
  have rd: "ws_read ?c1 empty_message = (?c2, Inr ?ch)"
    using ws_read_message [OF frames_valid(1), of ?c1 nonce "Pub r" _ empty_message] assms(5) by simp
  have pr: "prove cr cl ?c2 ?ch = (?c3, None)"
    using assms(6) answer by (simp add: prove_def challenge_frame_def ws_write_def)
  have rd2: "ws_read ?c3 ?ch = (?c3\<lparr>incoming := rest\<rparr>, Inr (overlay welcome_frame ?ch))"
    by (rule ws_read_message [OF frames_valid(2)]) simp
  have "m_Type ?ch = ''challenge''" "welcomed (overlay welcome_frame ?ch) = None"
    by (simp_all add: challenge_frame_def welcomed_def overlay_def welcome_frame_def)
  with hi rd pr rd2 show ?thesis by (simp add: handshake_def)
qed

lemma session_result: "\<exists>cl' st' co e. session cr handle d cs = ((cl', st'), co, e)"
  by (cases "session cr handle d cs") auto

text \<open>Whatever comes of it, a handshake sends a hello and a proof at most.\<close>

definition opening_frame :: "message \<Rightarrow> bool" where
  "opening_frame m = (m_Type m = ''hello'' \<or> m_Type m = ''prove'')"

lemma handshake_sent:
  assumes "handshake cr cl c = (c', r)"
  shows "\<exists>ms. sent c' = sent c @ ms \<and> list_all opening_frame ms"
proof -
  have hi: "opening_frame (hello cl)" by (simp add: hello_def opening_frame_def)
  obtain c1 r1 where w: "ws_write c (hello cl) = (c1, r1)" by fastforce
  show ?thesis
  proof (cases r1)
    case (Some err)
    with w assms ws_write_sent [OF w] show ?thesis by (auto simp: handshake_def intro: exI [of _ "[]"])
  next
    case None
    obtain c2 r2 where rd: "ws_read c1 empty_message = (c2, r2)" by fastforce
    have s2: "sent c2 = sent c @ [hello cl]" using ws_write_sent [OF w] ws_read_sent [OF rd] None by simp
    show ?thesis
    proof (cases "\<exists>resp. r2 = Inr resp \<and> m_Type resp = ''challenge''")
      case False
      with w None rd assms have "c' = c2" by (auto simp: handshake_def split: sum.splits if_splits)
      with s2 hi show ?thesis by auto
    next
      case True
      then obtain resp where resp: "r2 = Inr resp" "m_Type resp = ''challenge''" by blast
      obtain c3 r3 where p: "prove cr cl c2 resp = (c3, r3)" by fastforce
      have s3: "\<exists>ms. sent c3 = sent c2 @ ms \<and> list_all opening_frame ms"
        using prove_sent(1,2) [of cr cl c2 resp c3] p by (cases r3) (auto simp: opening_frame_def)
      have "sent c' = sent c3"
        using w None rd resp p assms
        by (auto simp: handshake_def split: option.splits prod.splits sum.splits dest: ws_read_sent)
      with s2 s3 hi show ?thesis by auto
    qed
  qed
qed

section \<open>Properties\<close>

text \<open>
  The reference for the loop: what a list of frames makes the handler do, the frames the client sends,
  the frames it leaves unread and how the loop ends.
\<close>

fun dispatch :: "'h handler \<Rightarrow> 'h \<Rightarrow> message list \<Rightarrow> 'h \<times> message list \<times> message list \<times> ended" where
  "dispatch handle st [] = (st, [], [], Lost ''EOF'')"
| "dispatch handle st (m # ms) =
     (if m_Type m \<noteq> ''envelope'' then dispatch handle st ms
      else case handle st (m_From m) (m_Payload m) of
             (st', Panicked msg) \<Rightarrow> (st', [], ms, Crashed msg)
           | (st', Ignored) \<Rightarrow> dispatch handle st' ms
           | (st', Replied r) \<Rightarrow>
               (case dispatch handle st' ms of
                  (st2, out, rest, e) \<Rightarrow>
                    (st2,
                     \<lparr>m_Type = ''envelope'', m_ID = [], m_Role = [], m_Pub = [], m_To = m_From m, m_From = [],
                      m_Payload = r, m_Code = [], m_Nonce = [], m_RelayPub = [], m_MAC = []\<rparr> # out,
                     rest, e)))"

text \<open>
  C19. On a connection whose writes succeed, the loop is the fold of the handler over the frames in
  their order: every envelope is handed over once, with its sender and payload, every reply goes to
  the sender of its envelope, in the order of the envelopes, and frames of other types are skipped.
  The loop ends with the end of the connection, or in the first panic of the handler, with the
  frames after it unread.
\<close>

theorem serve_dispatch:
  assumes "incoming c = map (\<lambda>m. Inr (message_text m)) ms" and "list_all valid_message ms"
    and "write_errs c = []" and "dispatch handle st ms = (st', out, rest, e)"
  shows "serve handle st c =
    ((st', c\<lparr>incoming := map (\<lambda>m. Inr (message_text m)) rest, sent := sent c @ out\<rparr>), e)"
  using assms
proof (induction ms arbitrary: st c out)
  case Nil
  then show ?case by (simp add: serve.simps ws_read_def)
next
  case (Cons m ms)
  let ?c1 = "c\<lparr>incoming := map (\<lambda>m. Inr (message_text m)) ms\<rparr>"
  have rd: "ws_read c empty_message = (?c1, Inr m)"
    using ws_read_message [of m c _ empty_message] Cons.prems by simp
  have ih: "serve handle st1 (?c1\<lparr>sent := sent c @ pre\<rparr>) =
      ((st', c\<lparr>incoming := map (\<lambda>m. Inr (message_text m)) rest, sent := sent c @ pre @ out1\<rparr>), e)"
    if "dispatch handle st1 ms = (st', out1, rest, e)" for st1 pre out1
    using Cons.IH [of "?c1\<lparr>sent := sent c @ pre\<rparr>" st1 out1] Cons.prems that by simp
  obtain st1 h where h: "handle st (m_From m) (m_Payload m) = (st1, h)" by fastforce
  show ?case
  proof (cases "m_Type m = ''envelope''")
    case False
    then show ?thesis using ih [of st out "[]"] rd Cons.prems(4) by (subst serve.simps) simp
  next
    case True
    show ?thesis
    proof (cases h)
      case (Replied r)
      obtain out1 where "dispatch handle st1 ms = (st', out1, rest, e)" "out = reply_to m r # out1"
        using Cons.prems(4) True h Replied
        by (auto simp: reply_to_def empty_message_def split: prod.splits)
      then show ?thesis using ih [of st1 out1 "[reply_to m r]"] rd h True Replied Cons.prems(3)
        by (subst serve.simps) (simp add: ws_write_def)
    next
      case Ignored
      then show ?thesis using ih [of st1 out "[]"] rd h True Cons.prems(4) by (subst serve.simps) simp
    next
      case (Panicked msg)
      then show ?thesis using rd h True Cons.prems(4) by (subst serve.simps) simp
    qed
  qed
qed

definition echo :: "nat handler" where
  "echo n sender p = (Suc n, if p = ''ping'' then Replied ''pong'' else Ignored)"

definition demo_frame :: "string \<Rightarrow> string \<Rightarrow> string \<Rightarrow> message" where
  "demo_frame t sender p = empty_message\<lparr>m_Type := t, m_From := sender, m_Payload := p\<rparr>"

text \<open>A handler with all three outcomes.\<close>

definition fragile :: "nat handler" where
  "fragile n sender p = (Suc n, if p = ''boom'' then Panicked ''boom'' else if p = ''ping'' then Replied ''pong'' else Ignored)"

theorem serve_dispatch_witness:
  "serve fragile 0 \<lparr>incoming = map (\<lambda>m. Inr (message_text m))
        [demo_frame ''envelope'' ''a'' ''ping'', demo_frame ''pong'' ''b'' ''ping'', demo_frame ''envelope'' ''c'' ''x'',
         demo_frame ''envelope'' ''d'' ''boom'', demo_frame ''envelope'' ''e'' ''ping''],
      write_errs = [], sent = []\<rparr>
    = ((3, \<lparr>incoming = [Inr (message_text (demo_frame ''envelope'' ''e'' ''ping''))], write_errs = [],
          sent = [empty_message\<lparr>m_Type := ''envelope'', m_To := ''a'', m_Payload := ''pong''\<rparr>]\<rparr>), Crashed ''boom'')"
proof -
  let ?ms = "[demo_frame ''envelope'' ''a'' ''ping'', demo_frame ''pong'' ''b'' ''ping'', demo_frame ''envelope'' ''c'' ''x'',
         demo_frame ''envelope'' ''d'' ''boom'', demo_frame ''envelope'' ''e'' ''ping'']"
  have d: "dispatch fragile 0 ?ms = (3, [empty_message\<lparr>m_Type := ''envelope'', m_To := ''a'', m_Payload := ''pong''\<rparr>],
      [demo_frame ''envelope'' ''e'' ''ping''], Crashed ''boom'')"
    by (simp add: fragile_def demo_frame_def empty_message_def)
  have v: "list_all valid_message ?ms"
    by (simp add: demo_frame_def valid_message_def empty_message_def valid_utf8_ascii_Cons)
  show ?thesis using serve_dispatch [OF conn.simps(1) v _ d] by simp
qed

text \<open>
  C20. Against a relay that challenges, checks the proof with its own private key and the agent's
  registered public key, and then welcomes, the handshake succeeds, having sent the hello and the
  proof the relay expects.
\<close>

theorem handshake_completes:
  assumes "nacl_laws cr" and "generated cr (cl_keys cl)" and "generated cr r"
    and "relay_expects cr nonce (Pub (cl_keys cl)) (Priv r) = Inr mac"
    and "incoming c = Inr (message_text (challenge_frame nonce (Pub r))) # Inr (message_text welcome_frame) # rest"
    and "write_errs c = []"
  shows "\<exists>c'. handshake cr cl c = (c', None) \<and> incoming c' = rest
    \<and> sent c' = sent c @ [hello cl, empty_message\<lparr>m_Type := ''prove'', m_MAC := mac\<rparr>]"
  using handshake_honest [OF assms] by simp

definition demo_client :: client where
  "demo_client = OnState (newClient ''agent-1'' \<lparr>Pub = replicate 32 CHR 0x01, Priv = replicate 32 CHR 0x01\<rparr>)"

definition relay_keys :: keys where
  "relay_keys = \<lparr>Pub = replicate 32 CHR 0x05, Priv = replicate 32 CHR 0x05\<rparr>"

theorem handshake_completes_witness:
  "\<exists>c' mac. handshake toy_nacl demo_client
      \<lparr>incoming = [Inr (message_text (challenge_frame ''nonce'' (Pub relay_keys))), Inr (message_text welcome_frame)],
       write_errs = [], sent = []\<rparr> = (c', None)
    \<and> relay_expects toy_nacl ''nonce'' (Pub (cl_keys demo_client)) (Priv relay_keys) = Inr mac
    \<and> sent c' = [hello demo_client, empty_message\<lparr>m_Type := ''prove'', m_MAC := mac\<rparr>]"
proof -
  obtain mac where mac: "relay_expects toy_nacl ''nonce'' (Pub (cl_keys demo_client)) (Priv relay_keys) = Inr mac"
    by (simp add: relay_expects_def toy_nacl_def)
  have g: "generated toy_nacl (cl_keys demo_client)" "generated toy_nacl relay_keys"
    by (simp_all add: toy_generated demo_client_def OnState_def newClient_def relay_keys_def)
  from handshake_completes [OF toy_nacl_laws g mac, of "\<lparr>incoming = [Inr (message_text (challenge_frame ''nonce'' (Pub relay_keys))),
      Inr (message_text welcome_frame)], write_errs = [], sent = []\<rparr>" "[]"] mac
  show ?thesis by auto
qed

text \<open>
  C21. The handler is called only after a welcome. Either the frames the relay sent start with a welcome,
  or with a challenge and then a welcome, and the loop serves the frames after it; or the handler's
  state and the client are as they were, nothing was reported to the callback, the session ends
  with an error, and no frame was sent but hellos and proofs.
\<close>

theorem no_service_before_welcome:
  assumes "session cr handle (Inr c) (cl, st) = ((cl', st'), co, e)"
  shows "(\<exists>c1 c2. read_welcome (incoming c) (incoming c1) \<and> serve handle st c1 = ((st', c2), e) \<and> co = Some c2
        \<and> (\<exists>ms. sent c1 = sent c @ ms \<and> list_all opening_frame ms))
    \<or> (cl' = cl \<and> st' = st
        \<and> (\<exists>c1 err ms. co = Some c1 \<and> e = Lost err \<and> sent c1 = sent c @ ms \<and> list_all opening_frame ms))"
proof -
  obtain c1 r where h: "handshake cr cl c = (c1, r)" by fastforce
  show ?thesis
  proof (cases r)
    case None
    obtain c2 where "serve handle st c1 = ((st', c2), e)" "co = Some c2"
      using assms h None by (auto simp: session_def Let_def split: prod.splits)
    with handshake_welcome [of cr cl c c1] handshake_sent [OF h] h None show ?thesis by blast
  next
    case (Some err)
    with assms h handshake_sent [OF h] show ?thesis by (auto simp: session_def)
  qed
qed

theorem no_service_before_welcome_witness:
  "\<exists>co e. session toy_nacl echo (Inr \<lparr>incoming = [Inr (message_text (demo_frame ''refused'' [] []))], write_errs = [], sent = []\<rparr>)
       (demo_client, 0) = ((demo_client, 0), co, e)"
proof -
  let ?c = "\<lparr>incoming = [Inr (message_text (demo_frame ''refused'' [] []))], write_errs = [], sent = []\<rparr>"
  have v: "valid_message (demo_frame ''refused'' [] [])"
    by (simp add: valid_message_def demo_frame_def empty_message_def valid_utf8_ascii_Cons)
  obtain cl' st' co e where s: "session toy_nacl echo (Inr ?c) (demo_client, 0) = ((cl', st'), co, e)"
    using session_result [of toy_nacl echo "Inr ?c" "(demo_client, 0)"] by blast
  have "\<not> read_welcome (incoming ?c) rest" for rest
    using unmarshal_message [OF v, of empty_message] by (auto simp: read_welcome_def demo_frame_def)
  with no_service_before_welcome [OF s] s show ?thesis by auto
qed

text \<open>The backoff over a run: a state it leaves valid, and the wait that follows a connection.\<close>

lemma session_backoff:
  assumes "session cr handle d cs = (cs', co, e)"
  shows "cl_backoff (fst cs') = cl_backoff (fst cs) \<or> cl_backoff (fst cs') = backoff_reset"
  using assms
  by (cases cs) (auto simp: session_def setState_def split: sum.splits prod.splits option.splits)

lemma run_waits:
  "Run cr handle as cs = (cs', waits, cos, r) \<Longrightarrow> backoff_valid (cl_backoff (fst cs)) \<Longrightarrow>
     backoff_valid (cl_backoff (fst cs')) \<and> (\<forall>d\<in>set waits. second \<le> d \<and> d \<le> 30 * second)"
proof (induction as arbitrary: cs cs' waits cos r)
  case (Cons a as)
  obtain cs1 co e where s: "session cr handle (dial a) cs = (cs1, co, e)" by (metis prod_cases3)
  have v1: "backoff_valid (cl_backoff (fst cs1))"
    using session_backoff [OF s] Cons.prems(2) relay_backoff.fresh_valid by metis
  obtain cur w where b: "backoff_next (cl_backoff (fst cs1)) = (cur, w)" by fastforce
  note v2 = relay_backoff.next_valid [OF v1 b]
  show ?case
  proof (cases e)
    case (Crashed msg)
    with s Cons.prems(1) v1 show ?thesis by simp
  next
    case (Lost err)
    show ?thesis
    proof (cases "cancelled a \<or> cancelled_waiting a")
      case True
      with s Lost Cons.prems(1) v1 v2 b show ?thesis by (auto simp: Let_def split: if_splits)
    next
      case False
      obtain cs3 ws cos3 r3 where rest: "Run cr handle as ((fst cs1)\<lparr>cl_backoff := cur\<rparr>, snd cs1) = (cs3, ws, cos3, r3)"
        by (metis prod_cases4)
      from False s Lost Cons.prems(1) b rest have "cs' = cs3" "waits = w # ws" by (auto simp: Let_def)
      with Cons.IH [OF rest] v2 show ?thesis by simp
    qed
  qed
qed simp

text \<open>
  Every wait between two connections is at least one second and at most thirty, whatever the
  connections did, and whatever the earlier waits were.
\<close>

theorem reconnect_waits_bounded:
  assumes "Run cr handle as (OnState (newClient i k), st) = (cs', waits, cos, r)"
  shows "\<forall>d\<in>set waits. second \<le> d \<and> d \<le> 30 * second"
proof -
  have "backoff_valid (cl_backoff (fst (OnState (newClient i k), st)))"
    by (simp add: OnState_def newClient_def relay_backoff.fresh_valid)
  from run_waits [OF assms this] show ?thesis by blast
qed

definition failed_dial :: attempt where
  "failed_dial = \<lparr>dial = Inl ''connection refused'', cancelled = False, cancelled_waiting = False\<rparr>"

theorem reconnect_waits_bounded_witness:
  "list_all (\<lambda>d. second \<le> d \<and> d \<le> 30 * second) [1 * second, 2 * second, 4 * second]"
proof -
  have "Run toy_nacl echo [failed_dial, failed_dial, failed_dial] (OnState (newClient ''a'' relay_keys), 0)
      = ((OnState (newClient ''a'' relay_keys)\<lparr>cl_backoff := 4 * second\<rparr>, 0),
         [1 * second, 2 * second, 4 * second], [None, None, None], Running)"
    by (simp add: failed_dial_def session_def backoff_next_def second_def OnState_def newClient_def backoff_reset_def Let_def)
  from reconnect_waits_bounded [OF this] show ?thesis by simp
qed

text \<open>
  C29. While the relay cannot be reached the waits double from one second up to thirty, and the
  loop goes on: \<open>n\<close> failed dials give the waits \<open>min 30 (2 ^ i)\<close> seconds and leave the handler
  untouched.
\<close>

theorem unreachable_relay_waits:
  "\<exists>cl'. Run cr handle (replicate n failed_dial) (newClient i k, st)
     = ((cl', st), map (\<lambda>j. min (30 * second) (2 ^ j * second)) [0..<n], replicate n None, Running)"
proof -
  let ?b = "\<lambda>j :: nat. if j = 0 then 0 else min (30 * second) (2 ^ (j - 1) * second)"
  have "\<exists>cl'. Run cr handle (replicate n failed_dial) (cl, st)
     = ((cl', st), map (\<lambda>j. min (30 * second) (2 ^ j * second)) [m..<m + n], replicate n None, Running)"
    if "cl_backoff cl = ?b m" for cl m
    using that
  proof (induction n arbitrary: cl m)
    case (Suc n)
    obtain cl' where ih: "Run cr handle (replicate n failed_dial) (cl\<lparr>cl_backoff := min (30 * second) (2 ^ m * second)\<rparr>, st)
        = ((cl', st), map (\<lambda>j. min (30 * second) (2 ^ j * second)) [Suc m..<Suc m + n], replicate n None, Running)"
      using Suc.IH [of "cl\<lparr>cl_backoff := min (30 * second) (2 ^ m * second)\<rparr>" "Suc m"] by auto
    moreover have "[m..<m + Suc n] = m # [Suc m..<Suc m + n]" by (simp add: upt_conv_Cons)
    moreover have "session cr handle (dial failed_dial) (cl, st) = ((cl, st), None, Lost (''dial: '' @ ''connection refused''))"
      by (simp add: session_def failed_dial_def)
    moreover have "\<not> cancelled failed_dial" "\<not> cancelled_waiting failed_dial" by (simp_all add: failed_dial_def)
    ultimately show ?case
      using backoff_step [of m] Suc.prems by (simp add: Let_def)
  qed simp
  from this [of "newClient i k" 0] show ?thesis by (simp add: newClient_def backoff_reset_def)
qed







text \<open>
  The loop ends only because the context was cancelled or the handler panicked; otherwise it
  has made every attempt of the script and is still running.
\<close>

theorem run_ends_only_cancelled:
  "Run cr handle as cs = (cs', waits, cos, r) \<Longrightarrow>
     (r = Running \<and> length cos = length as \<and> length waits = length as)
     \<or> (r = Stopped \<and> (\<exists>a\<in>set as. cancelled a \<or> cancelled_waiting a))
     \<or> (\<exists>msg. r = Dead msg)"
proof (induction as arbitrary: cs cs' waits cos r)
  case (Cons a as)
  obtain cs1 co e where s: "session cr handle (dial a) cs = (cs1, co, e)" by (metis prod_cases3)
  obtain cur w where b: "backoff_next (cl_backoff (fst cs1)) = (cur, w)" by fastforce
  show ?case
  proof (cases "(\<exists>msg. e = Crashed msg) \<or> cancelled a \<or> cancelled_waiting a")
    case True
    with s Cons.prems(1) b show ?thesis by (auto simp: Let_def split: ended.splits if_splits)
  next
    case False
    then obtain err where "e = Lost err" by (cases e) auto
    obtain cs3 ws cos3 r3 where rest: "Run cr handle as ((fst cs1)\<lparr>cl_backoff := cur\<rparr>, snd cs1) = (cs3, ws, cos3, r3)"
      by (metis prod_cases4)
    from False s \<open>e = Lost err\<close> Cons.prems(1) b rest
    have "waits = w # ws" "cos = co # cos3" "r = r3" by (auto simp: Let_def)
    with Cons.IH [OF rest] show ?thesis by auto
  qed
qed simp

theorem run_ends_only_cancelled_witness:
  "\<exists>cs' waits cos r. Run toy_nacl echo [failed_dial, failed_dial] (newClient ''a'' relay_keys, 0) = (cs', waits, cos, r)
     \<and> (r = Running \<and> length waits = 2
        \<or> r = Stopped \<and> (\<exists>a\<in>set [failed_dial, failed_dial]. cancelled a \<or> cancelled_waiting a) \<or> (\<exists>msg. r = Dead msg))"
proof -
  obtain cs' waits cos r where run: "Run toy_nacl echo [failed_dial, failed_dial] (newClient ''a'' relay_keys, 0)
      = (cs', waits, cos, r)"
    by (cases "Run toy_nacl echo [failed_dial, failed_dial] (newClient ''a'' relay_keys, 0)") auto
  from run_ends_only_cancelled [OF run] run show ?thesis by auto
qed

end
