(* ===== verification/Logind.thy ===== *)
theory Logind
  imports Session Json_Text
begin

text \<open>
  \<open>internal/session/logind_linux.go\<close>: the session layer on Linux, over the system D-Bus. The bus
  and the service behind it are parameters: a record of the three requests the code makes, each a
  function on the state \<open>'b\<close> of the other side.
\<close>

definition sessionIface :: string where
  "sessionIface = ''org.freedesktop.login1.Session''"

text \<open>A variant as far as the code looks into it; the last constructor holds the name of its Go type.\<close>

datatype dbus_value = VBool bool | VString string | VOther string

record listedSession =
  ls_ID :: string
  ls_UID :: "32 word"
  ls_User :: string
  ls_Seat :: string
  ls_Path :: string

record 'b bus =
  bus_list :: "'b \<Rightarrow> 'b \<times> listedSession list result"
  bus_get :: "'b \<Rightarrow> string \<Rightarrow> string \<Rightarrow> 'b \<times> dbus_value result"
  bus_lock :: "'b \<Rightarrow> string \<Rightarrow> 'b \<times> string option"

definition type_name :: "dbus_value \<Rightarrow> string" where
  "type_name v = (case v of VBool _ \<Rightarrow> ''bool'' | VString _ \<Rightarrow> ''string'' | VOther t \<Rightarrow> t)"

definition session_prop :: "string \<Rightarrow> string" where
  "session_prop name = sessionIface @ ''.'' @ name"

definition boolProp :: "'b bus \<Rightarrow> 'b \<Rightarrow> string \<Rightarrow> string \<Rightarrow> 'b \<times> bool" where
  "boolProp bus b p name =
     (case bus_get bus b p (session_prop name) of
        (b', Inr (VBool v)) \<Rightarrow> (b', v)
      | (b', _) \<Rightarrow> (b', False))"

definition stringProp :: "'b bus \<Rightarrow> 'b \<Rightarrow> string \<Rightarrow> string \<Rightarrow> 'b \<times> string" where
  "stringProp bus b p name =
     (case bus_get bus b p (session_prop name) of
        (b', Inr (VString v)) \<Rightarrow> (b', v)
      | (b', _) \<Rightarrow> (b', []))"

text \<open>The loop over the listed sessions: the candidates, and the map from identifier to path.\<close>

fun collect ::
  "'b bus \<Rightarrow> 32 word \<Rightarrow> listedSession list \<Rightarrow> 'b \<times> (string \<rightharpoonup> string) \<times> candidate list
     \<Rightarrow> 'b \<times> (string \<rightharpoonup> string) \<times> candidate list" where
  "collect bus uid [] acc = acc"
| "collect bus uid (s # listed) (b, paths, cands) =
     (if ls_UID s \<noteq> uid then collect bus uid listed (b, paths, cands)
      else let (b1, cls) = stringProp bus b (ls_Path s) ''Class'';
               (b2, act) = boolProp bus b1 (ls_Path s) ''Active'';
               (b3, typ) = stringProp bus b2 (ls_Path s) ''Type''
           in collect bus uid listed
                (b3, paths(ls_ID s \<mapsto> ls_Path s),
                 cands @ [\<lparr>ID = ls_ID s, Class = cls, Active = act, Graphical = isGraphical typ\<rparr>]))"

definition sessionPath :: "'b bus \<Rightarrow> 32 word \<Rightarrow> 'b \<Rightarrow> 'b \<times> string result" where
  "sessionPath bus uid b =
     (case bus_list bus b of
        (b1, Inl err) \<Rightarrow> (b1, Inl (''session: list sessions: '' @ err))
      | (b1, Inr listed) \<Rightarrow>
          (case collect bus uid listed (b1, Map.empty, []) of
             (b2, paths, cands) \<Rightarrow>
               (case pickCandidate cands of
                  None \<Rightarrow> (b2, Inl (''session: no lockable logind session for uid '' @ int_string (uint uid)))
                | Some c \<Rightarrow> (b2, Inr (case paths (ID c) of None \<Rightarrow> [] | Some p \<Rightarrow> p)))))"

definition logind_Locked :: "'b bus \<Rightarrow> 32 word \<Rightarrow> 'b \<Rightarrow> 'b \<times> bool result" where
  "logind_Locked bus uid b =
     (case sessionPath bus uid b of
        (b1, Inl err) \<Rightarrow> (b1, Inl err)
      | (b1, Inr p) \<Rightarrow>
          (case bus_get bus b1 p (session_prop ''LockedHint'') of
             (b2, Inl err) \<Rightarrow> (b2, Inl (''session: read LockedHint: '' @ err))
           | (b2, Inr (VBool locked)) \<Rightarrow> (b2, Inr locked)
           | (b2, Inr v) \<Rightarrow> (b2, Inl (''session: LockedHint has unexpected type '' @ type_name v))))"

definition logind_Lock :: "'b bus \<Rightarrow> 32 word \<Rightarrow> 'b \<Rightarrow> 'b \<times> string option" where
  "logind_Lock bus uid b =
     (case sessionPath bus uid b of
        (b1, Inl err) \<Rightarrow> (b1, Some err)
      | (b1, Inr p) \<Rightarrow>
          (case bus_lock bus b1 p of
             (b2, Some err) \<Rightarrow> (b2, Some (''session: lock: '' @ err))
           | (b2, None) \<Rightarrow> (b2, None)))"

definition logind_controller :: "'b bus \<Rightarrow> 32 word \<Rightarrow> 'b controller" where
  "logind_controller bus uid = \<lparr>ctrl_locked = logind_Locked bus uid, ctrl_lock = logind_Lock bus uid\<rparr>"

text \<open>\<open>New\<close>: the argument is the result of connecting to the system bus.\<close>

definition logind_New :: "'b bus result \<Rightarrow> 32 word \<Rightarrow> 'b \<Rightarrow> 'b \<times> 'b controller result" where
  "logind_New connected uid b =
     (case connected of
        Inl err \<Rightarrow> (b, Inl (''session: connect system bus: '' @ err))
      | Inr bus \<Rightarrow>
          (case sessionPath bus uid b of
             (b1, Inl err) \<Rightarrow> (b1, Inl err)
           | (b1, Inr _) \<Rightarrow> (b1, Inr (logind_controller bus uid))))"

section \<open>Watching\<close>

text \<open>The body of a signal, as far as the code distinguishes its elements.\<close>

datatype body_value = BString string | BChanged "string list" | BNames "string list" | BOther

definition body_string :: "body_value \<Rightarrow> string" where
  "body_string v = (case v of BString s \<Rightarrow> s | _ \<Rightarrow> [])"

definition mentionsLockedHint :: "body_value list option \<Rightarrow> bool" where
  "mentionsLockedHint sig =
     (case sig of
        Some (iface # changed # invalidated # _) \<Rightarrow>
          (if body_string iface \<noteq> sessionIface then False
           else if (case changed of BChanged ks \<Rightarrow> ''LockedHint'' \<in> set ks | _ \<Rightarrow> False) then True
           else (case invalidated of BNames ns \<Rightarrow> ''LockedHint'' \<in> set ns | _ \<Rightarrow> False))
      | _ \<Rightarrow> False)"

text \<open>
  The events of the loop in the order it receives them. Between two events the other side may
  change, so an event comes with what happened to it before.
\<close>

datatype 'b watch_event = Done | Signalled "'b \<Rightarrow> 'b" "body_value list option"

text \<open>The loop, with the last state reported; the calls of the callback and the end are returned.\<close>

fun watch_loop ::
  "'b bus \<Rightarrow> 32 word \<Rightarrow> bool \<Rightarrow> 'b watch_event list \<Rightarrow> 'b \<Rightarrow> 'b \<times> bool list \<times> string option" where
  "watch_loop bus uid prev [] b = (b, [], None)"
| "watch_loop bus uid prev (Done # evs) b = (b, [], Some ''context canceled'')"
| "watch_loop bus uid prev (Signalled f sig # evs) b =
     (if \<not> mentionsLockedHint sig then watch_loop bus uid prev evs (f b)
      else case logind_Locked bus uid (f b) of
             (b1, Inl _) \<Rightarrow> watch_loop bus uid prev evs b1
           | (b1, Inr locked) \<Rightarrow>
               if locked = prev then watch_loop bus uid prev evs b1
               else (case watch_loop bus uid locked evs b1 of
                       (b2, calls, r) \<Rightarrow> (b2, locked # calls, r)))"

text \<open>\<open>Watch\<close>: the first argument is the outcome of the subscription.\<close>

definition logind_Watch ::
  "string option \<Rightarrow> 'b bus \<Rightarrow> 32 word \<Rightarrow> 'b watch_event list \<Rightarrow> 'b \<Rightarrow> 'b \<times> bool list \<times> string option" where
  "logind_Watch subscribed bus uid evs b =
     (case subscribed of
        Some err \<Rightarrow> (b, [], Some (''session: subscribe: '' @ err))
      | None \<Rightarrow>
          (case logind_Locked bus uid b of
             (b1, Inl err) \<Rightarrow> (b1, [], Some err)
           | (b1, Inr prev) \<Rightarrow>
               (case watch_loop bus uid prev evs b1 of (b2, calls, r) \<Rightarrow> (b2, prev # calls, r))))"

text \<open>
  When the connection to the bus ends its library closes the channel, and every receive from a closed
  channel yields nil at once: the loop neither reports nor returns.
\<close>

lemma closed_channel_spins: "watch_loop bus uid prev (replicate n (Signalled id None)) b = (b, [], None)"
  by (induction n) (simp_all add: mentionsLockedHint_def)

section \<open>What the bus is asked\<close>

text \<open>
  The documented behaviour of login1, by the log \<open>asked\<close> of the \<open>Lock\<close> calls it has received, each with
  the session it was addressed to: listing sessions and reading properties are no such call, a
  \<open>Lock\<close> call that succeeds has been received, one that fails may have been. What the service makes
  of a request, a signal to the session, is not part of the laws.
\<close>

definition bus_laws :: "'b bus \<Rightarrow> ('b \<Rightarrow> string list) \<Rightarrow> bool" where
  "bus_laws bus asked =
     ((\<forall>b. asked (fst (bus_list bus b)) = asked b)
      \<and> (\<forall>b p n. asked (fst (bus_get bus b p n)) = asked b)
      \<and> (\<forall>b p. snd (bus_lock bus b p) = None \<longrightarrow> asked (fst (bus_lock bus b p)) = asked b @ [p])
      \<and> (\<forall>b p. snd (bus_lock bus b p) \<noteq> None \<longrightarrow>
           asked (fst (bus_lock bus b p)) = asked b \<or> asked (fst (bus_lock bus b p)) = asked b @ [p]))"

lemma prop_asked:
  assumes "bus_laws bus asked"
  shows "asked (fst (stringProp bus b p n)) = asked b" "asked (fst (boolProp bus b p n)) = asked b"
proof -
  have "asked (fst (bus_get bus b p (session_prop n))) = asked b" using assms by (simp add: bus_laws_def)
  then show "asked (fst (stringProp bus b p n)) = asked b" "asked (fst (boolProp bus b p n)) = asked b"
    by (auto simp: stringProp_def boolProp_def split: prod.splits sum.splits dbus_value.splits)
qed

lemma collect_asked:
  assumes "bus_laws bus asked"
  shows "asked (fst (collect bus uid listed acc)) = asked (fst acc)"
proof (induction listed arbitrary: acc)
  case (Cons s listed)
  obtain b paths cands where acc: "acc = (b, paths, cands)" by (cases acc) auto
  note p = prop_asked [OF assms]
  show ?case
    using Cons p(1) [of b "ls_Path s" "''Class''"]
      p(2) [of "fst (stringProp bus b (ls_Path s) ''Class'')" "ls_Path s" "''Active''"]
      p(1) [of "fst (boolProp bus (fst (stringProp bus b (ls_Path s) ''Class'')) (ls_Path s) ''Active'')" "ls_Path s" "''Type''"]
    by (simp add: acc split: prod.splits) (metis fst_conv)
qed simp

lemma sessionPath_asked:
  assumes "bus_laws bus asked" and "sessionPath bus uid b = (b', r)"
  shows "asked b' = asked b"
proof -
  obtain b1 lr where l: "bus_list bus b = (b1, lr)" by fastforce
  have "asked (fst (bus_list bus b)) = asked b" using assms(1) by (simp add: bus_laws_def)
  with l have b1: "asked b1 = asked b" by simp
  show ?thesis
  proof (cases lr)
    case (Inl err)
    with assms(2) l b1 show ?thesis by (simp add: sessionPath_def)
  next
    case (Inr listed)
    with assms(2) l have "b' = fst (collect bus uid listed (b1, Map.empty, []))"
      by (auto simp: sessionPath_def split: prod.splits option.splits)
    with collect_asked [OF assms(1), of uid listed "(b1, Map.empty, [])"] b1 show ?thesis by simp
  qed
qed

lemma logind_Locked_asked:
  assumes "bus_laws bus asked" and "logind_Locked bus uid b = (b', r)"
  shows "asked b' = asked b"
proof -
  obtain b1 pr where p: "sessionPath bus uid b = (b1, pr)" by fastforce
  note r1 = sessionPath_asked [OF assms(1) p]
  show ?thesis
  proof (cases pr)
    case (Inl err)
    with assms(2) p r1 show ?thesis by (simp add: logind_Locked_def)
  next
    case (Inr path)
    with assms(2) p have "b' = fst (bus_get bus b1 path (session_prop ''LockedHint''))"
      by (auto simp: logind_Locked_def split: prod.splits sum.splits dbus_value.splits)
    with assms(1) r1 show ?thesis by (simp add: bus_laws_def)
  qed
qed

text \<open>A successful \<open>Lock\<close> is one call, to the session selected; a failed one is at most one call.\<close>

lemma logind_Lock_asked:
  assumes "bus_laws bus asked"
  shows "logind_Lock bus uid b = (b', None) \<Longrightarrow>
      \<exists>p. snd (sessionPath bus uid b) = Inr p \<and> asked b' = asked b @ [p]"
    and "logind_Lock bus uid b = (b', Some e) \<Longrightarrow> asked b' = asked b \<or> (\<exists>p. asked b' = asked b @ [p])"
proof -
  obtain b1 pr where s: "sessionPath bus uid b = (b1, pr)" by fastforce
  note r1 = sessionPath_asked [OF assms s]
  have ok: "asked b2 = asked b1 @ [p]" if "bus_lock bus b1 p = (b2, None)" for p b2
    using assms that unfolding bus_laws_def by (metis fst_conv snd_conv)
  have failed: "asked b2 = asked b1 \<or> asked b2 = asked b1 @ [p]" if "bus_lock bus b1 p = (b2, Some err)" for p b2 err
    using assms that unfolding bus_laws_def by (metis fst_conv snd_conv option.distinct(1))
  show "logind_Lock bus uid b = (b', None) \<Longrightarrow> \<exists>p. snd (sessionPath bus uid b) = Inr p \<and> asked b' = asked b @ [p]"
    using s r1 by (auto simp: logind_Lock_def dest: ok split: sum.splits prod.splits option.splits)
  show "logind_Lock bus uid b = (b', Some e) \<Longrightarrow> asked b' = asked b \<or> (\<exists>p. asked b' = asked b @ [p])"
    using s r1 by (auto simp: logind_Lock_def dest: failed split: sum.splits prod.splits option.splits)
qed

text \<open>Under these laws the Linux session layer meets the contract of a session controller.\<close>

lemma logind_session_controller:
  assumes "bus_laws bus asked"
  shows "session_controller (logind_controller bus uid) (\<lambda>b. length (asked b))"
proof
  fix b b' r
  assume "ctrl_locked (logind_controller bus uid) b = (b', r)"
  then show "length (asked b') = length (asked b)"
    by (simp add: logind_controller_def logind_Locked_asked [OF assms])
next
  fix b b'
  assume "ctrl_lock (logind_controller bus uid) b = (b', None)"
  with logind_Lock_asked(1) [OF assms, of uid b b'] show "length (asked b') = Suc (length (asked b))"
    by (auto simp: logind_controller_def)
next
  fix b b' e
  assume "ctrl_lock (logind_controller bus uid) b = (b', Some e)"
  with logind_Lock_asked(2) [OF assms, of uid b b' e]
  show "length (asked b) \<le> length (asked b') \<and> length (asked b') \<le> Suc (length (asked b))"
    by (auto simp: logind_controller_def)
qed

section \<open>A concrete login1\<close>

text \<open>
  An instance of the laws, for the witnesses: the sessions with their properties, and the log of the
  \<open>Lock\<close> calls received. A call on a known path is logged, which stands for the signal login1 emits,
  and changes no property; one on an unknown path is an error.
\<close>

record login_session =
  lg_listed :: listedSession
  lg_class :: string
  lg_type :: string
  lg_active :: bool
  lg_locked :: bool

record login1 =
  sessions :: "login_session list"
  lock_calls :: "string list"

definition login1_get :: "login1 \<Rightarrow> string \<Rightarrow> string \<Rightarrow> login1 \<times> dbus_value result" where
  "login1_get b p n =
     (b, case find (\<lambda>s. ls_Path (lg_listed s) = p) (sessions b) of
           None \<Rightarrow> Inl ''unknown object''
         | Some s \<Rightarrow>
             if n = session_prop ''Class'' then Inr (VString (lg_class s))
             else if n = session_prop ''Type'' then Inr (VString (lg_type s))
             else if n = session_prop ''Active'' then Inr (VBool (lg_active s))
             else if n = session_prop ''LockedHint'' then Inr (VBool (lg_locked s))
             else Inl ''unknown property'')"

definition login1_lock :: "login1 \<Rightarrow> string \<Rightarrow> login1 \<times> string option" where
  "login1_lock b p =
     (if \<exists>s\<in>set (sessions b). ls_Path (lg_listed s) = p
      then (b\<lparr>lock_calls := lock_calls b @ [p]\<rparr>, None)
      else (b, Some ''unknown object''))"

definition login1_bus :: "login1 bus" where
  "login1_bus =
     \<lparr>bus_list = (\<lambda>b. (b, Inr (map lg_listed (sessions b)))), bus_get = login1_get, bus_lock = login1_lock\<rparr>"

lemma login1_laws: "bus_laws login1_bus lock_calls"
  by (auto simp: bus_laws_def login1_bus_def login1_get_def login1_lock_def)

interpretation logind: session_controller "logind_controller login1_bus uid" "\<lambda>b. length (lock_calls b)" for uid
  by (rule logind_session_controller [OF login1_laws])

section \<open>Properties\<close>

lemma collect_own:
  assumes "collect bus uid listed (b, paths, cands) = (b', paths', cands')"
    and "\<forall>k p. paths k = Some p \<longrightarrow> (\<exists>s\<in>S. ls_UID s = uid \<and> ls_Path s = p)"
    and "\<forall>c\<in>set cands. paths (ID c) \<noteq> None" and "set listed \<subseteq> S"
  shows "(\<forall>k p. paths' k = Some p \<longrightarrow> (\<exists>s\<in>S. ls_UID s = uid \<and> ls_Path s = p))
    \<and> (\<forall>c\<in>set cands'. paths' (ID c) \<noteq> None)"
  using assms
proof (induction listed arbitrary: b paths cands)
  case (Cons s listed)
  show ?case
  proof (cases "ls_UID s = uid")
    case False
    with Cons show ?thesis by simp
  next
    case True
    then obtain b3 c where step: "collect bus uid listed (b3, paths(ls_ID s \<mapsto> ls_Path s), cands @ [c]) = (b', paths', cands')"
        "ID c = ls_ID s"
      using Cons.prems(1) by (auto split: prod.splits)
    show ?thesis
      by (rule Cons.IH [OF step(1)]) (use Cons.prems True step(2) in auto)
  qed
qed simp

lemma sessionPath_own:
  assumes "snd (sessionPath bus uid b) = Inr p"
  shows "\<exists>b1 listed s. bus_list bus b = (b1, Inr listed) \<and> s \<in> set listed \<and> ls_UID s = uid \<and> ls_Path s = p"
proof -
  obtain b1 listed where l: "bus_list bus b = (b1, Inr listed)"
    using assms by (auto simp: sessionPath_def split: prod.splits sum.splits)
  obtain b2 paths cands where c: "collect bus uid listed (b1, Map.empty, []) = (b2, paths, cands)" by (metis prod_cases3)
  then obtain cand where cand: "pickCandidate cands = Some cand"
      "p = (case paths (ID cand) of None \<Rightarrow> [] | Some q \<Rightarrow> q)"
    using assms l by (auto simp: sessionPath_def split: option.splits)
  from pickCandidate_SomeD [OF cand(1)] have "cand \<in> set cands" by auto
  with collect_own [OF c, of "set listed"] cand(2) l show ?thesis by fastforce
qed

text \<open>
  C32. The session the agent reads and locks is always one that login1 lists for the agent's own
  user, whatever the properties of the sessions are.
\<close>

theorem own_session_only:
  assumes "sessionPath bus uid b = (b', Inr p)"
  shows "\<exists>b1 listed s. bus_list bus b = (b1, Inr listed) \<and> s \<in> set listed \<and> ls_UID s = uid \<and> ls_Path s = p"
  by (rule sessionPath_own) (simp add: assms)

definition demo_login1 :: login1 where
  "demo_login1 =
     \<lparr>sessions =
        [\<lparr>lg_listed = \<lparr>ls_ID = ''c1'', ls_UID = 120, ls_User = ''gdm'', ls_Seat = ''seat0'', ls_Path = ''/s/c1''\<rparr>,
          lg_class = ''greeter'', lg_type = ''wayland'', lg_active = True, lg_locked = False\<rparr>,
         \<lparr>lg_listed = \<lparr>ls_ID = ''3'', ls_UID = 1000, ls_User = ''user'', ls_Seat = [], ls_Path = ''/s/_33''\<rparr>,
          lg_class = ''user'', lg_type = ''tty'', lg_active = True, lg_locked = False\<rparr>,
         \<lparr>lg_listed = \<lparr>ls_ID = ''2'', ls_UID = 1000, ls_User = ''user'', ls_Seat = ''seat0'', ls_Path = ''/s/_32''\<rparr>,
          lg_class = ''user'', lg_type = ''wayland'', lg_active = True, lg_locked = False\<rparr>],
      lock_calls = []\<rparr>"

lemma login1_get_same: "fst (bus_get login1_bus b p n) = b"
  by (simp add: login1_bus_def login1_get_def)

lemma login1_eval:
  "bus_list login1_bus b = (b, Inr (map lg_listed (sessions b)))"
  "stringProp login1_bus b p n = (b, case snd (login1_get b p (session_prop n)) of Inr (VString v) \<Rightarrow> v | _ \<Rightarrow> [])"
  "boolProp login1_bus b p n = (b, case snd (login1_get b p (session_prop n)) of Inr (VBool v) \<Rightarrow> v | _ \<Rightarrow> False)"
  by (auto simp: login1_bus_def stringProp_def boolProp_def login1_get_def split: option.splits sum.splits dbus_value.splits)

lemma demo_sessionPath: "sessionPath login1_bus 1000 demo_login1 = (demo_login1, Inr ''/s/_32'')"
  by (simp add: sessionPath_def login1_eval demo_login1_def login1_get_def session_prop_def isGraphical_def
      pickCandidate_def isLockable_def score_def)

theorem own_session_only_witness:
  "\<exists>s. s \<in> set (map lg_listed (sessions demo_login1)) \<and> ls_UID s = 1000 \<and> ls_Path s = ''/s/_32''"
  using own_session_only [OF demo_sessionPath] by (auto simp: login1_eval)

fun readings :: "'b bus \<Rightarrow> 32 word \<Rightarrow> 'b watch_event list \<Rightarrow> 'b \<Rightarrow> bool list" where
  "readings bus uid [] b = []"
| "readings bus uid (Done # evs) b = []"
| "readings bus uid (Signalled f sig # evs) b =
     (if \<not> mentionsLockedHint sig then readings bus uid evs (f b)
      else case logind_Locked bus uid (f b) of
             (b1, Inl _) \<Rightarrow> readings bus uid evs b1
           | (b1, Inr locked) \<Rightarrow> locked # readings bus uid evs b1)"

lemma watch_loop_readings:
  "watch_loop bus uid prev evs b = (b', calls, r) \<Longrightarrow> prev # calls = remdups_adj (prev # readings bus uid evs b)"
proof (induction bus uid prev evs b arbitrary: b' calls r rule: watch_loop.induct)
  case (3 bus uid prev f sig evs b)
  show ?case
  proof (cases "mentionsLockedHint sig")
    case False
    with 3 show ?thesis by simp
  next
    case True
    obtain b1 lr where l: "logind_Locked bus uid (f b) = (b1, lr)" by fastforce
    show ?thesis
    proof (cases lr)
      case (Inl err)
      with 3 True l show ?thesis by simp
    next
      case (Inr locked)
      with 3 True l show ?thesis by (auto split: if_splits prod.splits)
    qed
  qed
qed simp_all

text \<open>
  C33. Watching reports the first state and then each change of the state read at a signal that
  mentions the lock hint: the calls of the callback are those readings, failed ones left out, with
  adjacent repetitions merged. So no state is reported twice in a row, and the last state reported
  is the last one read.
\<close>

theorem watch_reports_changes:
  assumes "logind_Locked bus uid b = (b1, Inr start)" and "logind_Watch None bus uid evs b = (b', calls, r)"
  shows "calls = remdups_adj (start # readings bus uid evs b1)"
  using assms watch_loop_readings [of bus uid start evs b1]
  by (auto simp: logind_Watch_def split: prod.splits)

lemma demo_locked: "logind_Locked login1_bus 1000 demo_login1 = (demo_login1, Inr False)"
  by (simp add: logind_Locked_def demo_sessionPath)
     (simp add: login1_bus_def demo_login1_def login1_get_def session_prop_def)

theorem watch_reports_changes_witness:
  "\<exists>b' calls r. logind_Watch None login1_bus 1000 [Signalled id None, Done] demo_login1 = (b', calls, r)
     \<and> calls = remdups_adj [False]"
proof -
  obtain b' calls r where w: "logind_Watch None login1_bus 1000 [Signalled id None, Done] demo_login1 = (b', calls, r)"
    by (metis prod_cases3)
  from watch_reports_changes [OF demo_locked w] w show ?thesis by (simp add: mentionsLockedHint_def)
qed

end
