(* ===== verification/Wts.thy ===== *)
theory Wts
  imports Session Json_Text
begin

text \<open>
  \<open>internal/session/wts_windows.go\<close>: the session layer on Windows. The Win32 calls are
  parameters: functions on the state \<open>'o\<close> of the operating system for the calls that read or lock
  the session, and the outcomes of the others as arguments of the definitions that make them.
\<close>

record 'o winapi =
  query_session :: "'o \<Rightarrow> 'o \<times> (nat \<times> 32 word) result"
  lock_workstation :: "'o \<Rightarrow> 'o \<times> string option"

text \<open>\<open>unsafe.Sizeof(wtsInfoExHeader\{\})\<close>: four 32-bit fields, padding included, and the flags.\<close>

definition header_size :: nat where
  "header_size = 20"

definition wts_Locked :: "'o winapi \<Rightarrow> 'o \<Rightarrow> 'o \<times> bool result" where
  "wts_Locked api s =
     (case query_session api s of
        (s', Inl err) \<Rightarrow> (s', Inl (''session: WTSQuerySessionInformation: '' @ err))
      | (s', Inr (size_bytes, flags)) \<Rightarrow>
          if size_bytes < header_size
          then (s', Inl (''session: WTSINFOEX te klein ('' @ int_string (int size_bytes) @ '' bytes)''))
          else (case lockedFromSessionFlags flags of
                  (locked, known) \<Rightarrow>
                    if \<not> known then (s', Inl (''session: onbekende SessionFlags '' @ int_string (sint flags)))
                    else (s', Inr locked)))"

definition wts_Lock :: "'o winapi \<Rightarrow> 'o \<Rightarrow> 'o \<times> string option" where
  "wts_Lock api s =
     (case lock_workstation api s of
        (s', Some err) \<Rightarrow> (s', Some (''session: LockWorkStation: '' @ err))
      | (s', None) \<Rightarrow> (s', None))"

definition wts_controller :: "'o winapi \<Rightarrow> 'o controller" where
  "wts_controller api = \<lparr>ctrl_locked = wts_Locked api, ctrl_lock = wts_Lock api\<rparr>"

definition wts_New :: "'o winapi \<Rightarrow> 'o \<Rightarrow> 'o \<times> 'o controller result" where
  "wts_New api s =
     (case wts_Locked api s of
        (s', Inl err) \<Rightarrow> (s', Inl err)
      | (s', Inr _) \<Rightarrow> (s', Inr (wts_controller api)))"

text \<open>On any other platform there is no controller.\<close>

definition stub_New :: "'o \<Rightarrow> 'o \<times> 'o controller result" where
  "stub_New s = (s, Inl ErrUnsupported)"

section \<open>The window procedure and the message loop\<close>

definition wmWtsSessionChange :: "64 word" where "wmWtsSessionChange = 0x02B1"
definition wmClose :: "64 word" where "wmClose = 0x0010"
definition wmDestroy :: "64 word" where "wmDestroy = 0x0002"

lemmas wm_defs = wmWtsSessionChange_def wmClose_def wmDestroy_def

datatype win_call = DestroyWindow | UnRegister | PostQuit | DefWindowProc

definition event_buffer :: nat where
  "event_buffer = 8"

text \<open>
  \<open>wndProc\<close>: the channel \<open>watchEvents\<close> with its capacity, the Win32 calls made, and the result; the
  last argument is what \<open>DefWindowProc\<close> returns. A send to a full channel is dropped.
\<close>

definition wndProc :: "bool list \<Rightarrow> 64 word \<Rightarrow> 64 word \<Rightarrow> 64 word \<Rightarrow> bool list \<times> win_call list \<times> 64 word" where
  "wndProc buf message wparam def_result =
     (if message = wmWtsSessionChange then
        (case lockedFromSessionEvent wparam of
           (locked, relevant) \<Rightarrow>
             (if relevant \<and> length buf < event_buffer then buf @ [locked] else buf, [], 0))
      else if message = wmClose then (buf, [DestroyWindow], 0)
      else if message = wmDestroy then (buf, [UnRegister, PostQuit], 0)
      else (buf, [DefWindowProc], def_result))"

text \<open>
  \<open>createMessageWindow\<close> and the start of \<open>messageLoop\<close>: the window handle that is sent to \<open>Watch\<close>,
  or the error. The arguments are the outcomes of registering the class, creating the window and
  registering for notifications.
\<close>

definition createMessageWindow :: "string option \<Rightarrow> 64 word \<times> string \<Rightarrow> (64 word) result" where
  "createMessageWindow class_err created =
     (case class_err of
        Some err \<Rightarrow> Inl (''session: RegisterClassEx: '' @ err)
      | None \<Rightarrow>
          (case created of (hwnd, err) \<Rightarrow>
             if hwnd = 0 then Inl (''session: CreateWindowEx: '' @ err) else Inr hwnd))"

definition messageLoop_start ::
  "string option \<Rightarrow> 64 word \<times> string \<Rightarrow> string option \<Rightarrow> win_call list \<times> (64 word) result" where
  "messageLoop_start class_err created notify_err =
     (case createMessageWindow class_err created of
        Inl err \<Rightarrow> ([], Inl err)
      | Inr hwnd \<Rightarrow>
          (case notify_err of
             Some err \<Rightarrow> ([DestroyWindow], Inl (''session: WTSRegisterSessionNotification: '' @ err))
           | None \<Rightarrow> ([], Inr hwnd)))"

section \<open>Watching\<close>

text \<open>
  \<open>Watch\<close> and the message pump run in two threads that share the channel and the channel for the
  end of the pump. An event is a step of one of them: the pump gets a message, with the result of
  \<open>GetMessage\<close>; or the select of \<open>Watch\<close> takes an element of a channel or the cancellation. A
  step that its thread cannot take in the current state changes nothing.
\<close>

datatype wts_event = Pumped "32 word" "64 word" "64 word" | TakeEvent | TakeLoopErr | Cancel

record pump =
  buffer :: "bool list"
  pumping :: bool

text \<open>\<open>GetMessage\<close> returned \<open>r\<close>; zero and below ends the pump, which sends nil to \<open>loopErr\<close>.\<close>

definition pump_step :: "32 word \<Rightarrow> 64 word \<Rightarrow> 64 word \<Rightarrow> pump \<Rightarrow> pump" where
  "pump_step r message wparam p =
     (if \<not> pumping p then p
      else if sint r \<le> 0 then p\<lparr>pumping := False\<rparr>
      else p\<lparr>buffer := fst (wndProc (buffer p) message wparam 0)\<rparr>)"

datatype watch_end = Watching | Failed string | Returned

fun wts_watch_loop :: "bool \<Rightarrow> pump \<Rightarrow> wts_event list \<Rightarrow> bool list \<times> pump \<times> watch_end" where
  "wts_watch_loop prev p [] = ([], p, Watching)"
| "wts_watch_loop prev p (Pumped r m w # evs) = wts_watch_loop prev (pump_step r m w p) evs"
| "wts_watch_loop prev p (TakeEvent # evs) =
     (case buffer p of
        [] \<Rightarrow> wts_watch_loop prev p evs
      | locked # rest \<Rightarrow>
          if locked \<noteq> prev
          then (case wts_watch_loop locked (p\<lparr>buffer := rest\<rparr>) evs of (calls, r) \<Rightarrow> (locked # calls, r))
          else wts_watch_loop prev (p\<lparr>buffer := rest\<rparr>) evs)"
| "wts_watch_loop prev p (TakeLoopErr # evs) =
     (if pumping p then wts_watch_loop prev p evs else ([], p, Returned))"
| "wts_watch_loop prev p (Cancel # evs) = ([], p, Failed ''context canceled'')"

text \<open>
  \<open>Watch\<close>, from the flag that admits one watcher: the calls of the callback, the flag afterwards
  and the end.
\<close>

definition wts_Watch ::
  "bool \<Rightarrow> 'o winapi \<Rightarrow> 'o \<Rightarrow> win_call list \<times> (64 word) result \<Rightarrow> wts_event list
     \<Rightarrow> bool list \<times> bool \<times> watch_end" where
  "wts_Watch active api s started evs =
     (if active then ([], True, Failed ''session: er draait al een watcher in dit proces'')
      else case snd (wts_Locked api s) of
             Inl err \<Rightarrow> ([], False, Failed err)
           | Inr locked \<Rightarrow>
               (case snd started of
                  Inl err \<Rightarrow> ([locked], False, Failed err)
                | Inr hwnd \<Rightarrow>
                    (case wts_watch_loop locked \<lparr>buffer = [], pumping = True\<rparr> evs of
                       (calls, p, e) \<Rightarrow> (locked # calls, e = Watching, e))))"

section \<open>A concrete workstation\<close>

text \<open>
  An instance for the witnesses: the flags these calls read, and the number of lock requests made. A
  request is only counted; when the system locks after it is left open.
\<close>

record workstation =
  session_flags :: "32 word"
  lock_requests :: nat

definition workstation_api :: "workstation winapi" where
  "workstation_api =
     \<lparr>query_session = (\<lambda>s. (s, Inr (header_size, session_flags s))),
      lock_workstation = (\<lambda>s. (s\<lparr>lock_requests := Suc (lock_requests s)\<rparr>, None))\<rparr>"

text \<open>The contract of a session controller, for any API whose query requests no lock.\<close>

lemma wts_session_controller:
  assumes "\<And>s. requests (fst (query_session api s)) = requests s"
    and "\<And>s. snd (lock_workstation api s) = None \<Longrightarrow> requests (fst (lock_workstation api s)) = Suc (requests s)"
    and "\<And>s. requests s \<le> requests (fst (lock_workstation api s))
           \<and> requests (fst (lock_workstation api s)) \<le> Suc (requests s)"
  shows "session_controller (wts_controller api) requests"
proof
  fix s s' r
  assume "ctrl_locked (wts_controller api) s = (s', r)"
  then have "s' = fst (query_session api s)"
    by (auto simp: wts_controller_def wts_Locked_def split: prod.splits sum.splits if_splits)
  then show "requests s' = requests s" by (simp add: assms(1))
next
  fix s s'
  assume "ctrl_lock (wts_controller api) s = (s', None)"
  then have "s' = fst (lock_workstation api s)" "snd (lock_workstation api s) = None"
    by (auto simp: wts_controller_def wts_Lock_def split: prod.splits option.splits)
  then show "requests s' = Suc (requests s)" by (simp add: assms(2))
next
  fix s s' e
  assume "ctrl_lock (wts_controller api) s = (s', Some e)"
  then have "s' = fst (lock_workstation api s)"
    by (auto simp: wts_controller_def wts_Lock_def split: prod.splits option.splits)
  then show "requests s \<le> requests s' \<and> requests s' \<le> Suc (requests s)" by (simp add: assms(3))
qed

interpretation workstation: session_controller "wts_controller workstation_api" lock_requests
  by (rule wts_session_controller) (simp_all add: workstation_api_def)

section \<open>Properties\<close>

text \<open>
  The lock state on Windows: it is locked exactly for the flags value 0 and unlocked exactly
  for 1; a failed query, a short answer and every other value are errors, never a state.
\<close>

theorem wts_state_or_error:
  "snd (wts_Locked api s) =
     (case snd (query_session api s) of
        Inl err \<Rightarrow> Inl (''session: WTSQuerySessionInformation: '' @ err)
      | Inr (n, flags) \<Rightarrow>
          if n < 20 then Inl (''session: WTSINFOEX te klein ('' @ int_string (int n) @ '' bytes)'')
          else if flags = 0 then Inr True
          else if flags = 1 then Inr False
          else Inl (''session: onbekende SessionFlags '' @ int_string (sint flags)))"
  by (cases "query_session api s")
     (auto simp: wts_Locked_def lockedFromSessionFlags_def header_size_def split: sum.splits prod.splits)

text \<open>
  The reference for watching: a queue without a limit between the two threads. The pump appends the lock
  event a message stands for, 7 and 8 as \<open>wparam\<close> of a session change, until it ends; \<open>Watch\<close> takes
  the oldest event. The result is what \<open>Watch\<close> has taken, what is still waiting, and whether the
  pump and \<open>Watch\<close> still run.
\<close>

definition lock_event :: "64 word \<Rightarrow> 64 word \<Rightarrow> bool list" where
  "lock_event m w = (if m = 0x02B1 \<and> w = 7 then [True] else if m = 0x02B1 \<and> w = 8 then [False] else [])"

fun queue_run :: "bool \<Rightarrow> bool list \<Rightarrow> wts_event list \<Rightarrow> bool list \<times> bool list \<times> bool \<times> bool" where
  "queue_run alive q [] = ([], q, alive, True)"
| "queue_run alive q (Pumped r m w # evs) =
     queue_run (alive \<and> 0 < sint r) (if alive \<and> 0 < sint r then q @ lock_event m w else q) evs"
| "queue_run alive [] (TakeEvent # evs) = queue_run alive [] evs"
| "queue_run alive (b # q) (TakeEvent # evs) = (case queue_run alive q evs of (taken, r) \<Rightarrow> (b # taken, r))"
| "queue_run alive q (TakeLoopErr # evs) = (if alive then queue_run alive q evs else ([], q, alive, False))"
| "queue_run alive q (Cancel # evs) = ([], q, alive, False)"

definition taken_events :: "wts_event list \<Rightarrow> bool list" where
  "taken_events evs = fst (queue_run True [] evs)"

definition waiting_events :: "bool \<Rightarrow> bool list \<Rightarrow> wts_event list \<Rightarrow> nat" where
  "waiting_events alive q evs = length (fst (snd (queue_run alive q evs)))"

text \<open>Never more than eight events are waiting.\<close>

definition fits :: "bool \<Rightarrow> bool list \<Rightarrow> wts_event list \<Rightarrow> bool" where
  "fits alive q evs = list_all (\<lambda>n. waiting_events alive q (take n evs) \<le> 8) [0..<Suc (length evs)]"

lemma fits_iff: "fits alive q evs \<longleftrightarrow> (\<forall>n. waiting_events alive q (take n evs) \<le> 8)"
proof
  assume f: "fits alive q evs"
  show "\<forall>n. waiting_events alive q (take n evs) \<le> 8"
  proof
    fix n
    have "take n evs = take (min n (length evs)) evs" by (cases "n \<le> length evs") simp_all
    with f show "waiting_events alive q (take n evs) \<le> 8"
      unfolding fits_def list_all_iff by (metis atLeastLessThan_iff atLeastLessThan_upt less_Suc_eq_le min.cobounded2 zero_le)
  qed
qed (simp add: fits_def list_all_iff)

lemma fits_here: "fits alive q evs \<Longrightarrow> length q \<le> 8"
  unfolding fits_iff by (drule spec [of _ 0]) (simp add: waiting_events_def)

lemma fits_Cons: "fits alive q (ev # evs) \<Longrightarrow> waiting_events alive q (ev # take n evs) \<le> 8"
  unfolding fits_iff by (metis take_Suc_Cons)

lemma fits_step:
  "fits alive q (Pumped r m w # evs) \<Longrightarrow>
     fits (alive \<and> 0 < sint r) (if alive \<and> 0 < sint r then q @ lock_event m w else q) evs"
  "fits alive [] (TakeEvent # evs) \<Longrightarrow> fits alive [] evs"
  "fits alive (b # q) (TakeEvent # evs) \<Longrightarrow> fits alive q evs"
  "fits True q (TakeLoopErr # evs) \<Longrightarrow> fits True q evs"
  by (subst fits_iff, rule allI, drule_tac n = n in fits_Cons, simp add: waiting_events_def split: prod.splits)+

lemma lock_event_wndProc:
  "fst (wndProc buf m w d) =
     (if lock_event m w \<noteq> [] \<and> length buf < event_buffer then buf @ lock_event m w else buf)"
  by (auto simp: wndProc_def lock_event_def lockedFromSessionEvent_def wm_defs wtsSessionLockEvent_def
      wtsSessionUnlockEvent_def split: prod.splits if_splits)

lemma pump_step_queue:
  assumes "length (buffer p @ lock_event m w) \<le> 8 \<or> \<not> (pumping p \<and> 0 < sint r)"
  shows "pump_step r m w p = \<lparr>buffer = (if pumping p \<and> 0 < sint r then buffer p @ lock_event m w else buffer p),
    pumping = (pumping p \<and> 0 < sint r)\<rparr>"
  using assms
  by (cases p) (auto simp: pump_step_def lock_event_wndProc lock_event_def event_buffer_def split: if_splits)

text \<open>As long as the queue fits, the loop reports what it takes from it, repetitions left out.\<close>

lemma watch_loop_queue:
  "wts_watch_loop prev p evs = (calls, p', e) \<Longrightarrow> fits (pumping p) (buffer p) evs \<Longrightarrow>
     queue_run (pumping p) (buffer p) evs = (taken, left, alive, running) \<Longrightarrow>
     prev # calls = remdups_adj (prev # taken) \<and> p' = \<lparr>buffer = left, pumping = alive\<rparr> \<and> (running \<longleftrightarrow> e = Watching)"
proof (induction prev p evs arbitrary: calls taken rule: wts_watch_loop.induct)
  case (1 prev p)
  then show ?case by (cases p) auto
next
  case (2 prev p r m w evs)
  let ?q = "if pumping p \<and> 0 < sint r then buffer p @ lock_event m w else buffer p"
  note f = fits_step(1) [OF 2(3)]
  have "pump_step r m w p = \<lparr>buffer = ?q, pumping = (pumping p \<and> 0 < sint r)\<rparr>"
    using fits_here [OF f] by (intro pump_step_queue) auto
  with 2 f show ?case by simp
next
  case (3 prev p evs)
  show ?case
  proof (cases "buffer p")
    case Nil
    with 3(1) [OF Nil] 3(4-6) fits_step(2) show ?thesis by auto
  next
    case (Cons locked rest)
    obtain taken' where q: "queue_run (pumping p) rest evs = (taken', left, alive, running)" "taken = locked # taken'"
      using 3(6) Cons by (auto split: prod.splits)
    have f: "fits (pumping p) rest evs" using 3(5) Cons fits_step(3) by simp
    show ?thesis
    proof (cases "locked = prev")
      case True
      with 3(3) [OF Cons, of calls taken'] 3(4) f q Cons show ?thesis by simp
    next
      case False
      with Cons 3(4) obtain calls' where c: "wts_watch_loop locked (p\<lparr>buffer := rest\<rparr>) evs = (calls', p', e)"
          "calls = locked # calls'" by (auto split: prod.splits)
      from 3(2) [OF Cons _ c(1), of taken'] False f q c(2) show ?thesis by simp
    qed
  qed
next
  case (4 prev p evs)
  show ?case
  proof (cases "pumping p")
    case True
    with 4 fits_step(4) [of "buffer p" evs] show ?thesis by simp
  next
    case False
    with 4 show ?thesis by (cases p) auto
  qed
next
  case (5 prev p evs)
  then show ?case by (cases p) auto
qed

text \<open>
  C34. Once it has started, and as long as no more than eight events are waiting at any time, watching on Windows loses nothing and
  holds nothing back: what it reports is the state it started from followed by exactly the lock and
  unlock events that have been taken from the queue, in the order of their messages, adjacent
  repetitions merged; and it goes on until it is cancelled or has been told of the end of the pump.
\<close>

theorem wts_watch_faithful:
  assumes "snd (wts_Locked api s) = Inr locked" and "snd started = Inr hwnd" and "fits True [] evs"
  shows "\<exists>e. wts_Watch False api s started evs = (remdups_adj (locked # taken_events evs), e = Watching, e)
    \<and> (e = Watching \<longleftrightarrow> snd (snd (snd (queue_run True [] evs))))"
proof -
  let ?p = "\<lparr>buffer = [], pumping = True\<rparr>"
  obtain calls p' e where l: "wts_watch_loop locked ?p evs = (calls, p', e)" by (metis prod_cases3)
  obtain taken left alive running where q: "queue_run True [] evs = (taken, left, alive, running)" by (metis prod_cases4)
  from watch_loop_queue [OF l, of taken left alive running] assms(3) q
  have "locked # calls = remdups_adj (locked # taken)" "running \<longleftrightarrow> e = Watching" by simp_all
  then show ?thesis using assms(1,2) l q by (simp add: wts_Watch_def taken_events_def)
qed

definition lock_message :: wts_event where
  "lock_message = Pumped 1 wmWtsSessionChange 7"

definition unlock_message :: wts_event where
  "unlock_message = Pumped 1 wmWtsSessionChange 8"

lemmas wts_eval = wts_Watch_def wts_Locked_def workstation_api_def lock_message_def unlock_message_def
  pump_step_def wndProc_def lockedFromSessionEvent_def lockedFromSessionFlags_def event_buffer_def
  header_size_def wm_defs

theorem wts_watch_faithful_witness:
  "wts_Watch False workstation_api \<lparr>session_flags = 1, lock_requests = 0\<rparr> ([], Inr 1)
     [lock_message, unlock_message, TakeEvent] = ([False, True], True, Watching)"
proof -
  have l: "snd (wts_Locked workstation_api \<lparr>session_flags = 1, lock_requests = 0\<rparr>) = Inr False"
    by (simp add: wts_eval)
  have f: "fits True [] [lock_message, unlock_message, TakeEvent]"
    by (simp add: fits_def waiting_events_def wts_eval lock_event_def)
  from wts_watch_faithful [OF l _ f, of "([], Inr 1)" 1] show ?thesis
    by (simp add: taken_events_def wts_eval lock_event_def)
qed

lemma pump_step_full: "length (buffer p) = 8 \<Longrightarrow> 0 < sint r \<Longrightarrow> pump_step r m w p = p"
  by (cases p) (simp add: pump_step_def lock_event_wndProc event_buffer_def)

lemma watch_loop_overflow:
  "fits (pumping p) (buffer p) evs \<Longrightarrow> waiting_events (pumping p) (buffer p) evs = 8 \<Longrightarrow> 0 < sint r \<Longrightarrow>
     wts_watch_loop prev p (evs @ Pumped r m w # later) = wts_watch_loop prev p (evs @ later)"
proof (induction prev p evs rule: wts_watch_loop.induct)
  case (1 prev p)
  then show ?case by (simp add: waiting_events_def pump_step_full)
next
  case (2 prev p r' m' w' evs)
  let ?q = "if pumping p \<and> 0 < sint r' then buffer p @ lock_event m' w' else buffer p"
  note f = fits_step(1) [OF 2(2)]
  have "pump_step r' m' w' p = \<lparr>buffer = ?q, pumping = (pumping p \<and> 0 < sint r')\<rparr>"
    using fits_here [OF f] by (intro pump_step_queue) auto
  with 2 f show ?case by (simp add: waiting_events_def)
next
  case (3 prev p evs)
  show ?case
  proof (cases "buffer p")
    case Nil
    with 3(1) [OF Nil] 3(4-6) fits_step(2) show ?thesis by (auto simp: waiting_events_def)
  next
    case (Cons locked rest)
    have w: "waiting_events (pumping p) rest evs = 8" using 3(5) Cons by (simp add: waiting_events_def split: prod.splits)
    have f: "fits (pumping p) rest evs" using 3(4) Cons fits_step(3) by simp
    show ?thesis
    proof (cases "locked = prev")
      case True
      with 3(3) [OF Cons] f w 3(6) Cons show ?thesis by simp
    next
      case False
      with 3(2) [OF Cons] f w 3(6) Cons show ?thesis by simp
    qed
  qed
next
  case (4 prev p evs)
  show ?case
  proof (cases "pumping p")
    case True
    with 4 fits_step(4) [of "buffer p" evs] show ?thesis by (simp add: waiting_events_def)
  qed simp
qed simp

text \<open>
  C39. The limit of watching on Windows: an event that arrives while eight are waiting is dropped for good.
  Whatever happens afterwards, \<open>Watch\<close> reports and ends as if the message had never come, so when
  it was the last change of the session the last state reported stays wrong.
\<close>

theorem wts_full_channel_loses_state:
  assumes "fits True [] evs" and "waiting_events True [] evs = 8" and "0 < sint r"
  shows "wts_Watch False api s started (evs @ Pumped r wmWtsSessionChange w # later)
    = wts_Watch False api s started (evs @ later)"
proof -
  have "wts_watch_loop prev \<lparr>buffer = [], pumping = True\<rparr> (evs @ Pumped r wmWtsSessionChange w # later)
      = wts_watch_loop prev \<lparr>buffer = [], pumping = True\<rparr> (evs @ later)" for prev
    by (rule watch_loop_overflow) (simp_all add: assms)
  then show ?thesis by (simp add: wts_Watch_def split: sum.split)
qed

text \<open>Eight events fill the queue, a final unlock is dropped: the last report is "locked" for good.\<close>

definition filling_run :: "wts_event list" where
  "filling_run = concat (replicate 3 [lock_message, unlock_message]) @ [lock_message, lock_message]"

theorem wts_full_channel_loses_state_witness:
  "last (fst (wts_Watch False workstation_api \<lparr>session_flags = 1, lock_requests = 0\<rparr> ([], Inr 1)
       (filling_run @ unlock_message # replicate 9 TakeEvent))) = True"
proof -
  have "fits True [] filling_run" "waiting_events True [] filling_run = 8"
    by (simp_all add: fits_def waiting_events_def filling_run_def lock_message_def unlock_message_def
        lock_event_def wm_defs numeral_eq_Suc)
  from wts_full_channel_loses_state [OF this, of 1 workstation_api "\<lparr>session_flags = 1, lock_requests = 0\<rparr>" "([], Inr 1)" 8]
  show ?thesis by (simp add: unlock_message_def [symmetric]) (simp add: wts_eval filling_run_def numeral_eq_Suc)
qed

text \<open>
  One watcher per process: while one is running another fails at once and reports nothing, and
  when a watcher ends, for whatever reason, the next one is admitted.
\<close>

theorem wts_single_watcher:
  "wts_Watch True api s started evs = ([], True, Failed ''session: er draait al een watcher in dit proces'')
   \<and> (\<forall>calls running e. wts_Watch False api s started evs = (calls, running, e) \<longrightarrow> (running \<longleftrightarrow> e = Watching))"
  by (auto simp: wts_Watch_def split: sum.splits prod.splits)

theorem wts_single_watcher_witness:
  "\<exists>calls running e. wts_Watch False workstation_api \<lparr>session_flags = 1, lock_requests = 0\<rparr> ([], Inr 1)
       [Cancel] = (calls, running, e) \<and> (running \<longleftrightarrow> e = Watching)"
proof -
  obtain calls running e where w: "wts_Watch False workstation_api \<lparr>session_flags = 1, lock_requests = 0\<rparr> ([], Inr 1)
      [Cancel] = (calls, running, e)" by (metis prod_cases3)
  with wts_single_watcher [of workstation_api "\<lparr>session_flags = 1, lock_requests = 0\<rparr>" "([], Inr 1)" "[Cancel]"]
  show ?thesis by blast
qed

end
