(* ===== verification/Agent.thy ===== *)
theory Agent
  imports GatewayRun Relay Logind Wts
begin

text \<open>
  The composition in \<open>cmd/lockping-agent/main.go\<close>: the relay client with \<open>gateway.Handle\<close> as its
  handler, on top of a session controller. The environment of each call, its clock readings and
  outcomes, is numbered by the calls.
\<close>

type_synonym 's agent = "(gateway \<times> 's world) \<times> nat"

definition gw_handler :: "'s controller \<Rightarrow> nacl \<Rightarrow> (nat \<Rightarrow> inputs) \<Rightarrow> 's agent handler" where
  "gw_handler ctrl cr env st sender p =
     (case Handle ctrl cr (env (snd st)) (fst st) sender p of
        (gw', Ret (Some reply)) \<Rightarrow> ((gw', Suc (snd st)), Replied reply)
      | (gw', Ret None) \<Rightarrow> ((gw', Suc (snd st)), Ignored)
      | (gw', Fail _) \<Rightarrow> ((gw', Suc (snd st)), Ignored)
      | (gw', Panic msg) \<Rightarrow> ((gw', Suc (snd st)), Panicked msg))"

lemma gw_handler_Handle:
  assumes "gw_handler ctrl cr env st sender p = (st', r)"
  shows "\<exists>o'. Handle ctrl cr (env (snd st)) (fst st) sender p = (fst st', o')
    \<and> (\<forall>reply. r = Replied reply \<longrightarrow> o' = Ret (Some reply))"
  using assms by (auto simp: gw_handler_def split: prod.splits outcome.splits option.splits)

section \<open>The gateway as a handler\<close>

text \<open>
  The invariant: the window pointer is valid, the allowlist has one entry per device, and its
  map is not nil, so that no pair request can panic.
\<close>

definition agent_ok :: "'s agent \<Rightarrow> bool" where
  "agent_ok st =
     (wf_store (g_devices (fst (fst st))) \<and> devices (g_devices (fst (fst st))) \<noteq> None
      \<and> (\<forall>a. g_window (fst (fst st)) = Some a \<longrightarrow> a < length (heap (snd (fst st)))))"

lemma Handle_cases:
  assumes "Handle ctrl cr i (g, w) sender p = ((g', w'), r)"
  obtains (sealed) "IsSealed p" "g' = g\<lparr>g_core := g_core g'\<rparr>" "w' = w\<lparr>sess := sess w'\<rparr>" "\<exists>o'. r = Ret o'"
    | (pair) inp where "pairFinish i (g, w) sender inp (g_window g) = ((g', w'), r)" "\<not> IsSealed p"
    | (none) "g' = g" "w' = w" "r = Ret None"
proof (cases "IsSealed p")
  case True
  with assms obtain o' where h: "handleSealed ctrl cr i (g, w) sender p = ((g', w'), o')" "r = Ret o'"
    by (auto simp: Handle_def split: prod.splits)
  from handleSealed_frame [OF h(1)] h(2) True sealed show thesis by blast
next
  case False
  with assms have h: "handlePairRequest i (g, w) sender p = ((g', w'), r)" by (simp add: Handle_def)
  show thesis
  proof (cases "pairStart g p")
    case None
    with h none show thesis by (simp add: handlePairRequest_def)
  next
    case (Some ia)
    then obtain inp where "ia = (inp, g_window g)" by (auto simp: pairStart_def split: sum.splits if_splits)
    with h Some False pair show thesis by (simp add: handlePairRequest_def)
  qed
qed

lemma agent_ok_handler:
  assumes "agent_ok st" and "gw_handler ctrl cr env st sender p = (st', r)"
  shows "agent_ok st'"
proof -
  obtain g w n where st: "st = ((g, w), n)" by (cases st) auto
  obtain g' w' n' where st': "st' = ((g', w'), n')" by (cases st') auto
  obtain o' where h: "Handle ctrl cr (env n) (g, w) sender p = ((g', w'), o')"
    using gw_handler_Handle [OF assms(2)] by (auto simp: st st')
  from h show ?thesis
  proof (cases rule: Handle_cases)
    case sealed
    have "g_devices g' = g_devices g" "g_window g' = g_window g" "heap w' = heap w"
      using arg_cong [OF sealed(2), of g_devices] arg_cong [OF sealed(2), of g_window]
        arg_cong [OF sealed(3), of heap] by simp_all
    with assms(1) show ?thesis by (simp add: agent_ok_def st st')
  next
    case (pair inp)
    have "g_window g' = g_window g" using arg_cong [OF pairFinish_frame(1) [OF pair(1)], of g_window] by simp
    with pairFinish_devices [OF pair(1)] pairFinish_frame(3) [OF pair(1)] assms(1) show ?thesis
      using wf_dev_put [of "g_devices g"] by (auto simp: agent_ok_def st st' dev_put_def)
  next
    case none
    with assms(1) show ?thesis by (simp add: agent_ok_def st st')
  qed
qed

interpretation gateway_handler: envelope_handler "gw_handler ctrl cr env" agent_ok for ctrl cr env
  by unfold_locales (rule agent_ok_handler)

text \<open>With a map that is not nil the handler never panics.\<close>

lemma gw_handler_no_panic:
  assumes "agent_ok st" and "gw_handler ctrl cr env st sender p = (st', Panicked msg)"
  shows False
proof -
  obtain g w n where st: "st = ((g, w), n)" by (cases st) auto
  obtain g' w' where h: "Handle ctrl cr (env n) (g, w) sender p = ((g', w'), Panic msg)"
    using assms(2) by (auto simp: gw_handler_def st split: prod.splits outcome.splits option.splits)
  from h show False
  proof (cases rule: Handle_cases)
    case (pair inp)
    with assms(1) show False
      by (auto simp: pairFinish_def Let_def wire_encode_text Add_def agent_ok_def st
          split: if_splits prod.splits outcome.splits sum.splits option.splits)
  qed simp_all
qed

interpretation gateway_calm: calm_handler "gw_handler ctrl cr env" agent_ok for ctrl cr env
  by unfold_locales (metis gw_handler_no_panic)

text \<open>The lock requests of one envelope, under the contract of the session controller.\<close>

definition agent_requests :: "('s \<Rightarrow> nat) \<Rightarrow> 's agent \<Rightarrow> nat" where
  "agent_requests requests st = requests (sess (snd (fst st)))"


context session_controller
begin

lemma gw_handler_requests:
  assumes "gw_handler ctrl cr env st sender p = (st', r)"
  shows "agent_requests requests st \<le> agent_requests requests st'
    \<and> agent_requests requests st' \<le> Suc (agent_requests requests st)"
proof -
  obtain g w n where st: "st = ((g, w), n)" by (cases st) auto
  obtain g' w' n' where st': "st' = ((g', w'), n')" by (cases st') auto
  obtain o' where h: "Handle ctrl cr (env n) (g, w) sender p = ((g', w'), o')"
    using gw_handler_Handle [OF assms] by (auto simp: st st')
  have "requests (sess w) \<le> requests (sess w') \<and> requests (sess w') \<le> Suc (requests (sess w))"
  proof (cases "delivered cr g sender p")
    case None
    from h have "sess w' = sess w"
    proof (cases rule: Handle_cases)
      case sealed
      with None h show ?thesis by (auto simp: Handle_def handleSealed_delivered)
    next
      case (pair inp)
      show ?thesis by (rule pairFinish_frame(2) [OF pair(1)])
    qed simp
    then show ?thesis by simp
  next
    case (Some pi)
    obtain peer inp where pi: "pi = (peer, inp)" by fastforce
    obtain c' s' out where k: "core_handle ctrl (g_core g) (sess w) (now1 (env n)) (now2 (env n)) inp = ((c', s'), out)"
      by (metis prod.collapse)
    have "sess w' = s'"
      using h k Some pi delivered_sealed [of cr g sender p] by (auto simp: Handle_def handleSealed_delivered)
    with handle_requests [OF k] show ?thesis by (auto simp: of_bool_def split: if_splits)
  qed
  then show ?thesis by (simp add: agent_requests_def st st')
qed

end

sublocale session_controller \<subseteq> agent: counting_handler "gw_handler ctrl cr env" agent_ok "agent_requests requests" for cr env
  by unfold_locales (rule gw_handler_requests)

context session_controller
begin

lemma serve_requests:
  "serve (gw_handler ctrl cr env) st c = ((st', c'), e) \<Longrightarrow> agent_ok st \<Longrightarrow>
     agent_requests requests st \<le> agent_requests requests st'
     \<and> agent_requests requests st' + length (incoming c') \<le> agent_requests requests st + length (incoming c)"
  by (rule agent.serve_total)

end

section \<open>Properties\<close>

text \<open>
  C15. Over a whole connection every frame of the relay costs at most one lock request: however the
  relay interleaves, repeats or forges frames, the number of requests grows by at most the number
  of frames read.
\<close>

theorem lock_requests_per_frame:
  assumes "session_controller ctrl requests" and "agent_ok st"
    and "serve (gw_handler ctrl cr env) st c = ((st', c'), e)"
  shows "requests (sess (snd (fst st))) \<le> requests (sess (snd (fst st')))
    \<and> requests (sess (snd (fst st'))) + length (incoming c') \<le> requests (sess (snd (fst st))) + length (incoming c)"
  using session_controller.serve_requests [OF assms(1,3,2)] by (simp add: agent_requests_def)

definition demo_agent :: "login1 agent" where
  "demo_agent = ((demo_gateway, \<lparr>heap = [], dsk = Map.empty, sess = demo_login1\<rparr>), 0)"

lemma demo_agent_ok: "agent_ok demo_agent"
  by (simp add: demo_agent_def agent_ok_def demo_gateway_def newGateway_def demo_store_def wf_store_def entries_def)

definition envelope :: "string \<Rightarrow> string \<Rightarrow> message" where
  "envelope sender p = empty_message\<lparr>m_Type := ''envelope'', m_From := sender, m_Payload := p\<rparr>"

definition demo_conn :: "message list \<Rightarrow> conn" where
  "demo_conn ms = \<lparr>incoming = map (\<lambda>m. Inr (message_text m)) ms, write_errs = [], sent = []\<rparr>"

theorem lock_requests_per_frame_witness:
  "\<exists>st' c' e. serve (gw_handler (logind_controller login1_bus 1000) toy_nacl (\<lambda>_. demo_inputs)) demo_agent
       (demo_conn (replicate 3 (envelope ''phone'' (demo_sealed demo_lock)))) = ((st', c'), e)
     \<and> length (lock_calls (sess (snd (fst st')))) \<le> 3"
proof -
  let ?c = "demo_conn (replicate 3 (envelope ''phone'' (demo_sealed demo_lock)))"
  obtain st' c' e where s: "serve (gw_handler (logind_controller login1_bus 1000) toy_nacl (\<lambda>_. demo_inputs)) demo_agent ?c
      = ((st', c'), e)" by (metis prod.collapse)
  have "lock_calls (sess (snd (fst demo_agent))) = []" "length (incoming ?c) = 3"
    by (simp_all add: demo_agent_def demo_login1_def demo_conn_def)
  with lock_requests_per_frame [OF logind_session_controller [OF login1_laws] demo_agent_ok s] s show ?thesis by auto
qed

text \<open>
  The agent never crashes on what the relay sends: once the allowlist was loaded as a map,
  serving a connection ends with an error of the connection, never in a panic, and the agent
  stays well-formed.
\<close>

theorem serving_never_panics:
  assumes "agent_ok st" and "serve (gw_handler ctrl cr env) st c = ((st', c'), e)"
  shows "agent_ok st' \<and> (\<exists>err. e = Lost err)"
proof -
  from assms(2,1) have "\<exists>err. e = Lost err"
    by (induction rule: serve_induct) (auto dest: gw_handler_no_panic agent_ok_handler)
  with gateway_handler.serve_inv [OF assms(2,1)] show ?thesis by blast
qed

theorem serving_never_panics_witness:
  "\<exists>st' c' err. serve (gw_handler (logind_controller login1_bus 1000) toy_nacl (\<lambda>_. demo_inputs)) demo_agent
       (demo_conn [envelope ''x'' ''garbage'']) = ((st', c'), Lost err) \<and> agent_ok st'"
proof -
  obtain st' c' e where s: "serve (gw_handler (logind_controller login1_bus 1000) toy_nacl (\<lambda>_. demo_inputs)) demo_agent
      (demo_conn [envelope ''x'' ''garbage'']) = ((st', c'), e)" by (metis prod.collapse)
  from serving_never_panics [OF demo_agent_ok s] s show ?thesis by blast
qed

lemma deaf_handler:
  assumes "gw_handler ctrl cr env st sender p = (st', r)"
    and "g_window (fst (fst st)) = None" and "\<forall>i. Get (g_devices (fst (fst st))) i = None"
  shows "fst st' = fst st \<and> r = Ignored"
proof -
  obtain g w n where st: "st = ((g, w), n)" by (cases st) auto
  have "Handle ctrl cr (env n) (g, w) sender p = ((g, w), Ret None)"
    using assms(2,3)
    by (auto simp: st Handle_def handleSealed_def handlePairRequest_def pairStart_def pairFinish_def VerifyRequest_def
        split: option.splits sum.splits)
  with assms(1) show ?thesis by (auto simp: gw_handler_def st)
qed

text \<open>
  C10. The relay alone can do nothing: an agent without paired devices and without a pairing window
  answers no frame and keeps its core, its allowlist, its disk and its session as they were,
  whatever is sent to it.
\<close>

theorem relay_alone_powerless:
  assumes "serve (gw_handler ctrl cr env) st c = ((st', c'), e)"
    and "g_window (fst (fst st)) = None" and "\<forall>i. Get (g_devices (fst (fst st))) i = None"
  shows "fst st' = fst st \<and> sent c' = sent c"
  using assms
proof (induction rule: serve_induct)
  case (lost st c c1 err)
  then show ?case by (auto dest: ws_read_sent)
next
  case (skip st c c1 m st' c' e)
  then show ?case by (auto dest: ws_read_sent)
next
  case (crashed st c c1 m st1 msg)
  then show ?case by (auto dest: deaf_handler)
next
  case (ignored st c c1 m st1 st' c' e)
  from deaf_handler [OF ignored.hyps(3) ignored.prems] have "fst st1 = fst st" by simp
  with ignored ws_read_sent [OF ignored.hyps(1)] show ?case by simp
next
  case (broken st c c1 m st1 r c2 err)
  then show ?case by (auto dest: deaf_handler)
next
  case (replied st c c1 m st1 r c2 st' c' e)
  then show ?case by (auto dest: deaf_handler)
qed

definition unpaired_agent :: "login1 agent" where
  "unpaired_agent =
     ((newGateway (newCore ''pc'' ''linux'') demo_keys ''agent-1'' ''wss://relay/ws'' \<lparr>path = ''devices.json'', devices = Some []\<rparr>,
       \<lparr>heap = [], dsk = Map.empty, sess = demo_login1\<rparr>), 0)"

theorem relay_alone_powerless_witness:
  "\<exists>st' c' e. serve (gw_handler (logind_controller login1_bus 1000) toy_nacl (\<lambda>_. demo_inputs)) unpaired_agent
       (demo_conn [envelope ''phone'' (demo_sealed demo_lock), envelope ''x'' ''garbage'']) = ((st', c'), e)
     \<and> fst st' = fst unpaired_agent \<and> sent c' = []"
proof -
  obtain st' c' e where s: "serve (gw_handler (logind_controller login1_bus 1000) toy_nacl (\<lambda>_. demo_inputs)) unpaired_agent
      (demo_conn [envelope ''phone'' (demo_sealed demo_lock), envelope ''x'' ''garbage'']) = ((st', c'), e)"
    by (metis prod.collapse)
  from relay_alone_powerless [OF s] s show ?thesis
    by (simp add: unpaired_agent_def newGateway_def Get_entries entries_def demo_conn_def)
qed

lemma Seal_valid_utf8: "Seal cr rnd plain peer k = Inr s \<Longrightarrow> valid_utf8 s"
proof -
  assume "Seal cr rnd plain peer k = Inr s"
  then obtain t where "s = sealedPrefix @ std_encode t" by (auto simp: Seal_def split: sum.splits)
  then show ?thesis using std_encode_ascii by (auto simp: sealedPrefix_def intro!: valid_utf8_ascii)
qed

text \<open>One envelope through the loop, and a sealed lock command through the handler.\<close>

lemma serve_envelope:
  assumes "handle st sender p = (st', Replied reply)" and "valid_utf8 sender" and "valid_utf8 p"
    and "incoming c = Inr (message_text (envelope sender p)) # rest" and "write_errs c = []"
  shows "serve handle st c
    = serve handle st' (c\<lparr>incoming := rest, sent := sent c @ [reply_to (envelope sender p) reply]\<rparr>)"
proof -
  let ?m = "envelope sender p"
  have m: "m_Type ?m = ''envelope''" "m_From ?m = sender" "m_Payload ?m = p" "valid_message ?m"
    using assms(2,3) by (simp_all add: envelope_def empty_message_def valid_message_def valid_utf8_ascii_Cons)
  have "ws_read c empty_message = (c\<lparr>incoming := rest\<rparr>, Inr ?m)"
    using ws_read_message [OF m(4), of c rest empty_message] assms(4) by simp
  moreover have "ws_write (c\<lparr>incoming := rest\<rparr>) (reply_to ?m reply)
      = (c\<lparr>incoming := rest, sent := sent c @ [reply_to ?m reply]\<rparr>, None)"
    using assms(5) by (simp add: ws_write_def)
  ultimately show ?thesis using m assms(1) by (subst serve.simps) simp
qed

lemma serve_end: "incoming c = [] \<Longrightarrow> serve handle st c = ((st, c), Lost ''EOF'')"
  by (subst serve.simps) (simp add: ws_read_def)

lemma lock_handled:
  assumes "nacl_laws cr" and "generated cr k" and "generated cr (g_keys g)"
    and "Get (g_devices g) dev = Some (Pub k)"
    and "valid_payload p" "Kind p = KindLock" "accepts (g_core g) (now1 (env n)) (now2 (env n)) p"
    and "length nonce = nonceSize" "Seal cr (Inr nonce) (wire_text p) (Pub (g_keys g)) k = Inr sealed"
    and "length nonce' = nonceSize" "rand (env n) = Inr nonce'"
    and "ctrl_lock ctrl (sess w) = (b', None)"
  obtains c' reply where
    "gw_handler ctrl cr env ((g, w), n) dev sealed = (((g\<lparr>g_core := c'\<rparr>, w\<lparr>sess := b'\<rparr>), Suc n), Replied reply)"
    "Open cr reply (Pub (g_keys g)) k = Some (wire_text (lockResult (Nonce p) True []))"
proof -
  have d: "delivered cr g dev sealed = Some (Pub k, p)"
    by (rule delivered_Seal [OF assms(1-5,8,9)])
  obtain c' where core: "core_handle ctrl (g_core g) (sess w) (now1 (env n)) (now2 (env n)) p
      = ((c', b'), Some (lockResult (Nonce p) True []))"
    using core_lock_accepts [OF assms(7), of ctrl "sess w"] assms(12)
    by (simp add: core_handle_lock [OF assms(6)])
  obtain reply where r: "sealReply cr (Inr nonce') g (lockResult (Nonce p) True []) (Pub k) = Some reply"
    using sealReply_some by blast
  have "gw_handler ctrl cr env ((g, w), n) dev sealed = (((g\<lparr>g_core := c'\<rparr>, w\<lparr>sess := b'\<rparr>), Suc n), Replied reply)"
    using d delivered_sealed [of cr g dev sealed] core r assms(11)
    by (simp add: gw_handler_def Handle_def handleSealed_delivered)
  with sealReply_opens [OF assms(1-3,10) r] that show thesis by blast
qed

text \<open>
  C3. From the phone to the bus and back. Take any bus that behaves as login1 documents. A lock command
  that a paired device seals, the relay delivers as an envelope and the core finds fresh passes the
  gateway and the core to login1: if the bus carries the call out, login1 has received one more \<open>Lock\<close> call, addressed to
  the session the agent selects, which is one that login1 lists for the agent's user; and the only
  frame sent goes back to the device and opens there as a successful lock result with the nonce of
  the command.
\<close>

theorem lock_end_to_end:
  assumes "nacl_laws cr" and "bus_laws bus asked" and "generated cr k" and "generated cr (g_keys g)"
    and "Get (g_devices g) dev = Some (Pub k)" and "valid_utf8 dev"
    and "valid_payload p" "Kind p = KindLock" "accepts (g_core g) (now1 (env n)) (now2 (env n)) p"
    and "length nonce = nonceSize" "Seal cr (Inr nonce) (wire_text p) (Pub (g_keys g)) k = Inr sealed"
    and "length nonce' = nonceSize" "rand (env n) = Inr nonce'"
    and "snd (logind_Lock bus uid (sess w)) = None"
    and "incoming c = [Inr (message_text (envelope dev sealed))]" "write_errs c = []"
  shows "\<exists>g' w' c' reply path b listed s. serve (gw_handler (logind_controller bus uid) cr env) ((g, w), n) c
        = ((((g', w'), Suc n), c'), Lost ''EOF'')
    \<and> asked (sess w') = asked (sess w) @ [path] \<and> snd (sessionPath bus uid (sess w)) = Inr path
    \<and> bus_list bus (sess w) = (b, Inr listed) \<and> s \<in> set listed \<and> ls_UID s = uid \<and> ls_Path s = path
    \<and> sent c' = sent c @ [reply_to (envelope dev sealed) reply]
    \<and> Open cr reply (Pub (g_keys g)) k = Some (wire_text (lockResult (Nonce p) True []))"
proof -
  let ?ctrl = "logind_controller bus uid"
  obtain b' where l: "logind_Lock bus uid (sess w) = (b', None)" using assms(14) by (metis prod.collapse)
  then have lock: "ctrl_lock ?ctrl (sess w) = (b', None)" by (simp add: logind_controller_def)
  obtain c' reply where h: "gw_handler ?ctrl cr env ((g, w), n) dev sealed
      = (((g\<lparr>g_core := c'\<rparr>, w\<lparr>sess := b'\<rparr>), Suc n), Replied reply)"
      "Open cr reply (Pub (g_keys g)) k = Some (wire_text (lockResult (Nonce p) True []))"
    using lock_handled [where env = env and n = n, OF assms(1,3-5,7-13) lock] by blast
  let ?c = "c\<lparr>incoming := [], sent := sent c @ [reply_to (envelope dev sealed) reply]\<rparr>"
  have "serve (gw_handler ?ctrl cr env) ((g, w), n) c
      = serve (gw_handler ?ctrl cr env) ((g\<lparr>g_core := c'\<rparr>, w\<lparr>sess := b'\<rparr>), Suc n) ?c"
    by (rule serve_envelope) (use h(1) assms(6,15,16) Seal_valid_utf8 [OF assms(11)] in simp_all)
  then have run: "serve (gw_handler ?ctrl cr env) ((g, w), n) c
      = ((((g\<lparr>g_core := c'\<rparr>, w\<lparr>sess := b'\<rparr>), Suc n), ?c), Lost ''EOF'')"
    by (simp add: serve_end)
  obtain path where path: "snd (sessionPath bus uid (sess w)) = Inr path" "asked b' = asked (sess w) @ [path]"
    using logind_Lock_asked(1) [OF assms(2) l] by blast
  from sessionPath_own [OF path(1)] obtain b listed s where
      "bus_list bus (sess w) = (b, Inr listed)" "s \<in> set listed" "ls_UID s = uid" "ls_Path s = path" by blast
  with run path h(2) show ?thesis
    by (intro exI [of _ "g\<lparr>g_core := c'\<rparr>"] exI [of _ "w\<lparr>sess := b'\<rparr>"] exI [of _ ?c] exI [of _ reply]
        exI [of _ path] exI [of _ b] exI [of _ listed] exI [of _ s]) simp
qed

lemma demo_logind_Lock:
  "logind_Lock login1_bus 1000 demo_login1 = (demo_login1\<lparr>lock_calls := [''/s/_32'']\<rparr>, None)"
  by (simp add: logind_Lock_def demo_sessionPath) (simp add: login1_bus_def login1_lock_def demo_login1_def)

theorem lock_end_to_end_witness:
  "\<exists>st' c' e. serve (gw_handler (logind_controller login1_bus 1000) toy_nacl (\<lambda>_. demo_inputs)) demo_agent
       (demo_conn [envelope ''phone'' (demo_sealed demo_lock)]) = ((st', c'), e)
     \<and> lock_calls (sess (snd (fst st'))) = [''/s/_32''] \<and> length (sent c') = 1"
proof -
  let ?w = "\<lparr>heap = [], dsk = Map.empty, sess = demo_login1\<rparr>" and ?c = "demo_conn [envelope ''phone'' (demo_sealed demo_lock)]"
  have lock: "snd (logind_Lock login1_bus 1000 (sess ?w)) = None" by (simp add: demo_logind_Lock)
  have g: "generated toy_nacl (g_keys demo_gateway)"
    by (simp add: demo_gateway_def newGateway_def demo_generated)
  have acc: "accepts (g_core demo_gateway) (now1 demo_inputs) (now2 demo_inputs) demo_lock"
    by (simp add: accepts_iff ts_wall_def go_defs demo_defs demo_gateway_def newGateway_def demo_inputs_def)
  have "\<exists>g' w' c' reply path b listed s. serve (gw_handler (logind_controller login1_bus 1000) toy_nacl (\<lambda>_. demo_inputs))
        ((demo_gateway, ?w), 0) ?c = ((((g', w'), Suc 0), c'), Lost ''EOF'')
    \<and> lock_calls (sess w') = lock_calls (sess ?w) @ [path] \<and> snd (sessionPath login1_bus 1000 (sess ?w)) = Inr path
    \<and> bus_list login1_bus (sess ?w) = (b, Inr listed) \<and> s \<in> set listed \<and> ls_UID s = 1000 \<and> ls_Path s = path
    \<and> sent c' = sent ?c @ [reply_to (envelope ''phone'' (demo_sealed demo_lock)) reply]
    \<and> Open toy_nacl reply (Pub (g_keys demo_gateway)) phone_keys = Some (wire_text (lockResult (Nonce demo_lock) True []))"
    by (rule lock_end_to_end [OF toy_nacl_laws login1_laws demo_generated(2) g demo_get _ demo_lock_valid _ acc _ demo_seal _ _ lock,
          of demo_nonce])
       (simp_all add: demo_lock_def demo_nonce_def nonceSize_def demo_inputs_def demo_conn_def valid_utf8_ascii_Cons)
  then obtain g' w' c' reply where
    "serve (gw_handler (logind_controller login1_bus 1000) toy_nacl (\<lambda>_. demo_inputs)) ((demo_gateway, ?w), 0) ?c
       = ((((g', w'), Suc 0), c'), Lost ''EOF'')"
    "lock_calls (sess w') = [''/s/_32'']" "sent c' = [reply_to (envelope ''phone'' (demo_sealed demo_lock)) reply]"
    by (auto simp: demo_sessionPath demo_conn_def) (simp add: demo_login1_def)
  then show ?thesis by (auto simp: demo_agent_def)
qed

end
