(* ===== verification/Autostart.thy ===== *)
theory Autostart
  imports Go_Text
begin

text \<open>
  Package \<open>autostart\<close> (\<open>internal/autostart\<close>): starting the agent with the session. The systemd user
  manager and the Windows registry are parameters, functions on the state of the other side; the
  three files of the package are the three managers below.
\<close>

text \<open>The interface \<open>Manager\<close>: \<open>Status\<close> returns enabled and supported, the others an error.\<close>

record 'a manager =
  am_status :: "'a \<Rightarrow> 'a \<times> bool \<times> bool"
  am_enable :: "'a \<Rightarrow> 'a \<times> string option"
  am_disable :: "'a \<Rightarrow> 'a \<times> string option"

section \<open>Linux\<close>

definition unit_name :: string where
  "unit_name = ''lockping-agent''"

text \<open>
  Running a command: its standard output (for \<open>Output\<close>) or its whole output (for
  \<open>CombinedOutput\<close>), and whether it failed.
\<close>

record 'a commands =
  cmd_output :: "string list \<Rightarrow> 'a \<Rightarrow> 'a \<times> bytes \<times> bool"
  cmd_combined :: "string list \<Rightarrow> 'a \<Rightarrow> 'a \<times> bytes \<times> bool"

definition linux_Status :: "'a commands \<Rightarrow> 'a \<Rightarrow> 'a \<times> bool \<times> bool" where
  "linux_Status ex s =
     (case cmd_output ex [''systemctl'', ''--user'', ''is-enabled'', unit_name] s of
        (s', out, failed) \<Rightarrow>
          if failed then (s', False, trim_space out = ''disabled'')
          else (s', trim_space out = ''enabled'', True))"

definition linux_Enable :: "'a commands \<Rightarrow> 'a \<Rightarrow> 'a \<times> string option" where
  "linux_Enable ex s =
     (case cmd_combined ex [''systemctl'', ''--user'', ''enable'', unit_name] s of
        (s', out, failed) \<Rightarrow> (s', if failed then Some (''systemctl enable: '' @ trim_space out) else None))"

definition linux_Disable :: "'a commands \<Rightarrow> 'a \<Rightarrow> 'a \<times> string option" where
  "linux_Disable ex s =
     (case cmd_combined ex [''systemctl'', ''--user'', ''disable'', unit_name] s of
        (s', out, failed) \<Rightarrow> (s', if failed then Some (''systemctl disable: '' @ trim_space out) else None))"

definition linux_manager :: "'a commands \<Rightarrow> 'a manager" where
  "linux_manager ex =
     \<lparr>am_status = linux_Status ex, am_enable = linux_Enable ex, am_disable = linux_Disable ex\<rparr>"

section \<open>Windows\<close>

definition runKey :: string where
  "runKey = ''Software'' @ [backslash] @ ''Microsoft'' @ [backslash] @ ''Windows'' @ [backslash]
     @ ''CurrentVersion'' @ [backslash] @ ''Run''"

text \<open>
  The registry: opening a key of the current user for reading or for writing, and the operations
  on a value of an open key.
\<close>

record 'a registry =
  reg_open :: "string \<Rightarrow> bool \<Rightarrow> 'a \<Rightarrow> string option"
  reg_get :: "string \<Rightarrow> string \<Rightarrow> 'a \<Rightarrow> string result"
  reg_set :: "string \<Rightarrow> string \<Rightarrow> string \<Rightarrow> 'a \<Rightarrow> 'a \<times> string option"
  reg_delete :: "string \<Rightarrow> string \<Rightarrow> 'a \<Rightarrow> 'a \<times> string option"

definition windows_Status :: "'a registry \<Rightarrow> 'a \<Rightarrow> 'a \<times> bool \<times> bool" where
  "windows_Status reg s =
     (case reg_open reg runKey False s of
        Some _ \<Rightarrow> (s, False, True)
      | None \<Rightarrow> (s, is_ok (reg_get reg runKey ''LockPing'' s), True))"

text \<open>The result of \<open>os.Executable\<close> is an argument.\<close>

definition windows_Enable :: "'a registry \<Rightarrow> string result \<Rightarrow> 'a \<Rightarrow> 'a \<times> string option" where
  "windows_Enable reg executable s =
     (case executable of
        Inl err \<Rightarrow> (s, Some err)
      | Inr exe \<Rightarrow>
          (case reg_open reg runKey True s of
             Some err \<Rightarrow> (s, Some (''autostart: registersleutel: '' @ err))
           | None \<Rightarrow> reg_set reg runKey ''LockPing'' (dquote # exe @ dquote # '' run'') s))"

definition windows_Disable :: "'a registry \<Rightarrow> 'a \<Rightarrow> 'a \<times> string option" where
  "windows_Disable reg s =
     (case reg_open reg runKey True s of
        Some err \<Rightarrow> (s, Some (''autostart: registersleutel: '' @ err))
      | None \<Rightarrow> reg_delete reg runKey ''LockPing'' s)"

definition windows_manager :: "'a registry \<Rightarrow> string result \<Rightarrow> 'a manager" where
  "windows_manager reg executable =
     \<lparr>am_status = windows_Status reg, am_enable = windows_Enable reg executable,
      am_disable = windows_Disable reg\<rparr>"

section \<open>Other platforms\<close>

definition other_manager :: "'a manager" where
  "other_manager =
     \<lparr>am_status = (\<lambda>s. (s, False, False)), am_enable = (\<lambda>s. (s, None)), am_disable = (\<lambda>s. (s, None))\<rparr>"

section \<open>The contract of a manager\<close>

text \<open>
  What the configuration page relies on. \<open>on\<close> is the setting itself, in the state of the other
  side. The lemma proved from the laws is that after any sequence of switches the setting is what
  the last one that succeeded made it.
\<close>

locale autostart_switch =
  fixes m :: "'a manager" and on :: "'a \<Rightarrow> bool"
  assumes status_on: "am_status m s = (s', enabled, supported) \<Longrightarrow> on s' = on s \<and> (enabled \<longrightarrow> on s \<and> supported)"
    and enable_ok: "am_enable m s = (s', None) \<Longrightarrow> am_status m s' = (s'', enabled, True) \<Longrightarrow> on s' \<and> enabled"
    and disable_ok: "am_disable m s = (s', None) \<Longrightarrow> am_status m s' = (s'', enabled, True) \<Longrightarrow> \<not> on s' \<and> \<not> enabled"
    and enable_err: "am_enable m s = (s', Some e) \<Longrightarrow> on s' = on s"
    and disable_err: "am_disable m s = (s', Some e) \<Longrightarrow> on s' = on s"
begin

definition switch :: "bool \<Rightarrow> 'a \<Rightarrow> 'a \<times> string option" where
  "switch b s = (if b then am_enable m s else am_disable m s)"

lemma switch_err: "switch b s = (s', Some e) \<Longrightarrow> on s' = on s"
  by (auto simp: switch_def dest: enable_err disable_err split: if_splits)

text \<open>After a switch that succeeded, failed switches leave what it set.\<close>

lemma last_switch:
  assumes "switch b s = (s', None)" and "snd (snd (am_status m s'))"
    and "\<forall>i < length bs. \<exists>e. snd (switch (bs ! i) (foldl (\<lambda>s b. fst (switch b s)) s' (take i bs))) = Some e"
  shows "on (foldl (\<lambda>s b. fst (switch b s)) s' bs) = b"
proof -
  obtain s'' en where st: "am_status m s' = (s'', en, True)" using assms(2) by (metis prod.collapse)
  have "on s' = b"
    using assms(1) enable_ok [OF _ st] disable_ok [OF _ st] by (cases b) (auto simp: switch_def)
  then show ?thesis using assms(3)
  proof (induction bs rule: rev_induct)
    case (snoc x bs)
    have "\<forall>i < length bs. \<exists>e. snd (switch (bs ! i) (foldl (\<lambda>s b. fst (switch b s)) s' (take i bs))) = Some e"
    proof (intro allI impI)
      fix i assume "i < length bs"
      with snoc.prems(2) [rule_format, of i]
      show "\<exists>e. snd (switch (bs ! i) (foldl (\<lambda>s b. fst (switch b s)) s' (take i bs))) = Some e"
        by (simp add: nth_append)
    qed
    with snoc have "on (foldl (\<lambda>s b. fst (switch b s)) s' bs) = b" by simp
    moreover obtain e where "snd (switch x (foldl (\<lambda>s b. fst (switch b s)) s' bs)) = Some e"
      using snoc.prems(2) [rule_format, of "length bs"] by auto
    ultimately show ?case
      using switch_err [of x "foldl (\<lambda>s b. fst (switch b s)) s' bs"] by (simp add: prod_eq_iff)
  qed simp
qed

end

text \<open>
  The documented behaviour of the other side. systemd: \<open>is-enabled\<close> changes nothing, prints the state
  of the unit and succeeds for an enabled one, and for no other does it succeed and print \<open>enabled\<close>; \<open>enable\<close> and \<open>disable\<close> that succeed set the state, and
  the unit then exists. The registry: a value that was set is read back, one that was deleted is
  gone, a failed operation changes nothing.
\<close>

definition systemd_laws :: "'a commands \<Rightarrow> ('a \<Rightarrow> bool) \<Rightarrow> bool" where
  "systemd_laws ex on =
     (\<forall>s.
        (\<forall>s' out failed. cmd_output ex [''systemctl'', ''--user'', ''is-enabled'', unit_name] s = (s', out, failed) \<longrightarrow>
           on s' = on s \<and> (if on s then \<not> failed \<and> out = ''enabled'' @ [CHR 0x0A]
                           else failed \<or> trim_space out \<noteq> ''enabled''))
        \<and> (\<forall>s' out failed. cmd_combined ex [''systemctl'', ''--user'', ''enable'', unit_name] s = (s', out, failed) \<longrightarrow>
             on s' = (if failed then on s else True))
        \<and> (\<forall>s' out failed. cmd_combined ex [''systemctl'', ''--user'', ''disable'', unit_name] s = (s', out, failed) \<longrightarrow>
             on s' = (if failed then on s else False)))"

definition registry_laws :: "'a registry \<Rightarrow> bool" where
  "registry_laws reg =
     (\<forall>s.
        (\<forall>v s'. reg_set reg runKey ''LockPing'' v s = (s', None) \<longrightarrow>
            reg_open reg runKey False s' = None \<and> reg_get reg runKey ''LockPing'' s' = Inr v)
        \<and> (\<forall>v s' e. reg_set reg runKey ''LockPing'' v s = (s', Some e) \<longrightarrow> s' = s)
        \<and> (\<forall>s'. reg_delete reg runKey ''LockPing'' s = (s', None) \<longrightarrow> \<not> is_ok (reg_get reg runKey ''LockPing'' s'))
        \<and> (\<forall>s' e. reg_delete reg runKey ''LockPing'' s = (s', Some e) \<longrightarrow> s' = s))"

lemma trim_enabled: "trim_space (''enabled'' @ [CHR 0x0A]) = ''enabled''"
  by (simp add: trim_space_def pieces_ascii_Cons space_rune_def)

lemma linux_Status_on:
  assumes "systemd_laws ex on" and "linux_Status ex s = (s', enabled, supported)"
  shows "on s' = on s \<and> enabled = on s \<and> (on s \<longrightarrow> supported)"
proof -
  obtain t out failed where c: "cmd_output ex [''systemctl'', ''--user'', ''is-enabled'', unit_name] s = (t, out, failed)"
    by (metis prod_cases3)
  then have "on t = on s \<and> (if on s then \<not> failed \<and> out = ''enabled'' @ [CHR 0x0A]
      else failed \<or> trim_space out \<noteq> ''enabled'')"
    using assms(1) unfolding systemd_laws_def by blast
  with c assms(2) show ?thesis
    by (auto simp: linux_Status_def trim_enabled simp del: append.simps split: if_splits)
qed

lemma linux_switch_effect:
  assumes "systemd_laws ex on"
  shows "linux_Enable ex s = (s', r) \<Longrightarrow> on s' = (if r = None then True else on s)"
    and "linux_Disable ex s = (s', r) \<Longrightarrow> on s' = (if r = None then False else on s)"
proof -
  assume e: "linux_Enable ex s = (s', r)"
  then obtain out failed where
    "cmd_combined ex [''systemctl'', ''--user'', ''enable'', unit_name] s = (s', out, failed)" "(r = None) = (\<not> failed)"
    by (auto simp: linux_Enable_def split: prod.splits if_splits)
  then show "on s' = (if r = None then True else on s)" using assms unfolding systemd_laws_def by fastforce
next
  assume e: "linux_Disable ex s = (s', r)"
  then obtain out failed where
    "cmd_combined ex [''systemctl'', ''--user'', ''disable'', unit_name] s = (s', out, failed)" "(r = None) = (\<not> failed)"
    by (auto simp: linux_Disable_def split: prod.splits if_splits)
  then show "on s' = (if r = None then False else on s)" using assms unfolding systemd_laws_def by fastforce
qed

lemma linux_manager_switch:
  assumes "systemd_laws ex on" shows "autostart_switch (linux_manager ex) on"
  by unfold_locales
     (auto simp: linux_manager_def dest: linux_Status_on [OF assms] linux_switch_effect [OF assms])

definition run_value :: "'a registry \<Rightarrow> 'a \<Rightarrow> bool" where
  "run_value reg s = (reg_open reg runKey False s = None \<and> is_ok (reg_get reg runKey ''LockPing'' s))"

lemma reg_set_laws:
  assumes "registry_laws reg"
  shows "reg_set reg runKey ''LockPing'' v s = (s', None) \<Longrightarrow>
      reg_open reg runKey False s' = None \<and> reg_get reg runKey ''LockPing'' s' = Inr v"
    and "reg_set reg runKey ''LockPing'' v s = (s', Some e) \<Longrightarrow> s' = s"
  using assms unfolding registry_laws_def by blast+

lemma windows_Enable_effect:
  assumes "registry_laws reg" and "windows_Enable reg executable s = (s', r)"
  shows "(r = None \<longrightarrow> (\<exists>exe. executable = Inr exe \<and> reg_open reg runKey False s' = None
      \<and> reg_get reg runKey ''LockPing'' s' = Inr (dquote # exe @ dquote # '' run''))) \<and> (r \<noteq> None \<longrightarrow> s' = s)"
proof (cases "\<exists>exe. executable = Inr exe \<and> reg_open reg runKey True s = None")
  case True
  then obtain exe where exe: "executable = Inr exe" and
    "reg_set reg runKey ''LockPing'' (dquote # exe @ dquote # '' run'') s = (s', r)"
    using assms(2) by (auto simp: windows_Enable_def)
  with reg_set_laws [OF assms(1), of "dquote # exe @ dquote # '' run''" s s'] show ?thesis
    by (cases r) (simp_all add: exe)
next
  case False
  with assms(2) show ?thesis by (auto simp: windows_Enable_def split: sum.splits option.splits)
qed

lemma windows_Disable_effect:
  assumes "registry_laws reg" and "windows_Disable reg s = (s', r)"
  shows "(r = None \<longrightarrow> \<not> is_ok (reg_get reg runKey ''LockPing'' s')) \<and> (r \<noteq> None \<longrightarrow> s' = s)"
proof (cases "reg_open reg runKey True s")
  case None
  with assms(2) have "reg_delete reg runKey ''LockPing'' s = (s', r)" by (simp add: windows_Disable_def)
  with assms(1) [unfolded registry_laws_def, rule_format, of s] show ?thesis by (cases r) blast+
next
  case (Some e)
  with assms(2) show ?thesis by (auto simp: windows_Disable_def)
qed

lemma windows_Status_value:
  "windows_Status reg s = (s, run_value reg s, True)"
  by (auto simp: windows_Status_def run_value_def split: option.splits)

lemma windows_manager_switch:
  assumes "registry_laws reg"
  shows "autostart_switch (windows_manager reg executable) (run_value reg)"
proof
  fix s s' e
  assume "am_enable (windows_manager reg executable) s = (s', Some e)"
  then show "run_value reg s' = run_value reg s"
    using windows_Enable_effect [OF assms, of executable s s' "Some e"] by (simp add: windows_manager_def)
next
  fix s s' e
  assume "am_disable (windows_manager reg executable) s = (s', Some e)"
  then show "run_value reg s' = run_value reg s"
    using windows_Disable_effect [OF assms, of s s' "Some e"] by (simp add: windows_manager_def)
next
  fix s s' s'' enabled
  assume "am_enable (windows_manager reg executable) s = (s', None)"
    and st: "am_status (windows_manager reg executable) s' = (s'', enabled, True)"
  with windows_Enable_effect [OF assms, of executable s s' None] have "run_value reg s'"
    by (auto simp: windows_manager_def run_value_def)
  with st show "run_value reg s' \<and> enabled" by (simp add: windows_manager_def windows_Status_value)
next
  fix s s' s'' enabled
  assume "am_disable (windows_manager reg executable) s = (s', None)"
    and st: "am_status (windows_manager reg executable) s' = (s'', enabled, True)"
  with windows_Disable_effect [OF assms, of s s' None] have "\<not> run_value reg s'"
    by (simp add: windows_manager_def run_value_def)
  with st show "\<not> run_value reg s' \<and> \<not> enabled" by (simp add: windows_manager_def windows_Status_value)
qed (auto simp: windows_manager_def windows_Status_value)

interpretation other_platform: autostart_switch other_manager "\<lambda>_. False"
  by unfold_locales (simp_all add: other_manager_def)

section \<open>Concrete instances\<close>

text \<open>A user manager that knows the unit, and a registry with one key that can be opened.\<close>

definition unit_commands :: "bool commands" where
  "unit_commands =
     \<lparr>cmd_output = (\<lambda>args on. (on, (if on then ''enabled'' else ''disabled'') @ [CHR 0x0A], \<not> on)),
      cmd_combined = (\<lambda>args on.
        if args ! 2 = ''enable'' then (True, [], False) else if args ! 2 = ''disable'' then (False, [], False)
        else (on, ''Unknown command'', True))\<rparr>"

definition map_registry :: "(string \<rightharpoonup> string) registry" where
  "map_registry =
     \<lparr>reg_open = (\<lambda>k write m. None),
      reg_get = (\<lambda>k n m. case m n of None \<Rightarrow> Inl ''not found'' | Some v \<Rightarrow> Inr v),
      reg_set = (\<lambda>k n v m. (m(n \<mapsto> v), None)),
      reg_delete = (\<lambda>k n m. if m n = None then (m, Some ''not found'') else (m(n := None), None))\<rparr>"

lemma unit_commands_laws: "systemd_laws unit_commands id"
  by (simp add: systemd_laws_def unit_commands_def)

lemma map_registry_laws: "registry_laws map_registry"
  by (auto simp: registry_laws_def map_registry_def split: if_splits)

interpretation systemd_unit: autostart_switch "linux_manager unit_commands" id
  by (rule linux_manager_switch [OF unit_commands_laws])

interpretation run_key: autostart_switch "windows_manager map_registry executable" "run_value map_registry" for executable
  by (rule windows_manager_switch [OF map_registry_laws])

section \<open>A sequence of switches\<close>

text \<open>The switches of a run, and those that reported success.\<close>

fun switches :: "'a manager \<Rightarrow> bool list \<Rightarrow> 'a \<Rightarrow> 'a \<times> bool list" where
  "switches m [] s = (s, [])"
| "switches m (b # bs) s =
     (case (if b then am_enable m s else am_disable m s) of
        (s1, err) \<Rightarrow> (case switches m bs s1 of (s2, made) \<Rightarrow> (s2, if err = None then b # made else made)))"

text \<open>The part of the contract that holds on both platforms without a further query.\<close>

definition switchable :: "'a manager \<Rightarrow> ('a \<Rightarrow> bool) \<Rightarrow> bool" where
  "switchable m on =
     (\<forall>s. fst (snd (am_status m s)) = on s
        \<and> on (fst (am_enable m s)) = (snd (am_enable m s) = None \<or> on s)
        \<and> on (fst (am_disable m s)) = (snd (am_disable m s) \<noteq> None \<and> on s))"

lemma switches_last:
  assumes "switchable m on" and "switches m bs s = (s', made)"
  shows "on s' = (if made = [] then on s else last made)"
  using assms(2)
proof (induction bs arbitrary: s made)
  case (Cons b bs)
  obtain s1 err where sw: "(if b then am_enable m s else am_disable m s) = (s1, err)" by fastforce
  obtain made' where rest: "switches m bs s1 = (s', made')" using Cons.prems sw by (auto split: prod.splits)
  have "on s1 = (if err = None then b else on s)"
    using sw assms(1) unfolding switchable_def by (cases b; cases err) (metis fst_conv snd_conv option.distinct(1))+
  with Cons.prems sw rest Cons.IH [OF rest] show ?case by (auto split: if_splits)
qed simp

lemma linux_switchable: "systemd_laws ex on \<Longrightarrow> switchable (linux_manager ex) on"
proof -
  assume laws: "systemd_laws ex on"
  have "fst (snd (linux_Status ex s)) = on s" for s
    using linux_Status_on [OF laws, of s] by (metis prod.collapse)
  moreover have "on (fst (linux_Enable ex s)) = (snd (linux_Enable ex s) = None \<or> on s)" for s
    using linux_switch_effect(1) [OF laws, of s] by (metis prod.collapse)
  moreover have "on (fst (linux_Disable ex s)) = (snd (linux_Disable ex s) \<noteq> None \<and> on s)" for s
    using linux_switch_effect(2) [OF laws, of s] by (metis prod.collapse)
  ultimately show ?thesis by (simp add: switchable_def linux_manager_def)
qed

lemma windows_switchable: "registry_laws reg \<Longrightarrow> switchable (windows_manager reg executable) (run_value reg)"
proof -
  assume laws: "registry_laws reg"
  have "run_value reg (fst (windows_Enable reg executable s)) = (snd (windows_Enable reg executable s) = None \<or> run_value reg s)" for s
    using windows_Enable_effect [OF laws, of executable s "fst (windows_Enable reg executable s)" "snd (windows_Enable reg executable s)"]
    by (auto simp: run_value_def)
  moreover have "run_value reg (fst (windows_Disable reg s)) = (snd (windows_Disable reg s) \<noteq> None \<and> run_value reg s)" for s
    using windows_Disable_effect [OF laws, of s "fst (windows_Disable reg s)" "snd (windows_Disable reg s)"]
    by (auto simp: run_value_def)
  ultimately show ?thesis by (simp add: switchable_def windows_manager_def windows_Status_value)
qed

section \<open>Properties\<close>

text \<open>
  C36. The autostart switch shows the truth. On Linux, under systemd's documented behaviour, and on
  Windows, under that of the registry: after any sequence of switches, some of which may have
  failed, \<open>Status\<close> reports what the last one that reported success asked for, and what it reported
  before if none did.
\<close>

theorem autostart_shows_last_switch:
  assumes "(\<exists>ex on. m = linux_manager ex \<and> systemd_laws ex on)
      \<or> (\<exists>reg executable. m = windows_manager reg executable \<and> registry_laws reg)"
    and "switches m bs s = (s', made)"
  shows "fst (snd (am_status m s')) = (if made = [] then fst (snd (am_status m s)) else last made)"
proof -
  obtain on where on: "switchable m on" using assms(1) linux_switchable windows_switchable by blast
  then have "fst (snd (am_status m t)) = on t" for t by (simp add: switchable_def)
  with switches_last [OF on assms(2)] show ?thesis by simp
qed

theorem autostart_shows_last_switch_witness:
  "\<exists>s'. switches (windows_manager map_registry (Inr ''C:/agent.exe'')) [False, True, False, False] Map.empty = (s', [True, False])
     \<and> fst (snd (am_status (windows_manager map_registry (Inr ''C:/agent.exe'')) s')) = False"
proof -
  let ?m = "windows_manager map_registry (Inr ''C:/agent.exe'')"
  obtain s' made where s: "switches ?m [False, True, False, False] Map.empty = (s', made)" by fastforce
  moreover from s have "made = [True, False]"
    by (simp add: windows_manager_def windows_Enable_def windows_Disable_def map_registry_def)
  ultimately show ?thesis
    using autostart_shows_last_switch [OF disjI2 s] map_registry_laws by auto
qed


text \<open>
  On Linux the switch is faithful under systemd's documented behaviour: a successful \<open>Enable\<close>
  makes \<open>Status\<close> report enabled and supported, a successful \<open>Disable\<close> makes it report not enabled, an
  error leaves the setting alone, and \<open>Status\<close> never reports enabled for a unit that is not.
\<close>

theorem linux_switch_faithful:
  assumes "systemd_laws ex on" and "linux_Enable ex s = (s1, e1)" and "linux_Disable ex s = (s2, e2)"
  shows "(e1 = None \<longrightarrow> on s1 \<and> snd (linux_Status ex s1) = (True, True))
    \<and> (e2 = None \<longrightarrow> \<not> on s2 \<and> \<not> fst (snd (linux_Status ex s2)))
    \<and> (e1 \<noteq> None \<longrightarrow> on s1 = on s) \<and> (e2 \<noteq> None \<longrightarrow> on s2 = on s)
    \<and> (fst (snd (linux_Status ex s)) = on s)"
proof -
  have "fst (snd (linux_Status ex t)) = on t \<and> (on t \<longrightarrow> snd (snd (linux_Status ex t)))" for t
    using linux_Status_on [OF assms(1), of t] by (metis prod.collapse)
  with linux_switch_effect [OF assms(1)] assms(2,3) show ?thesis by (auto simp: prod_eq_iff)
qed

theorem linux_switch_faithful_witness:
  "linux_Enable unit_commands False = (True, None) \<and> snd (linux_Status unit_commands True) = (True, True)"
proof -
  have "linux_Enable unit_commands False = (True, None)" "linux_Disable unit_commands False = (False, None)"
    by (simp_all add: linux_Enable_def linux_Disable_def unit_commands_def)
  from linux_switch_faithful [OF unit_commands_laws this] show ?thesis
    by (simp add: linux_Enable_def unit_commands_def)
qed

text \<open>
  On Windows a successful \<open>Enable\<close> leaves the agent's own path, quoted, with the \<open>run\<close> command in
  the Run key, and \<open>Status\<close> reports it; after a successful \<open>Disable\<close> no value is left. A failure to
  find the executable or to open the key changes nothing.
\<close>

theorem windows_switch_faithful:
  assumes "registry_laws reg" and "windows_Enable reg (Inr exe) s = (s1, e1)" and "windows_Disable reg s = (s2, e2)"
  shows "(e1 = None \<longrightarrow> reg_get reg runKey ''LockPing'' s1 = Inr (dquote # exe @ dquote # '' run'')
              \<and> windows_Status reg s1 = (s1, True, True))
    \<and> (e2 = None \<longrightarrow> windows_Status reg s2 = (s2, False, True))
    \<and> (e1 \<noteq> None \<longrightarrow> s1 = s) \<and> (e2 \<noteq> None \<longrightarrow> s2 = s)"
  using windows_Enable_effect [OF assms(1,2)] windows_Disable_effect [OF assms(1,3)]
  by (auto simp: windows_Status_value run_value_def)

theorem windows_switch_faithful_witness:
  "\<exists>s1. windows_Enable map_registry (Inr ''C:/agent.exe'') Map.empty = (s1, None)
     \<and> windows_Status map_registry s1 = (s1, True, True)"
proof -
  obtain s1 where e: "windows_Enable map_registry (Inr ''C:/agent.exe'') Map.empty = (s1, None)"
    by (simp add: windows_Enable_def map_registry_def)
  obtain s2 e2 where d: "windows_Disable map_registry Map.empty = (s2, e2)" by fastforce
  from windows_switch_faithful [OF map_registry_laws e d] e show ?thesis by simp
qed

end
