(* ===== verification/Webui.thy ===== *)
theory Webui
  imports GatewayRun Autostart Json_Valid
begin

text \<open>
  Package \<open>webui\<close> (\<open>internal/webui/webui.go\<close>): the configuration page. A request is answered by a
  function on the state of the running agent: the gateway with its world, the autostart setting
  and the number of times the agent was asked to stop. What is read from the clock, the random
  source, the disk and the relay connection during one request is an argument, and so is the
  iteration order of the device map.

  The routing of \<open>http.ServeMux\<close> is written out for the eight patterns of the page; paths are taken
  without percent-encoding, and the answer to \<open>HEAD\<close> is the one to \<open>GET\<close>, whose body the server drops.
\<close>

record request =
  rq_method :: string
  rq_host :: string
  rq_path :: string
  rq_token :: string
  rq_body :: string

record response =
  rs_status :: nat
  rs_header :: "(string \<times> string) list"
  rs_body :: string

text \<open>The embedded files and the third-party QR encoder.\<close>

record assets =
  pageHTML :: string
  logoPNG :: string
  qr_encode :: "string \<Rightarrow> bytes result"

text \<open>\<open>Options\<close> and \<open>Server\<close>; \<open>op_Connected\<close> and \<open>op_Stop\<close> tell whether the callback is there.\<close>

record 'a options =
  op_Machine :: string
  op_Version :: string
  op_Connected :: bool
  op_Autostart :: "'a manager option"
  op_Stop :: bool

record ('s, 'a) server =
  sv_sess :: "'s controller"
  sv_opts :: "'a options"
  sv_started :: gotime
  csrfToken :: string

record ('s, 'a) running =
  rn_gw :: "gateway \<times> 's world"
  rn_auto :: 'a
  rn_stops :: nat

record page_env =
  pe_connected :: bool
  pe_now :: gotime
  pe_pairing_now :: gotime
  pe_open1 :: gotime
  pe_open2 :: gotime
  pe_secret :: "bytes result"
  pe_write :: write_outcome
  pe_order :: "device_map \<Rightarrow> device_map"

definition newServer :: "'s controller \<Rightarrow> 'a options \<Rightarrow> gotime \<Rightarrow> bytes result \<Rightarrow> ('s, 'a) server result" where
  "newServer ctrl opts now rnd =
     (case rnd of
        Inl err \<Rightarrow> Inl (''webui: token: '' @ err)
      | Inr tok \<Rightarrow> Inr \<lparr>sv_sess = ctrl, sv_opts = opts, sv_started = now, csrfToken = hex_text tok\<rparr>)"

section \<open>Responses\<close>

definition nl :: string where
  "nl = [CHR 0x0A]"

text \<open>\<open>http.Error\<close> and \<open>writeJSON\<close>.\<close>

definition http_error :: "string \<Rightarrow> nat \<Rightarrow> response" where
  "http_error msg code =
     \<lparr>rs_status = code,
      rs_header = [(''Content-Type'', ''text/plain; charset=utf-8''), (''X-Content-Type-Options'', ''nosniff'')],
      rs_body = msg @ nl\<rparr>"

definition writeJSON :: "json \<Rightarrow> response" where
  "writeJSON v =
     \<lparr>rs_status = 200, rs_header = [(''Content-Type'', ''application/json'')], rs_body = json_marshal v @ nl\<rparr>"

definition ok_json :: json where
  "ok_json = JObj [(''ok'', JBool True)]"

definition not_found :: response where
  "not_found = http_error ''404 page not found'' 404"

section \<open>Endpoints\<close>

definition page :: "assets \<Rightarrow> ('s, 'a) server \<Rightarrow> string \<Rightarrow> response" where
  "page as srv p =
     (if p \<noteq> ''/'' then not_found
      else \<lparr>rs_status = 200, rs_header = [(''Content-Type'', ''text/html; charset=utf-8'')],
            rs_body = replace_first ''__TOKEN__'' (csrfToken srv) (pageHTML as)\<rparr>)"

definition logo :: "assets \<Rightarrow> response" where
  "logo as = \<lparr>rs_status = 200, rs_header = [(''Content-Type'', ''image/png'')], rs_body = logoPNG as\<rparr>"

text \<open>\<open>int(d.Seconds())\<close>, exact as long as the duration has few enough seconds for a \<open>float64\<close>.\<close>

definition seconds_of :: "duration \<Rightarrow> int" where
  "seconds_of d = (if 0 \<le> d then d div second else - ((- d) div second))"

text \<open>\<open>Format("2006-01-02 15:04")\<close> in the zone of the time.\<close>

definition minute_text :: "gotime \<Rightarrow> int \<Rightarrow> string" where
  "minute_text t off =
     (let local_secs = wall_ns t div second + off
      in date_text (local_secs div 86400 + unix_days) @ '' '' @ take 5 (clock_text (nat (local_secs mod 86400))))"

definition deviceJSON :: "deviceInfo \<Rightarrow> json" where
  "deviceJSON d =
     (let when = (if is_zero (PairedAt d) then [] else minute_text (PairedAt d) (PairedZone d))
      in JObj [(''id'', JStr (dev_ID d)), (''name'', JStr (dev_Name d)), (''paired_at'', JStr when)])"

definition pairingJSON :: "string \<times> duration \<times> bool \<Rightarrow> json" where
  "pairingJSON p =
     (case p of (code, remaining, active) \<Rightarrow>
        if active then JObj [(''code'', JStr code), (''expires_in'', JNum (int_string (seconds_of remaining)))]
        else JNull)"

definition autostartJSON :: "bool \<Rightarrow> json" where
  "autostartJSON enabled = JObj [(''enabled'', JBool enabled)]"

definition stateResponse ::
  "string \<Rightarrow> string \<Rightarrow> int \<Rightarrow> bool \<Rightarrow> json \<Rightarrow> json list \<Rightarrow> json \<Rightarrow> json \<Rightarrow> json" where
  "stateResponse mach ver uptime relay locked devs pairing auto =
     JObj [(''machine'', JStr mach), (''version'', JStr ver), (''uptime_sec'', JNum (int_string uptime)),
           (''relay_connected'', JBool relay), (''locked'', locked), (''devices'', JArr devs),
           (''pairing'', pairing), (''autostart'', auto)]"

definition state ::
  "('s, 'a) server \<Rightarrow> page_env \<Rightarrow> ('s, 'a) running \<Rightarrow> ('s, 'a) running \<times> response" where
  "state srv env rn =
     (let uptime = seconds_of (time_sub (pe_now env) (sv_started srv));
          relay = (op_Connected (sv_opts srv) \<and> pe_connected env);
          (g, w) = rn_gw rn;
          (s1, lr) = ctrl_locked (sv_sess srv) (sess w);
          locked = (case lr of Inl _ \<Rightarrow> JNull | Inr b \<Rightarrow> JBool b);
          (a1, auto) =
            (case op_Autostart (sv_opts srv) of
               None \<Rightarrow> (rn_auto rn, JNull)
             | Some m \<Rightarrow>
                 (case am_status m (rn_auto rn) of
                    (a', enabled, supported) \<Rightarrow> (a', if supported then autostartJSON enabled else JNull)));
          devs = map deviceJSON (List_devices (pe_order env (entries (g_devices g))));
          pairing = pairingJSON (Gateway.Pairing g (pe_pairing_now env))
      in (rn\<lparr>rn_gw := (g, w\<lparr>sess := s1\<rparr>), rn_auto := a1\<rparr>,
          writeJSON (stateResponse (op_Machine (sv_opts srv)) (op_Version (sv_opts srv)) uptime relay locked devs
            pairing auto)))"

definition pair :: "page_env \<Rightarrow> ('s, 'a) running \<Rightarrow> ('s, 'a) running \<times> response" where
  "pair env rn =
     (case OpenPairing (pe_open1 env) (pe_open2 env) (pe_secret env) (rn_gw rn) of
        (gw', Inl err) \<Rightarrow> (rn\<lparr>rn_gw := gw'\<rparr>, http_error err 500)
      | (gw', Inr code) \<Rightarrow> (rn\<lparr>rn_gw := gw'\<rparr>, writeJSON (JObj [(''code'', JStr code)])))"

text \<open>The bodies of the requests: the first JSON value, decoded into a struct of one field.\<close>

definition id_fields :: "string fields" where
  "id_fields = [(''id'', \<lambda>v old. into_string v old)]"

definition enable_fields :: "bool fields" where
  "enable_fields = [(''enable'', \<lambda>v old. into_bool v old)]"

definition decode_body :: "'r fields \<Rightarrow> string \<Rightarrow> 'r \<Rightarrow> 'r option" where
  "decode_body fs body r = Option.bind (json_first body) (\<lambda>v. decode_struct fs v r)"

definition unpair :: "page_env \<Rightarrow> string \<Rightarrow> ('s, 'a) running \<Rightarrow> ('s, 'a) running \<times> response" where
  "unpair env body rn =
     (case decode_body id_fields body [] of
        None \<Rightarrow> (rn, http_error ''id ontbreekt'' 400)
      | Some i \<Rightarrow>
          if i = [] then (rn, http_error ''id ontbreekt'' 400)
          else (case Gateway.unpair (pe_write env) (rn_gw rn) i of
                  (gw', Some err) \<Rightarrow> (rn\<lparr>rn_gw := gw'\<rparr>, http_error err 404)
                | (gw', None) \<Rightarrow> (rn\<lparr>rn_gw := gw'\<rparr>, writeJSON ok_json)))"

definition autostart :: "('s, 'a) server \<Rightarrow> string \<Rightarrow> ('s, 'a) running \<Rightarrow> ('s, 'a) running \<times> response" where
  "autostart srv body rn =
     (case op_Autostart (sv_opts srv) of
        None \<Rightarrow> (rn, http_error ''niet beschikbaar'' 501)
      | Some m \<Rightarrow>
          (case decode_body enable_fields body False of
             None \<Rightarrow> (rn, http_error ''ongeldige aanvraag'' 400)
           | Some enable \<Rightarrow>
               (case (if enable then am_enable m (rn_auto rn) else am_disable m (rn_auto rn)) of
                  (a', Some err) \<Rightarrow> (rn\<lparr>rn_auto := a'\<rparr>, http_error err 500)
                | (a', None) \<Rightarrow> (rn\<lparr>rn_auto := a'\<rparr>, writeJSON ok_json))))"

definition stop :: "('s, 'a) server \<Rightarrow> ('s, 'a) running \<Rightarrow> ('s, 'a) running \<times> response" where
  "stop srv rn =
     (if \<not> op_Stop (sv_opts srv) then (rn, http_error ''niet beschikbaar'' 501)
      else (rn\<lparr>rn_stops := Suc (rn_stops rn)\<rparr>, writeJSON ok_json))"

definition qr :: "assets \<Rightarrow> page_env \<Rightarrow> ('s, 'a) running \<Rightarrow> response" where
  "qr as env rn =
     (case Gateway.Pairing (fst (rn_gw rn)) (pe_pairing_now env) of
        (code, _, active) \<Rightarrow>
          if \<not> active then http_error ''geen actieve pairing'' 404
          else (case qr_encode as code of
                  Inl err \<Rightarrow> http_error err 500
                | Inr png \<Rightarrow>
                    \<lparr>rs_status = 200,
                     rs_header = [(''Content-Type'', ''image/png''), (''Cache-Control'', ''no-store'')],
                     rs_body = png\<rparr>))"

section \<open>Routing and protection\<close>

definition guarded ::
  "('s, 'a) server \<Rightarrow> request \<Rightarrow> ('r \<Rightarrow> 'r \<times> response) \<Rightarrow> 'r \<Rightarrow> 'r \<times> response" where
  "guarded srv rq fn rn =
     (if rq_token rq \<noteq> csrfToken srv then (rn, http_error ''token ontbreekt of klopt niet'' 403) else fn rn)"

datatype route = RPage | RLogo | RState | RQr | RPair | RUnpair | RAutostart | RStop

definition mux_match :: "string \<Rightarrow> string \<Rightarrow> route option" where
  "mux_match meth p =
     (if meth \<in> {''GET'', ''HEAD''} then
        (if p = ''/logo.png'' then Some RLogo
         else if p = ''/api/state'' then Some RState
         else if p = ''/qr.png'' then Some RQr
         else if has_prefix p ''/'' then Some RPage
         else None)
      else if meth = ''POST'' then
        (if p = ''/api/pair'' then Some RPair
         else if p = ''/api/unpair'' then Some RUnpair
         else if p = ''/api/autostart'' then Some RAutostart
         else if p = ''/api/stop'' then Some RStop
         else None)
      else None)"

definition clean_url_path :: "string \<Rightarrow> string" where
  "clean_url_path p =
     (let p1 = (if p = [] \<or> hd p \<noteq> CHR ''/'' then CHR ''/'' # p else p);
          np = path_clean p1
      in if last p1 = CHR ''/'' \<and> np \<noteq> ''/'' then np @ ''/'' else np)"

definition handle_route ::
  "assets \<Rightarrow> ('s, 'a) server \<Rightarrow> page_env \<Rightarrow> request \<Rightarrow> route \<Rightarrow> ('s, 'a) running \<Rightarrow> ('s, 'a) running \<times> response" where
  "handle_route as srv env rq rt rn =
     (case rt of
        RPage \<Rightarrow> (rn, page as srv (rq_path rq))
      | RLogo \<Rightarrow> (rn, logo as)
      | RState \<Rightarrow> state srv env rn
      | RQr \<Rightarrow> (rn, qr as env rn)
      | RPair \<Rightarrow> guarded srv rq (pair env) rn
      | RUnpair \<Rightarrow> guarded srv rq (unpair env (rq_body rq)) rn
      | RAutostart \<Rightarrow> guarded srv rq (autostart srv (rq_body rq)) rn
      | RStop \<Rightarrow> guarded srv rq (stop srv) rn)"

text \<open>
  The mux redirects a path that is not clean. For every method but those of the matching pattern,
  the pattern \<open>GET /\<close> still matches the path, hence 405.
\<close>

definition mux ::
  "assets \<Rightarrow> ('s, 'a) server \<Rightarrow> page_env \<Rightarrow> request \<Rightarrow> ('s, 'a) running \<Rightarrow> ('s, 'a) running \<times> response" where
  "mux as srv env rq rn =
     (let p = clean_url_path (rq_path rq) in
      if rq_method rq \<noteq> ''CONNECT'' \<and> p \<noteq> rq_path rq
      then (rn, \<lparr>rs_status = 301, rs_header = [(''Location'', p)], rs_body = []\<rparr>)
      else case mux_match (rq_method rq) (rq_path rq) of
             None \<Rightarrow> (rn, http_error ''Method Not Allowed'' 405)
           | Some rt \<Rightarrow> handle_route as srv env rq rt rn)"

definition host_of :: "string \<Rightarrow> string" where
  "host_of h = (case SplitHostPort h of Some (host, _) \<Rightarrow> host | None \<Rightarrow> h)"

definition localOnly :: "request \<Rightarrow> ('r \<Rightarrow> 'r \<times> response) \<Rightarrow> 'r \<Rightarrow> 'r \<times> response" where
  "localOnly rq next_handler rn =
     (let host = host_of (rq_host rq)
      in if host \<noteq> ''127.0.0.1'' \<and> host \<noteq> ''localhost'' then (rn, http_error ''alleen lokaal'' 403)
         else next_handler rn)"

definition Handler ::
  "assets \<Rightarrow> ('s, 'a) server \<Rightarrow> page_env \<Rightarrow> request \<Rightarrow> ('s, 'a) running \<Rightarrow> ('s, 'a) running \<times> response" where
  "Handler as srv env rq = localOnly rq (mux as srv env rq)"

text \<open>
  \<open>Start\<close>: the address it listens on, and what it returns when \<open>ListenAndServe\<close> ends, which it does with
  \<open>ErrServerClosed\<close> after the shutdown that follows the end of the context.
\<close>

datatype serve_end = ServerClosed | ServeError string

definition ui_addr :: "int \<Rightarrow> string" where
  "ui_addr port = ''127.0.0.1:'' @ int_string port"

definition ui_Start :: "(string \<Rightarrow> serve_end) \<Rightarrow> int \<Rightarrow> string option" where
  "ui_Start listenAndServe port =
     (case listenAndServe (ui_addr port) of ServerClosed \<Rightarrow> None | ServeError err \<Rightarrow> Some err)"

section \<open>Which hosts are local\<close>

definition plain_port :: "string \<Rightarrow> bool" where
  "plain_port p = (CHR '':'' \<notin> set p \<and> CHR ''['' \<notin> set p \<and> CHR '']'' \<notin> set p)"

lemma index_of_append: "c \<notin> set s \<Longrightarrow> index_of c (s @ c # t) = Some (length s)"
proof -
  assume "c \<notin> set s"
  then have "takeWhile (\<lambda>x. x \<noteq> c) (s @ c # t) = s" by (intro takeWhile_append_stop) auto
  then show ?thesis by (simp add: index_of_def Let_def)
qed

lemma index_of_SomeD: "index_of c s = Some i \<Longrightarrow> i < length s \<and> s ! i = c"
  using nth_length_takeWhile [of "\<lambda>x. x \<noteq> c" s]
  by (auto simp: index_of_def Let_def split: if_splits)

lemma SplitHostPort_plain:
  assumes "CHR '':'' \<notin> set l" and "CHR ''['' \<notin> set l" and "CHR '']'' \<notin> set l" and "plain_port p"
  shows "SplitHostPort (l @ CHR '':'' # p) = Some (l, p)"
    and "SplitHostPort (CHR ''['' # l @ CHR '']'' # CHR '':'' # p) = Some (l, p)"
proof -
  have port: "CHR '':'' \<notin> set p" "CHR ''['' \<notin> set p" "CHR '']'' \<notin> set p" using assms(4) by (simp_all add: plain_port_def)
  have "hd (l @ CHR '':'' # p) \<noteq> CHR ''[''" using assms(2) by (cases l) auto
  with assms port last_index_of_append [OF port(1), of l] show "SplitHostPort (l @ CHR '':'' # p) = Some (l, p)"
    by (simp add: SplitHostPort_def)
  have "last_index_of CHR '':'' (CHR ''['' # l @ CHR '']'' # CHR '':'' # p) = Some (length l + 2)"
    using last_index_of_append [OF port(1), of "CHR ''['' # l @ [CHR '']'']"] by simp
  moreover have "index_of CHR '']'' (CHR ''['' # l @ CHR '']'' # CHR '':'' # p) = Some (length l + 1)"
    using index_of_append [of "CHR '']''" "CHR ''['' # l" "CHR '':'' # p"] assms(3) by simp
  ultimately show "SplitHostPort (CHR ''['' # l @ CHR '']'' # CHR '':'' # p) = Some (l, p)"
    using assms port by (simp add: SplitHostPort_def)
qed

lemma SplitHostPort_SomeD:
  assumes "SplitHostPort h = Some (l, p)"
  shows "plain_port p \<and> (h = l @ CHR '':'' # p \<or> h = CHR ''['' # l @ CHR '']'' # CHR '':'' # p)"
proof -
  obtain i where i: "last_index_of CHR '':'' h = Some i"
    using assms by (auto simp: SplitHostPort_def split: option.splits)
  note split = last_index_of_SomeD [OF i]
  show ?thesis
  proof (cases "hd h = CHR ''[''")
    case False
    with assms i have "l = take i h" "p = drop (i + 1) h" "CHR ''['' \<notin> set h" "CHR '']'' \<notin> set h"
      by (auto simp: SplitHostPort_def split: if_splits)
    with split show ?thesis by (auto simp: plain_port_def dest: in_set_dropD)
  next
    case True
    with assms i obtain e where e: "index_of CHR '']'' h = Some e" "e + 1 = i" "CHR ''['' \<notin> set (drop 1 h)"
        "CHR '']'' \<notin> set (drop (e + 1) h)" "l = take (e - 1) (drop 1 h)" "p = drop (i + 1) h"
      by (auto simp: SplitHostPort_def split: if_splits option.splits)
    from index_of_SomeD [OF e(1)] have at: "e < length h" "h ! e = CHR '']''" by auto
    with True have "e \<noteq> 0" by (cases h; cases e) auto
    then obtain k where k: "e = Suc k" by (cases e) auto
    obtain t where t: "h = CHR ''['' # t" using True at(1) by (cases h) auto
    have "take i h = CHR ''['' # l @ [CHR '']'']"
      using at t k e(2,5) by (auto simp: take_Suc_conv_app_nth)
    with split e(6) have "h = CHR ''['' # l @ CHR '']'' # CHR '':'' # p" by simp
    moreover have "p = drop i (drop 1 h)" "p = drop 1 (drop (e + 1) h)" using e(2,6) by simp_all
    then have "set p \<subseteq> set (drop 1 h)" "set p \<subseteq> set (drop (e + 1) h)" by (metis set_drop_subset)+
    then have "plain_port p" using split e(3,4,6) by (auto simp: plain_port_def)
    ultimately show ?thesis by blast
  qed
qed

lemma local_names_plain:
  "l \<in> {''127.0.0.1'', ''localhost''} \<Longrightarrow>
     CHR '':'' \<notin> set l \<and> CHR ''['' \<notin> set l \<and> CHR '']'' \<notin> set l \<and> SplitHostPort l = None"
  by (auto simp: SplitHostPort_def last_index_of_def Let_def)

lemma host_of_local:
  assumes "l \<in> {''127.0.0.1'', ''localhost''}"
  shows "host_of h = l \<longleftrightarrow>
    h = l \<or> (\<exists>p. plain_port p \<and> (h = l @ CHR '':'' # p \<or> h = CHR ''['' # l @ CHR '']'' # CHR '':'' # p))"
proof
  assume "host_of h = l"
  then show "h = l \<or> (\<exists>p. plain_port p \<and> (h = l @ CHR '':'' # p \<or> h = CHR ''['' # l @ CHR '']'' # CHR '':'' # p))"
    using SplitHostPort_SomeD [of h] by (auto simp: host_of_def split: option.splits)
next
  assume "h = l \<or> (\<exists>p. plain_port p \<and> (h = l @ CHR '':'' # p \<or> h = CHR ''['' # l @ CHR '']'' # CHR '':'' # p))"
  then show "host_of h = l"
    using local_names_plain [OF assms] SplitHostPort_plain [of l] by (auto simp: host_of_def)
qed

section \<open>Properties\<close>

text \<open>
  C25. Only local names get in: whatever a request asks for, if its \<open>Host\<close> is not \<open>127.0.0.1\<close> or
  \<open>localhost\<close>, alone or followed by a port, with or without brackets, it is answered with 403 and
  nothing changes; with such a host it is handed to the router.
\<close>

theorem only_local_hosts:
  "Handler as srv env rq rn =
     (if \<exists>l\<in>{''127.0.0.1'', ''localhost''}.
           rq_host rq = l \<or> (\<exists>p. plain_port p \<and>
             (rq_host rq = l @ '':'' @ p \<or> rq_host rq = ''['' @ l @ '']:'' @ p))
      then mux as srv env rq rn else (rn, http_error ''alleen lokaal'' 403))"
proof -
  let ?L = "{''127.0.0.1'', ''localhost''}"
  have "host_of (rq_host rq) \<in> ?L \<longleftrightarrow> (\<exists>l\<in>?L. host_of (rq_host rq) = l)" by blast
  also have "\<dots> \<longleftrightarrow> (\<exists>l\<in>?L. rq_host rq = l \<or> (\<exists>p. plain_port p \<and>
      (rq_host rq = l @ CHR '':'' # p \<or> rq_host rq = CHR ''['' # l @ CHR '']'' # CHR '':'' # p)))"
    by (rule bex_cong [OF refl]) (rule host_of_local)
  finally show ?thesis
    unfolding Handler_def localOnly_def Let_def by (simp only: append.simps insert_iff empty_iff simp_thms de_Morgan_disj [symmetric] if_not_P if_P split: if_split) blast
qed

text \<open>What the read-only routes change: the operating system may be asked, nothing else.\<close>

definition settings :: "('s, 'a) running \<Rightarrow> gateway \<times> window list \<times> disk \<times> nat" where
  "settings rn = (fst (rn_gw rn), heap (snd (rn_gw rn)), dsk (snd (rn_gw rn)), rn_stops rn)"

lemma state_settings: "settings (fst (state srv env rn)) = settings rn"
  by (simp add: state_def settings_def Let_def split: prod.splits option.splits)

lemma Handler_cases:
  assumes "Handler as srv env rq rn = (rn', rs)"
  obtains (refused) "rn' = rn" "rs_status rs \<in> {301, 403, 405}"
    | (routed) rt where "host_of (rq_host rq) \<in> {''127.0.0.1'', ''localhost''}"
        "mux_match (rq_method rq) (rq_path rq) = Some rt" "handle_route as srv env rq rt rn = (rn', rs)"
  using assms
  by (auto simp: Handler_def localOnly_def mux_def Let_def http_error_def split: if_splits option.splits)

lemma mux_match_post:
  "mux_match m p = Some rt \<Longrightarrow> rt \<in> {RPair, RUnpair, RAutostart, RStop} \<Longrightarrow>
     m = ''POST'' \<and> (rt = RPair \<longrightarrow> p = ''/api/pair'') \<and> (rt = RUnpair \<longrightarrow> p = ''/api/unpair'')
       \<and> (rt = RAutostart \<longrightarrow> p = ''/api/autostart'') \<and> (rt = RStop \<longrightarrow> p = ''/api/stop'')"
  by (auto simp: mux_match_def split: if_splits)

text \<open>What no route of the page touches: the core with its replay cache, the keys and the session.\<close>

definition core_part :: "gateway \<times> 's world \<Rightarrow> core \<times> keys \<times> string \<times> 's" where
  "core_part gw = (g_core (fst gw), g_keys (fst gw), g_agentID (fst gw), sess (snd gw))"

lemma OpenPairing_core: "OpenPairing t1 t2 rnd gw = (gw', r) \<Longrightarrow> core_part gw' = core_part gw"
  using OpenPairing_frame [of t1 t2 rnd "fst gw" "snd gw" "fst gw'" "snd gw'" r]
  by (simp add: core_part_def)

lemma Gateway_unpair_core:
  assumes "Gateway.unpair wo gw i = (gw', e)" shows "core_part gw' = core_part gw"
proof -
  have "Gateway.unpair wo (fst gw, snd gw) i = ((fst gw', snd gw'), e)" using assms by simp
  note f = unpair_frame [OF this]
  have "g_core (fst gw') = g_core (fst gw)" "g_keys (fst gw') = g_keys (fst gw)"
      "g_agentID (fst gw') = g_agentID (fst gw)"
    using arg_cong [OF f(1), of g_core] arg_cong [OF f(1), of g_keys] arg_cong [OF f(1), of g_agentID] by simp_all
  with f(3) show ?thesis by (simp add: core_part_def)
qed

lemma guarded_changed:
  "guarded srv rq fn rn = (rn', rs) \<Longrightarrow> rn' \<noteq> rn \<Longrightarrow> rq_token rq = csrfToken srv \<and> fn rn = (rn', rs)"
  by (auto simp: guarded_def split: if_splits)

lemma pair_core: "pair env rn = (rn', rs) \<Longrightarrow> core_part (rn_gw rn') = core_part (rn_gw rn)"
  by (auto simp: pair_def dest: OpenPairing_core split: prod.splits sum.splits)

lemma unpair_core: "unpair env b rn = (rn', rs) \<Longrightarrow> core_part (rn_gw rn') = core_part (rn_gw rn)"
  by (auto simp: unpair_def dest: Gateway_unpair_core split: prod.splits option.splits if_splits)

lemma stop_core: "stop srv rn = (rn', rs) \<Longrightarrow> core_part (rn_gw rn') = core_part (rn_gw rn)"
  by (auto simp: stop_def split: if_splits)

lemma autostart_settings: "autostart srv b rn = (rn', rs) \<Longrightarrow> settings rn' = settings rn"
  by (auto simp: autostart_def settings_def split: prod.splits option.splits if_splits)

text \<open>The requests that may change something: to a local name, by \<open>POST\<close>, with the token.\<close>

definition authorised :: "('s, 'a) server \<Rightarrow> request \<Rightarrow> bool" where
  "authorised srv rq =
     (rq_method rq = ''POST'' \<and> rq_token rq = csrfToken srv \<and> host_of (rq_host rq) \<in> {''127.0.0.1'', ''localhost''})"

lemma unpair_effect:
  "fst (unpair env b rn) = rn
   \<or> (\<exists>dev. decode_body id_fields b [] = Some dev \<and> dev \<noteq> []
        \<and> fst (unpair env b rn) = rn\<lparr>rn_gw := fst (Gateway.unpair (pe_write env) (rn_gw rn) dev)\<rparr>)"
  by (auto simp: unpair_def split: option.splits prod.splits)

lemma autostart_effect:
  "fst (autostart srv b rn) = rn
   \<or> (\<exists>m enable. op_Autostart (sv_opts srv) = Some m \<and> decode_body enable_fields b False = Some enable
        \<and> fst (autostart srv b rn)
          = rn\<lparr>rn_auto := fst (if enable then am_enable m (rn_auto rn) else am_disable m (rn_auto rn))\<rparr>)"
  by (auto simp: autostart_def split: option.splits prod.splits)

lemma pair_effect:
  "fst (pair env rn) = rn\<lparr>rn_gw := fst (OpenPairing (pe_open1 env) (pe_open2 env) (pe_secret env) (rn_gw rn))\<rparr>"
  by (simp add: pair_def split: prod.splits sum.splits)

lemma state_effect:
  "fst (state srv env rn) =
     rn\<lparr>rn_gw := (fst (rn_gw rn), (snd (rn_gw rn))\<lparr>sess := fst (ctrl_locked (sv_sess srv) (sess (snd (rn_gw rn))))\<rparr>),
        rn_auto := (case op_Autostart (sv_opts srv) of None \<Rightarrow> rn_auto rn | Some m \<Rightarrow> fst (am_status m (rn_auto rn)))\<rparr>"
  by (simp add: state_def Let_def split: prod.splits option.splits)

lemma guarded_effect:
  "fst (guarded srv rq fn rn) = rn \<or> rq_token rq = csrfToken srv \<and> fst (guarded srv rq fn rn) = fst (fn rn)"
  by (simp add: guarded_def)

lemma mux_match_state: "mux_match m p = Some RState \<Longrightarrow> m \<in> {''GET'', ''HEAD''} \<and> p = ''/api/state''"
  by (auto simp: mux_match_def split: if_splits)

text \<open>
  C9. Every change needs the token and comes from its own endpoint. A request leaves everything as it
  was; or it reads the state of the session and of autostart, for \<open>/api/state\<close>; or it is a \<open>POST\<close> to a
  local name with the token of this server, and then opens a pairing window (\<open>/api/pair\<close>), removes the
  device its body names (\<open>/api/unpair\<close>), switches autostart as its body says (\<open>/api/autostart\<close>) or
  stops the agent (\<open>/api/stop\<close>), and changes nothing else. No request locks the session or touches
  the gateway's core.
\<close>

theorem page_changes_guarded:
  assumes "Handler as srv env rq rn = (rn', rs)"
  shows "rn' = rn
    \<or> rq_method rq \<in> {''GET'', ''HEAD''} \<and> rq_path rq = ''/api/state''
      \<and> rn' = rn\<lparr>rn_gw := (fst (rn_gw rn), (snd (rn_gw rn))\<lparr>sess := fst (ctrl_locked (sv_sess srv) (sess (snd (rn_gw rn))))\<rparr>),
          rn_auto := (case op_Autostart (sv_opts srv) of None \<Rightarrow> rn_auto rn | Some m \<Rightarrow> fst (am_status m (rn_auto rn)))\<rparr>
    \<or> authorised srv rq
      \<and> (rq_path rq = ''/api/pair''
           \<and> rn' = rn\<lparr>rn_gw := fst (OpenPairing (pe_open1 env) (pe_open2 env) (pe_secret env) (rn_gw rn))\<rparr>
         \<or> rq_path rq = ''/api/unpair''
           \<and> (\<exists>dev. decode_body id_fields (rq_body rq) [] = Some dev \<and> dev \<noteq> []
                \<and> rn' = rn\<lparr>rn_gw := fst (Gateway.unpair (pe_write env) (rn_gw rn) dev)\<rparr>)
         \<or> rq_path rq = ''/api/autostart''
           \<and> (\<exists>m enable. op_Autostart (sv_opts srv) = Some m \<and> decode_body enable_fields (rq_body rq) False = Some enable
                \<and> rn' = rn\<lparr>rn_auto := fst (if enable then am_enable m (rn_auto rn) else am_disable m (rn_auto rn))\<rparr>)
         \<or> rq_path rq = ''/api/stop'' \<and> op_Stop (sv_opts srv) \<and> rn' = rn\<lparr>rn_stops := Suc (rn_stops rn)\<rparr>)"
  using assms
proof (cases rule: Handler_cases)
  case (routed rt)
  have rn': "rn' = fst (handle_route as srv env rq rt rn)" using routed(3) by simp
  have auth: "rq_token rq = csrfToken srv \<Longrightarrow> rt \<in> {RPair, RUnpair, RAutostart, RStop} \<Longrightarrow> authorised srv rq"
    using mux_match_post [OF routed(2)] routed(1) by (simp add: authorised_def)
  show ?thesis
  proof (cases rt)
    case RState
    with mux_match_state routed(2) show ?thesis by (simp add: rn' handle_route_def state_effect)
  next
    case RPair
    have e: "rn' = rn \<or> authorised srv rq \<and> rn' = fst (pair env rn)"
      using guarded_effect [of srv rq "pair env" rn] auth RPair by (auto simp: rn' handle_route_def)
    have p: "rq_path rq = ''/api/pair''" using mux_match_post [OF routed(2)] RPair by simp
    from e show ?thesis
    proof
      assume "authorised srv rq \<and> rn' = fst (pair env rn)"
      with p show ?thesis by (simp add: pair_effect)
    qed blast
  next
    case RUnpair
    have e: "rn' = rn \<or> authorised srv rq \<and> rn' = fst (unpair env (rq_body rq) rn)"
      using guarded_effect [of srv rq "unpair env (rq_body rq)" rn] auth RUnpair by (auto simp: rn' handle_route_def)
    have p: "rq_path rq = ''/api/unpair''" using mux_match_post [OF routed(2)] RUnpair by simp
    from e show ?thesis
    proof
      assume "authorised srv rq \<and> rn' = fst (unpair env (rq_body rq) rn)"
      then have au: "authorised srv rq" and eq: "rn' = fst (unpair env (rq_body rq) rn)" by simp_all
      from unpair_effect [of env "rq_body rq" rn] show ?thesis
        unfolding eq [symmetric] using au p by (elim disjE) simp_all
    qed blast
  next
    case RAutostart
    have e: "rn' = rn \<or> authorised srv rq \<and> rn' = fst (autostart srv (rq_body rq) rn)"
      using guarded_effect [of srv rq "autostart srv (rq_body rq)" rn] auth RAutostart by (auto simp: rn' handle_route_def)
    have p: "rq_path rq = ''/api/autostart''" using mux_match_post [OF routed(2)] RAutostart by simp
    from e show ?thesis
    proof
      assume "authorised srv rq \<and> rn' = fst (autostart srv (rq_body rq) rn)"
      then have au: "authorised srv rq" and eq: "rn' = fst (autostart srv (rq_body rq) rn)" by simp_all
      from autostart_effect [of srv "rq_body rq" rn] show ?thesis
        unfolding eq [symmetric] using au p by (elim disjE) simp_all
    qed blast
  next
    case RStop
    have e: "rn' = rn \<or> authorised srv rq \<and> rn' = fst (stop srv rn)"
      using guarded_effect [of srv rq "stop srv" rn] auth RStop by (auto simp: rn' handle_route_def)
    have p: "rq_path rq = ''/api/stop''" using mux_match_post [OF routed(2)] RStop by simp
    from e show ?thesis
    proof
      assume "authorised srv rq \<and> rn' = fst (stop srv rn)"
      with p show ?thesis by (simp add: stop_def)
    qed blast
  qed (simp_all add: rn' handle_route_def)
qed simp

text \<open>A server and a running agent for concrete requests.\<close>

definition demo_server :: "(bool \<times> nat, bool) server" where
  "demo_server =
     \<lparr>sv_sess = fakeSession,
      sv_opts = \<lparr>op_Machine = ''pc'', op_Version = ''dev'', op_Connected = True,
                 op_Autostart = Some (linux_manager unit_commands), op_Stop = True\<rparr>,
      sv_started = at_time 900 1, csrfToken = ''c0ffee''\<rparr>"

definition demo_running :: "(bool \<times> nat, bool) running" where
  "demo_running = \<lparr>rn_gw = (demo_gateway, demo_world), rn_auto = False, rn_stops = 0\<rparr>"

definition demo_assets :: assets where
  "demo_assets = \<lparr>pageHTML = ''<meta content=__TOKEN__>'', logoPNG = [], qr_encode = Inr\<rparr>"

definition demo_page_env :: page_env where
  "demo_page_env =
     \<lparr>pe_connected = True, pe_now = at_time 1000 5, pe_pairing_now = at_time 1000 5, pe_open1 = at_time 990 1,
      pe_open2 = at_time 990 1, pe_secret = Inr ''secret'', pe_write = WriteOk, pe_order = (\<lambda>m. m)\<rparr>"

definition demo_request :: "string \<Rightarrow> string \<Rightarrow> string \<Rightarrow> request" where
  "demo_request p token body =
     \<lparr>rq_method = ''POST'', rq_host = ''localhost:41800'', rq_path = p, rq_token = token, rq_body = body\<rparr>"

lemma demo_host: "host_of ''localhost:41800'' = ''localhost''"
  by (simp add: host_of_def SplitHostPort_def last_index_of_def Let_def)

lemma clean_api_paths:
  "clean_url_path ''/api/pair'' = ''/api/pair''" "clean_url_path ''/api/unpair'' = ''/api/unpair''"
  "clean_url_path ''/api/stop'' = ''/api/stop''" "clean_url_path ''/api/autostart'' = ''/api/autostart''"
  "clean_url_path ''/api//pair'' = ''/api/pair''" "clean_url_path ''/'' = ''/''"
  by (simp_all add: clean_url_path_def path_clean_def clean_step_def Let_def)

text \<open>How a request to one of the guarded endpoints is served.\<close>

lemma Handler_post:
  assumes "host_of (rq_host rq) \<in> {''127.0.0.1'', ''localhost''}" and "rq_method rq = ''POST''"
    and "rq_token rq = csrfToken srv"
  shows "rq_path rq = ''/api/pair'' \<Longrightarrow> Handler as srv env rq rn = pair env rn"
    and "rq_path rq = ''/api/unpair'' \<Longrightarrow> Handler as srv env rq rn = unpair env (rq_body rq) rn"
    and "rq_path rq = ''/api/autostart'' \<Longrightarrow> Handler as srv env rq rn = autostart srv (rq_body rq) rn"
    and "rq_path rq = ''/api/stop'' \<Longrightarrow> Handler as srv env rq rn = stop srv rn"
  using assms
  by (simp_all add: Handler_def localOnly_def mux_def Let_def clean_api_paths mux_match_def handle_route_def guarded_def)
     auto

theorem page_changes_guarded_witness:
  "\<exists>rn' rs. Handler demo_assets demo_server demo_page_env (demo_request ''/api/stop'' ''c0ffee'' []) demo_running = (rn', rs)
     \<and> rn_stops rn' = 1 \<and> authorised demo_server (demo_request ''/api/stop'' ''c0ffee'' [])"
proof -
  let ?rq = "demo_request ''/api/stop'' ''c0ffee'' []"
  have "host_of (rq_host ?rq) \<in> {''127.0.0.1'', ''localhost''}" by (simp add: demo_request_def demo_host)
  from Handler_post(4) [OF this, of demo_server]
  have h: "Handler demo_assets demo_server demo_page_env ?rq demo_running
      = (demo_running\<lparr>rn_stops := 1\<rparr>, writeJSON ok_json)"
    by (simp add: demo_request_def demo_server_def stop_def demo_running_def)
  from page_changes_guarded [OF h] h show ?thesis by (auto simp: demo_running_def demo_request_def)
qed

text \<open>
  C26. The token is not given away: for a request that does not carry it, the answer to everything
  but the page itself, and the effect on the agent, are the same whatever the token is. Without the
  page a local program or a foreign web site learns nothing about it.
\<close>

theorem token_not_revealed:
  assumes "rq_token rq \<noteq> t1" and "rq_token rq \<noteq> t2" and "rq_path rq \<noteq> ''/''"
  shows "Handler as (srv\<lparr>csrfToken := t1\<rparr>) env rq rn = Handler as (srv\<lparr>csrfToken := t2\<rparr>) env rq rn"
proof -
  have "state (srv\<lparr>csrfToken := t1\<rparr>) env rn = state (srv\<lparr>csrfToken := t2\<rparr>) env rn"
    by (simp add: state_def)
  with assms have "handle_route as (srv\<lparr>csrfToken := t1\<rparr>) env rq rt rn = handle_route as (srv\<lparr>csrfToken := t2\<rparr>) env rq rt rn"
    for rt
    by (cases rt) (simp_all add: handle_route_def guarded_def page_def)
  then show ?thesis by (simp add: Handler_def localOnly_def mux_def Let_def split: option.splits)
qed

theorem token_not_revealed_witness:
  "Handler demo_assets (demo_server\<lparr>csrfToken := ''c0ffee''\<rparr>) demo_page_env (demo_request ''/api/pair'' ''guess'' []) demo_running
     = Handler demo_assets (demo_server\<lparr>csrfToken := ''facade''\<rparr>) demo_page_env (demo_request ''/api/pair'' ''guess'' []) demo_running"
  by (rule token_not_revealed) (simp_all add: demo_request_def)

text \<open>
  C14. Unpairing from the page locks the device out at once: after the request, whatever its
  status, nothing the device seals is opened or answered. The answer is a success exactly when the
  device was known and the new file was written.
\<close>

theorem page_unpair_locks_out:
  assumes "host_of (rq_host rq) \<in> {''127.0.0.1'', ''localhost''}" and "rq_method rq = ''POST''"
    and "rq_path rq = ''/api/unpair''" and "rq_token rq = csrfToken srv"
    and "decode_body id_fields (rq_body rq) [] = Some dev" and "dev \<noteq> []"
    and "Handler as srv env rq rn = (rn', rs)" and "IsSealed payload"
  shows "Handle ctrl cr i (rn_gw rn') dev payload = (rn_gw rn', Ret None)
    \<and> (rs_status rs = 200 \<longleftrightarrow>
         map_of (entries (g_devices (fst (rn_gw rn)))) dev \<noteq> None
         \<and> is_ok (store_text (dev_del (g_devices (fst (rn_gw rn))) dev)) \<and> pe_write env = WriteOk)"
proof -
  obtain g w g' w' e where gw: "rn_gw rn = (g, w)" "Gateway.unpair (pe_write env) (g, w) dev = ((g', w'), e)"
    by (metis prod.collapse)
  have "unpair env (rq_body rq) rn = (rn', rs)" using Handler_post(2) [OF assms(1,2,4,3)] assms(7) by simp
  with assms(5,6) gw have r: "rn_gw rn' = (g', w')" "rs_status rs = 200 \<longleftrightarrow> e = None"
    by (auto simp: unpair_def http_error_def writeJSON_def split: option.splits)
  have dev: "g_devices g' = snd (fst (Remove (pe_write env) (dsk w) (g_devices g) dev))"
      "e = snd (Remove (pe_write env) (dsk w) (g_devices g) dev)"
    using gw(2) unpair_frame(4) [OF gw(2)] by (auto simp: Gateway.unpair_def split: prod.splits)
  have "Get (g_devices g') dev = None" by (simp add: dev(1) Get_Remove)
  with assms(8) r have "Handle ctrl cr i (rn_gw rn') dev payload = (rn_gw rn', Ret None)"
    by (simp add: Handle_def handleSealed_def)
  moreover have "e = None \<longleftrightarrow> map_of (entries (g_devices g)) dev \<noteq> None
      \<and> is_ok (store_text (dev_del (g_devices g) dev)) \<and> pe_write env = WriteOk"
    using Remove_result [of "g_devices g" dev "pe_write env" "dsk w"]
    by (cases "map_of (entries (g_devices g)) dev = None")
       (auto simp: dev(2) persistLocked_err_iff Remove_def)
  ultimately show ?thesis by (simp add: r gw(1))
qed

lemma demo_unpair_body: "decode_body id_fields (json_marshal (JObj [(''id'', JStr ''phone'')])) [] = Some ''phone''"
proof -
  let ?v = "JObj [(''id'', JStr ''phone'')]"
  have "json_parse (json_marshal ?v) = Some ?v"
    by (rule json_parse_marshal) (simp_all add: valid_utf8_ascii_Cons max_nesting_def)
  from json_first_parse [OF this] show ?thesis
    by (simp add: decode_body_def decode_struct_def id_fields_def find_field_def into_string_def)
qed

theorem page_unpair_locks_out_witness:
  "\<exists>rn' rs. Handler demo_assets demo_server (demo_page_env\<lparr>pe_write := WriteRefused ''disk full''\<rparr>)
       (demo_request ''/api/unpair'' ''c0ffee'' (json_marshal (JObj [(''id'', JStr ''phone'')]))) demo_running = (rn', rs)
     \<and> Handle fakeSession toy_nacl demo_inputs (rn_gw rn') ''phone'' (demo_sealed demo_lock) = (rn_gw rn', Ret None)
     \<and> rs_status rs \<noteq> 200"
proof -
  let ?rq = "demo_request ''/api/unpair'' ''c0ffee'' (json_marshal (JObj [(''id'', JStr ''phone'')]))"
  obtain rn' rs where h: "Handler demo_assets demo_server (demo_page_env\<lparr>pe_write := WriteRefused ''disk full''\<rparr>)
      ?rq demo_running = (rn', rs)" by fastforce
  have "host_of (rq_host ?rq) \<in> {''127.0.0.1'', ''localhost''}" by (simp add: demo_request_def demo_host)
  from page_unpair_locks_out [OF this _ _ _ _ _ h, of "''phone''" "demo_sealed demo_lock"] h show ?thesis
    by (simp add: demo_request_def demo_server_def demo_unpair_body demo_sealed_def IsSealed_def)
qed

text \<open>
  C38. A spent code stays on display: after a pair request was answered, the page offers the same code
  and the same QR image for the rest of the five minutes, although no request can be made with it
  any more.
\<close>

theorem spent_code_still_shown:
  assumes "rn_gw rn = (g, w)" and "g_window g = Some a" and "a < length (heap w)"
    and "\<not> IsSealed payload" and "Handle ctrl cr i (g, w) from payload = ((g', w'), Ret (Some enc))"
  shows "Gateway.Pairing g' = Gateway.Pairing g \<and> qr as env (rn\<lparr>rn_gw := (g', w')\<rparr>) = qr as env rn
    \<and> g_window g' = Some a \<and> \<not> VerifyRequest (Some (heap w' ! a)) now clientID pub mac"
proof -
  obtain inp where p: "pairFinish i (g, w) from inp (g_window g) = ((g', w'), Ret (Some enc))"
    using assms(4,5) by (auto simp: Handle_def handlePairRequest_def pairStart_def split: option.splits sum.splits if_splits)
  note f = pairFinish_frame(1) [OF p]
  have "g_window g' = g_window g" "g_code g' = g_code g" "g_expires g' = g_expires g"
    using arg_cong [OF f, of g_window] arg_cong [OF f, of g_code] arg_cong [OF f, of g_expires] by simp_all
  then have same: "Gateway.Pairing g' = Gateway.Pairing g" "g_window g' = Some a"
    by (simp_all add: fun_eq_iff Gateway.Pairing_def Let_def assms(2))
  have "heap w' ! a = Consume (heap w ! a)"
    using pairFinish_reply [OF p] assms(2,3) by auto
  then have "\<not> VerifyRequest (Some (heap w' ! a)) now clientID pub mac"
    by (simp add: VerifyRequest_def Consume_def)
  with same show ?thesis by (simp add: qr_def assms(1))
qed

theorem spent_code_still_shown_witness:
  "\<exists>g1 w1 p g2 w2 enc. fst (OpenPairing (at_time 990 1) (at_time 990 1) (Inr ''secret'') (demo_gateway, demo_world)) = (g1, w1)
     \<and> Handle fakeSession toy_nacl demo_inputs (g1, w1) ''tablet'' (wire_text p) = ((g2, w2), Ret (Some enc))
     \<and> rs_status (qr demo_assets demo_page_env (demo_running\<lparr>rn_gw := (g2, w2)\<rparr>)) = 200
     \<and> \<not> VerifyRequest (Some (heap w2 ! 0)) (at_time 1000 5) ''other'' ''key'' ''mac''"
proof -
  obtain g1 w1 code where op: "OpenPairing (at_time 990 1) (at_time 990 1) (Inr ''secret'') (demo_gateway, demo_world)
      = ((g1, w1), Inr code)" by (simp add: OpenPairing_def NewWindow_def Let_def)
  note o = OpenPairing_result [OF op [unfolded sum.inject]]
  obtain p where p: "pairRequest (rawurl_encode ''secret'') ''tablet'' (EncodeKey (Pub phone_keys)) ''Tab'' = Inr p"
    by (simp add: pairRequest_def RequestMAC_def)
  obtain g2 w2 enc where "pairStart g1 (wire_text p) = Some (p, Some 0)"
      "pairFinish demo_inputs (g1, w1) ''tablet'' p (Some 0) = ((g2, w2), Ret (Some enc))"
    using pairing_run [OF op p demo_pairing] by (auto simp: demo_world_def)
  then have h: "Handle fakeSession toy_nacl demo_inputs (g1, w1) ''tablet'' (wire_text p) = ((g2, w2), Ret (Some enc))"
    by (simp add: Handle_def handlePairRequest_def)
  have w: "g_window g1 = Some 0" "0 < length (heap w1)" using o(1,2) by (simp_all add: demo_world_def)
  have "g_expires g1 = time_add (at_time 990 1) WindowTTL" using arg_cong [OF o(4), of g_expires] by simp
  then have "rs_status (qr demo_assets demo_page_env (demo_running\<lparr>rn_gw := (g1, w1)\<rparr>)) = 200"
    by (simp add: qr_def Gateway.Pairing_def w demo_page_env_def demo_assets_def go_defs at_time_def WindowTTL_def)
  with spent_code_still_shown [of "demo_running\<lparr>rn_gw := (g1, w1)\<rparr>", OF _ w wire_text_not_sealed h] op h show ?thesis
    by (intro exI [of _ g1] exI [of _ w1] exI [of _ p] exI [of _ g2] exI [of _ w2] exI [of _ enc]) simp
qed

end
