(* ===== verification/Identity.thy ===== *)
theory Identity
  imports Keys Json_Valid Json_Torn Disk
begin

text \<open>
  Package \<open>identity\<close> (\<open>internal/identity/identity.go\<close>): the agent's stable identifier and key pair
  in \<open>agent.json\<close>. The random source, the outcome of each file operation and the fault of a read
  are arguments; a file holds bytes, its mode is not modelled.
\<close>

record identity =
  AgentID :: string
  id_Keys :: keys

record identityFile =
  f_AgentID :: string
  f_BoxPub :: string
  f_BoxPriv :: string

definition empty_file :: identityFile where
  "empty_file = \<lparr>f_AgentID = [], f_BoxPub = [], f_BoxPriv = []\<rparr>"

definition file_members :: "identityFile \<Rightarrow> (string \<times> json) list" where
  "file_members f =
     [(''agent_id'', JStr (f_AgentID f))] @ string_member ''box_pub'' (f_BoxPub f)
       @ string_member ''box_priv'' (f_BoxPriv f)"

definition file_fields :: "identityFile fields" where
  "file_fields =
     [(''agent_id'', \<lambda>v f. map_option (\<lambda>x. f\<lparr>f_AgentID := x\<rparr>) (into_string v (f_AgentID f))),
      (''box_pub'', \<lambda>v f. map_option (\<lambda>x. f\<lparr>f_BoxPub := x\<rparr>) (into_string v (f_BoxPub f))),
      (''box_priv'', \<lambda>v f. map_option (\<lambda>x. f\<lparr>f_BoxPriv := x\<rparr>) (into_string v (f_BoxPriv f)))]"

text \<open>What the environment contributes to one \<open>Load\<close>.\<close>

record id_env =
  read_fault :: "string option"
  uuid_rand :: "bytes result"
  key_rand :: "bytes result"
  mkdir_fault :: "string option"
  id_write :: write_outcome

section \<open>Identifiers\<close>

definition byte_word :: "char \<Rightarrow> 8 word" where
  "byte_word c = word_of_nat (of_char c)"

definition word_byte :: "8 word \<Rightarrow> char" where
  "word_byte w = char_of (unat w)"

text \<open>The 16 random bytes, with the version and variant bits set; \<open>b[i:j]\<close> is a slice.\<close>

definition byte_slice :: "nat \<Rightarrow> nat \<Rightarrow> 'a list \<Rightarrow> 'a list" where
  "byte_slice i j xs = take (j - i) (drop i xs)"

definition newUUID :: "bytes result \<Rightarrow> string result" where
  "newUUID rnd =
     (case rnd of
        Inl err \<Rightarrow> Inl (''identity: entropy: '' @ err)
      | Inr b0 \<Rightarrow>
          (let b1 = b0[6 := word_byte ((byte_word (b0 ! 6) AND 0x0f) OR 0x40)];
               b = b1[8 := word_byte ((byte_word (b1 ! 8) AND 0x3f) OR 0x80)]
           in Inr (hex_text (byte_slice 0 4 b) @ ''-'' @ hex_text (byte_slice 4 6 b) @ ''-''
                @ hex_text (byte_slice 6 8 b) @ ''-'' @ hex_text (byte_slice 8 10 b) @ ''-''
                @ hex_text (byte_slice 10 16 b))))"

section \<open>Loading\<close>

definition decode_identity :: "identityFile \<Rightarrow> identity result" where
  "decode_identity f =
     (case DecodeKey (f_BoxPub f) of
        Inl _ \<Rightarrow> Inl ''identity: corrupt public key''
      | Inr pub \<Rightarrow>
          (case DecodeKey (f_BoxPriv f) of
             Inl _ \<Rightarrow> Inl ''identity: corrupt private key''
           | Inr priv \<Rightarrow> Inr \<lparr>AgentID = f_AgentID f, id_Keys = \<lparr>Pub = pub, Priv = priv\<rparr>\<rparr>))"

text \<open>The file a fresh identity is written to; marshalling it has no failure case.\<close>

definition identity_file :: "string \<Rightarrow> keys \<Rightarrow> identityFile" where
  "identity_file i k = \<lparr>f_AgentID = i, f_BoxPub = EncodeKey (Pub k), f_BoxPriv = EncodeKey (Priv k)\<rparr>"

definition file_text :: "identityFile \<Rightarrow> string" where
  "file_text f = json_marshal_indent (JObj (file_members f))"

definition create :: "nacl \<Rightarrow> id_env \<Rightarrow> disk \<Rightarrow> string \<Rightarrow> string \<Rightarrow> disk \<times> identity result" where
  "create cr env d p keepID =
     (case (if keepID = [] then newUUID (uuid_rand env) else Inr keepID) of
        Inl err \<Rightarrow> (d, Inl err)
      | Inr i \<Rightarrow>
          (case GenerateKeys cr (key_rand env) of
             Inl err \<Rightarrow> (d, Inl err)
           | Inr k \<Rightarrow>
               (case os_mkdirall (mkdir_fault env) d of
                  (d1, Some err) \<Rightarrow> (d1, Inl (''identity: create config dir: '' @ err))
                | (d1, None) \<Rightarrow>
                    (case os_write (id_write env) d1 p (file_text (identity_file i k)) of
                       (d2, Some err) \<Rightarrow> (d2, Inl (''identity: write '' @ p @ '': '' @ err))
                     | (d2, None) \<Rightarrow> (d2, Inr \<lparr>AgentID = i, id_Keys = k\<rparr>)))))"

definition corrupt_error :: "string \<Rightarrow> string" where
  "corrupt_error p = ''identity: '' @ p @ '' is corrupt, refusing to overwrite''"

definition Load :: "nacl \<Rightarrow> id_env \<Rightarrow> disk \<Rightarrow> string \<Rightarrow> disk \<times> identity result" where
  "Load cr env d dir =
     (let p = path_join [dir, ''agent.json'']
      in case os_read (read_fault env) d p of
           ReadNotExist \<Rightarrow> create cr env d p []
         | ReadError err \<Rightarrow> (d, Inl (''identity: read '' @ p @ '': '' @ err))
         | ReadData data \<Rightarrow>
             (case unmarshal_into file_fields data empty_file of
                None \<Rightarrow> (d, Inl (corrupt_error p))
              | Some f \<Rightarrow>
                  if f_AgentID f = [] then (d, Inl (corrupt_error p))
                  else if f_BoxPub f = [] \<or> f_BoxPriv f = [] then create cr env d p (f_AgentID f)
                  else (d, decode_identity f)))"

section \<open>The file is read back\<close>

lemma file_fields_lookup:
  "find_field file_fields ''agent_id'' = Some (\<lambda>v f. map_option (\<lambda>x. f\<lparr>f_AgentID := x\<rparr>) (into_string v (f_AgentID f)))"
  "find_field file_fields ''box_pub'' = Some (\<lambda>v f. map_option (\<lambda>x. f\<lparr>f_BoxPub := x\<rparr>) (into_string v (f_BoxPub f)))"
  "find_field file_fields ''box_priv'' = Some (\<lambda>v f. map_option (\<lambda>x. f\<lparr>f_BoxPriv := x\<rparr>) (into_string v (f_BoxPriv f)))"
  by (simp_all add: find_field_def file_fields_def fold_rune_def)

definition valid_file :: "identityFile \<Rightarrow> bool" where
  "valid_file f = list_all valid_utf8 [f_AgentID f, f_BoxPub f, f_BoxPriv f]"

lemma file_members_wf: "valid_file f \<Longrightarrow> list_all wf_member (file_members f)"
  by (simp add: file_members_def valid_file_def list_all_members valid_utf8_ascii_Cons)

definition file_read :: "string \<Rightarrow> identityFile option" where
  "file_read s = unmarshal_into file_fields s empty_file"

interpretation identity_codec: codec valid_file file_text file_read
proof
  fix f :: identityFile assume "valid_file f"
  then show "file_read (file_text f) = Some f"
    by (cases f) (simp add: file_text_def file_read_def unmarshal_flat file_members_wf,
      simp add: file_members_def file_fields_lookup string_member_def empty_file_def)
qed

lemma EncodeKey_valid [simp]: "valid_utf8 (EncodeKey k)"
  unfolding EncodeKey_def by (rule valid_utf8_ascii) (rule ballI, rule std_encode_ascii)

lemma EncodeKey_nonempty: "length k = 32 \<Longrightarrow> EncodeKey k \<noteq> []"
proof
  assume "length k = 32" and "EncodeKey k = []"
  then have "std_decode [] = Some k" using std_decode_encode [of k] by (simp add: EncodeKey_def)
  then have "k = []" by (simp add: std_decode_def b64_decode_def)
  with \<open>length k = 32\<close> show False by simp
qed

lemma decode_identity_file:
  "length (Pub k) = 32 \<Longrightarrow> length (Priv k) = 32 \<Longrightarrow>
     decode_identity (identity_file i k) = Inr \<lparr>AgentID = i, id_Keys = k\<rparr>"
  by (simp add: decode_identity_def identity_file_def)

text \<open>\<open>create\<close> succeeds exactly when every step does, and the file then holds what it returned.\<close>

lemma create_ok:
  assumes "create cr env d p keepID = (d', Inr i)"
  shows "generated cr (id_Keys i) \<and> d' = d(p \<mapsto> file_text (identity_file (AgentID i) (id_Keys i)))
    \<and> (if keepID = [] then newUUID (uuid_rand env) = Inr (AgentID i) else AgentID i = keepID)"
  using assms
  by (auto simp: create_def os_mkdirall_def os_write_def GenerateKeys_generated
      split: if_splits sum.splits prod.splits option.splits write_outcome.splits)

lemma create_error:
  assumes "create cr env d p keepID = (d', Inl err)"
  shows "d' = d \<or> (\<exists>n e bytes. id_write env = WriteShort n e \<and> d' = d(p \<mapsto> take n bytes))"
  using assms
  by (auto simp: create_def os_mkdirall_def os_write_def
      split: if_splits sum.splits prod.splits option.splits write_outcome.splits)

lemma Load_written:
  assumes "nacl_laws cr" and "generated cr k" and "valid_utf8 i" and "i \<noteq> []"
    and "d (path_join [dir, ''agent.json'']) = Some (file_text (identity_file i k))"
    and "read_fault env = None"
  shows "Load cr env d dir = (d, Inr \<lparr>AgentID = i, id_Keys = k\<rparr>)"
proof -
  have len: "length (Pub k) = 32" "length (Priv k) = 32" using assms(1,2) by (auto simp: nacl_laws_def)
  have "valid_file (identity_file i k)" using assms(3) by (simp add: valid_file_def identity_file_def)
  from identity_codec.dec_enc [OF this]
  have "unmarshal_into file_fields (file_text (identity_file i k)) empty_file = Some (identity_file i k)"
    by (simp add: file_read_def)
  with assms(4-6) len show ?thesis
    by (simp add: Load_def Let_def decode_identity_file) (simp add: identity_file_def EncodeKey_nonempty)
qed

section \<open>The shape of an identifier\<close>

text \<open>
  The expression the package test matches an identifier against:
  \<open>^[0-9a-f]{8}-[0-9a-f]{4}-4[0-9a-f]{3}-[89ab][0-9a-f]{3}-[0-9a-f]{12}$\<close>.
\<close>

definition hex_char :: "char \<Rightarrow> bool" where
  "hex_char c = (c \<in> set ''0123456789abcdef'')"

definition uuid_pattern :: "(char \<Rightarrow> bool) list" where
  "uuid_pattern =
     replicate 8 hex_char @ [\<lambda>c. c = CHR ''-''] @ replicate 4 hex_char @ [\<lambda>c. c = CHR ''-'', \<lambda>c. c = CHR ''4'']
     @ replicate 3 hex_char @ [\<lambda>c. c = CHR ''-'', \<lambda>c. c \<in> set ''89ab''] @ replicate 3 hex_char
     @ [\<lambda>c. c = CHR ''-''] @ replicate 12 hex_char"

definition uuid_v4 :: "string \<Rightarrow> bool" where
  "uuid_v4 s = list_all2 (\<lambda>p c. p c) uuid_pattern s"

lemma hex_digit_enum: "n < 16 \<Longrightarrow> hex_digit n = ''0123456789abcdef'' ! n"
proof -
  have "\<forall>n\<in>{0..<16}. hex_digit n = ''0123456789abcdef'' ! n" by code_simp
  then show "n < 16 \<Longrightarrow> ?thesis" by auto
qed

lemma hex_char_digit: "n < 16 \<Longrightarrow> hex_char (hex_digit n)"
  unfolding hex_char_def hex_digit_enum by (rule nth_mem) simp

lemma hex_char_byte: "hex_char (hex_digit (of_char b div 16))" "hex_char (hex_digit (of_char b mod 16))"
  using byte_div_16 [of b] by (auto intro: hex_char_digit)

lemma of_char_word_byte [simp]: "(of_char (word_byte w) :: nat) = unat w"
proof -
  have "unat w < 256" using unsigned_less [of w] by simp
  then show ?thesis by (simp add: word_byte_def)
qed

text \<open>The version and the variant bits, as the digits they end up in.\<close>

lemma unat_masked:
  fixes w :: "8 word"
  shows "unat (w AND 0x0f) = unat w mod 16" and "unat (w AND 0x3f) = unat w mod 64"
proof -
  have "w AND 0x0f = take_bit 4 w" "w AND 0x3f = take_bit 6 w"
    by (simp_all add: take_bit_eq_mask mask_eq_exp_minus_1)
  then show "unat (w AND 0x0f) = unat w mod 16" and "unat (w AND 0x3f) = unat w mod 64"
    by (simp_all only: unsigned_take_bit_eq) (simp_all add: take_bit_eq_mod)
qed

lemma unat_version: "unat ((w AND 0x0f) OR 0x40 :: 8 word) = unat w mod 16 + 64"
proof -
  have "(w AND 0x0f) AND 0x40 = 0" by (simp add: and.assoc)
  then have "(w AND 0x0f) OR 0x40 = (w AND 0x0f) + 0x40" by (rule disjunctive_add_eq_or [symmetric])
  moreover have "unat w mod 16 + 64 < 256" using mod_less_divisor [of 16 "unat w"] by linarith
  ultimately show ?thesis by (simp add: unat_word_ariths unat_masked)
qed

lemma unat_variant: "unat ((w AND 0x3f) OR 0x80 :: 8 word) = unat w mod 64 + 128"
proof -
  have "(w AND 0x3f) AND 0x80 = 0" by (simp add: and.assoc)
  then have "(w AND 0x3f) OR 0x80 = (w AND 0x3f) + 0x80" by (rule disjunctive_add_eq_or [symmetric])
  moreover have "unat w mod 64 + 128 < 256" using mod_less_divisor [of 64 "unat w"] by linarith
  ultimately show ?thesis by (simp add: unat_word_ariths unat_masked)
qed

lemma version_digit: "hex_digit (unat ((w AND 0x0f) OR 0x40 :: 8 word) div 16) = CHR ''4''"
proof -
  have "(unat w mod 16 + 64) div 16 = 4" by (rule div_nat_eqI) simp_all
  then show ?thesis by (simp add: unat_version hex_digit_enum)
qed

lemma variant_digit: "hex_digit (unat ((w AND 0x3f) OR 0x80 :: 8 word) div 16) \<in> set ''89ab''"
proof -
  obtain q r where w: "unat w mod 64 = q * 16 + r" "r < 16" "q < 4"
    using that [of "unat w mod 64 div 16" "unat w mod 64 mod 16"] by (simp add: less_mult_imp_div_less)
  have "(unat w mod 64 + 128) div 16 = q + 8"
    using w(2) unfolding w(1) by (simp add: div_nat_eqI)
  moreover have "q \<in> {0, 1, 2, 3}" using w(3) by auto
  ultimately show ?thesis by (auto simp: unat_variant hex_digit_enum)
qed

lemma uuid_pattern_list:
  "uuid_pattern =
     [hex_char, hex_char, hex_char, hex_char, hex_char, hex_char, hex_char, hex_char, \<lambda>c. c = CHR ''-'',
      hex_char, hex_char, hex_char, hex_char, \<lambda>c. c = CHR ''-'', \<lambda>c. c = CHR ''4'', hex_char, hex_char, hex_char,
      \<lambda>c. c = CHR ''-'', \<lambda>c. c \<in> set ''89ab'', hex_char, hex_char, hex_char, \<lambda>c. c = CHR ''-'',
      hex_char, hex_char, hex_char, hex_char, hex_char, hex_char, hex_char, hex_char, hex_char, hex_char,
      hex_char, hex_char]"
  by (simp add: uuid_pattern_def eval_nat_numeral)

lemma uuid_shape:
  assumes "hex_digit (of_char a6 div 16) = CHR ''4''" and "hex_digit (of_char a8 div 16) \<in> set ''89ab''"
  shows "uuid_v4 (hex_text [a0, a1, a2, a3] @ ''-'' @ hex_text [a4, a5] @ ''-'' @ hex_text [a6, a7] @ ''-''
    @ hex_text [a8, a9] @ ''-'' @ hex_text [a10, a11, a12, a13, a14, a15])"
  using assms by (simp add: uuid_v4_def uuid_pattern_list hex_char_byte del: list.set)

lemma sixteen_bytes: "length b = 16 \<Longrightarrow> \<exists>a0 a1 a2 a3 a4 a5 a6 a7 a8 a9 a10 a11 a12 a13 a14 a15.
    b = [a0, a1, a2, a3, a4, a5, a6, a7, a8, a9, a10, a11, a12, a13, a14, a15]"
  by (simp add: eval_nat_numeral length_Suc_conv) (elim exE conjE, simp)

section \<open>Properties\<close>

text \<open>
  C24. With 16 random bytes the new identifier is a version 4 UUID in the form the package test
  checks, whatever the bytes are.
\<close>

theorem newUUID_v4:
  assumes "length b = 16"
  shows "\<exists>s. newUUID (Inr b) = Inr s \<and> uuid_v4 s"
proof -
  obtain a0 a1 a2 a3 a4 a5 a6 a7 a8 a9 a10 a11 a12 a13 a14 a15
    where b: "b = [a0, a1, a2, a3, a4, a5, a6, a7, a8, a9, a10, a11, a12, a13, a14, a15]"
    using sixteen_bytes [OF assms] by blast
  let ?v = "word_byte ((byte_word a6 AND 0x0f) OR 0x40)" and ?x = "word_byte ((byte_word a8 AND 0x3f) OR 0x80)"
  have "newUUID (Inr b) = Inr (hex_text [a0, a1, a2, a3] @ ''-'' @ hex_text [a4, a5] @ ''-'' @ hex_text [?v, a7]
      @ ''-'' @ hex_text [?x, a9] @ ''-'' @ hex_text [a10, a11, a12, a13, a14, a15])"
    by (simp add: newUUID_def Let_def b byte_slice_def del: hex_text_simps)
  with uuid_shape [of ?v ?x] version_digit variant_digit show ?thesis
    by (metis of_char_word_byte)
qed

theorem newUUID_v4_witness:
  "length (replicate 16 CHR 0x00) = 16 \<and> (\<exists>s. newUUID (Inr (replicate 16 CHR 0x00)) = Inr s \<and> uuid_v4 s)"
  using newUUID_v4 [of "replicate 16 CHR 0x00"] by simp

lemma uuid_text:
  assumes "newUUID rnd = Inr s" shows "valid_utf8 s \<and> s \<noteq> []"
proof -
  have "\<forall>c\<in>set (hex_text b). of_char c < (128 :: nat)" for b
    using hex_text_digits hex_digit_ascii by fastforce
  then have "\<forall>c\<in>set s. of_char c < (128 :: nat)"
    using assms by (auto simp: newUUID_def Let_def split: sum.splits)
  then show ?thesis using assms valid_utf8_ascii by (auto simp: newUUID_def Let_def split: sum.splits)
qed

lemma file_read_valid: "unmarshal_into file_fields data empty_file = Some f \<Longrightarrow> valid_file f"
  by (erule unmarshal_invariant [where P = valid_file])
     (auto simp: valid_file_def empty_file_def file_fields_def dest: into_string_utf8)

text \<open>What a successful \<open>Load\<close> did: it created the file, completed it, or only read it.\<close>

lemma Load_cases:
  assumes "Load cr env d dir = (d', r)"
  defines "p \<equiv> path_join [dir, ''agent.json'']"
  obtains (fresh) "d p = None" "create cr env d p [] = (d', r)"
    | (keyless) data f where "d p = Some data" "unmarshal_into file_fields data empty_file = Some f"
        "f_AgentID f \<noteq> []" "f_BoxPub f = [] \<or> f_BoxPriv f = []" "create cr env d p (f_AgentID f) = (d', r)"
    | (complete) data f where "d p = Some data" "unmarshal_into file_fields data empty_file = Some f"
        "f_AgentID f \<noteq> []" "f_BoxPub f \<noteq> []" "f_BoxPriv f \<noteq> []" "d' = d" "r = decode_identity f"
    | (refused) "d' = d" "\<exists>err. r = Inl err"
proof (cases "read_fault env")
  case (Some e)
  with assms(1) refused show thesis by (auto simp: Load_def Let_def os_read_def)
next
  case None
  note load = assms(1) [unfolded Load_def Let_def os_read_def None option.case, folded p_def]
  show thesis
  proof (cases "d p")
    case None
    with load fresh show thesis by simp
  next
    case (Some data)
    show thesis
    proof (cases "unmarshal_into file_fields data empty_file")
      case None
      with load Some refused show thesis by auto
    next
      case f: (Some f)
      with load Some keyless [OF Some f] complete [OF Some f] refused show thesis
        by (auto split: if_splits)
    qed
  qed
qed

text \<open>What was returned once is returned again, from every disk that has the file as it was left.\<close>

lemma Load_stable:
  assumes "nacl_laws cr" and "Load cr env d dir = (d', Inr i)" and "read_fault env' = None"
    and "d'' (path_join [dir, ''agent.json'']) = d' (path_join [dir, ''agent.json''])"
  shows "Load cr env' d'' dir = (d'', Inr i)"
proof -
  let ?p = "path_join [dir, ''agent.json'']"
  have written: "Load cr env' d'' dir = (d'', Inr i)"
    if "create cr env d ?p keep = (d', Inr i)" "valid_utf8 keep" for keep
    using create_ok [OF that(1)] that(2) uuid_text [of "uuid_rand env" "AgentID i"]
      Load_written [OF assms(1) _ _ _ _ assms(3), of "id_Keys i" "AgentID i" d'' dir] assms(4)
    by (cases i) (auto split: if_splits)
  from assms(2) show ?thesis
  proof (cases rule: Load_cases)
    case fresh
    with written show ?thesis by simp
  next
    case (keyless data f)
    with written file_read_valid [of data f] show ?thesis by (simp add: valid_file_def)
  next
    case (complete data f)
    with assms(3,4) show ?thesis by (simp add: Load_def Let_def os_read_def)
  qed simp
qed

text \<open>
  C11. The identity is stable: once \<open>Load\<close> has returned an identity, whether it created the file,
  added keys to an older one or only read it, every later \<open>Load\<close> that can read the file returns the
  same identifier and the same keys, and writes nothing.
\<close>

theorem identity_stable:
  assumes "nacl_laws cr" and "Load cr env d dir = (d', Inr i)" and "read_fault env' = None"
  shows "Load cr env' d' dir = (d', Inr i)"
  using Load_stable [OF assms] by simp

definition demo_id_env :: id_env where
  "demo_id_env =
     \<lparr>read_fault = None, uuid_rand = Inr (replicate 16 CHR 0x00), key_rand = Inr (replicate 32 CHR 0x05),
      mkdir_fault = None, id_write = WriteOk\<rparr>"

theorem identity_stable_witness:
  "\<exists>d' i. Load toy_nacl demo_id_env Map.empty ''/home/u'' = (d', Inr i)
     \<and> Load toy_nacl demo_id_env d' ''/home/u'' = (d', Inr i)"
proof -
  obtain s where s: "newUUID (Inr (replicate 16 CHR 0x00)) = Inr s" by (simp add: newUUID_def Let_def)
  obtain d' i where l: "Load toy_nacl demo_id_env Map.empty ''/home/u'' = (d', Inr i)"
    by (simp add: Load_def Let_def os_read_def create_def demo_id_env_def s GenerateKeys_def toy_nacl_def os_mkdirall_def)
  from identity_stable [OF toy_nacl_laws l, of demo_id_env] l show ?thesis by (auto simp: demo_id_env_def)
qed

text \<open>
  Whatever \<open>create\<close> wrote is the beginning of the file of one identity; a proper part of it is refused by
  every later \<open>Load\<close>, the whole of it gives that identity.
\<close>

lemma create_written:
  assumes "create cr env d p keepID = (d', r)" and "d' \<noteq> d" and "valid_utf8 keepID"
  obtains i k n where "generated cr k" "valid_utf8 i" "i \<noteq> []" "d' = d(p \<mapsto> take n (file_text (identity_file i k)))"
proof -
  obtain i where i: "(if keepID = [] then newUUID (uuid_rand env) else Inr keepID) = Inr i"
    using assms(1,2) by (auto simp: create_def split: sum.splits)
  then have "valid_utf8 i" "i \<noteq> []" using assms(3) uuid_text by (auto split: if_splits)
  moreover obtain k where k: "GenerateKeys cr (key_rand env) = Inr k"
    using assms(1,2) i by (auto simp: create_def split: sum.splits)
  moreover have "\<exists>n. d' = d(p \<mapsto> take n (file_text (identity_file i k)))"
  proof (cases "id_write env")
    case WriteOk
    with assms(1,2) i k show ?thesis
      by (intro exI [of _ "length (file_text (identity_file i k))"])
         (auto simp: create_def os_mkdirall_def os_write_def split: option.splits)
  qed (use assms(1,2) i k in \<open>auto simp: create_def os_mkdirall_def os_write_def split: option.splits\<close>)
  ultimately show thesis using that GenerateKeys_generated by blast
qed

lemma torn_identity_refused:
  assumes "valid_utf8 i" and "n < length (file_text (identity_file i k))" and "read_fault env = None"
    and "d (path_join [dir, ''agent.json'']) = Some (take n (file_text (identity_file i k)))"
  shows "Load cr env d dir = (d, Inl (corrupt_error (path_join [dir, ''agent.json''])))"
proof -
  let ?f = "identity_file i k"
  have "list_all wf_member (file_members ?f)"
    by (rule file_members_wf) (use assms(1) in \<open>simp add: valid_file_def identity_file_def\<close>)
  then have "wf_json (JObj (file_members ?f))"
    by (fastforce simp: list_all_iff wf_member_def)
  moreover have "depth (JObj (file_members ?f)) \<le> max_nesting"
    by (simp add: file_members_def string_member_def max_nesting_def)
  ultimately have "json_parse (take n (file_text ?f)) = None"
    using json_torn [of "file_members ?f" "Some ''  ''" n] assms(2)
    unfolding file_text_def json_marshal_indent_def by (simp add: blank_indent_def is_space_def del: render.simps)
  with assms(3,4) show ?thesis by (simp add: Load_def Let_def unmarshal_into_def)
qed

lemma Load_after_create:
  assumes "nacl_laws cr" and "create cr env d (path_join [dir, ''agent.json'']) keepID = (d', r)" and "d' \<noteq> d"
    and "valid_utf8 keepID" and "read_fault env' = None"
  shows "(\<exists>i. Load cr env' d' dir = (d', Inr i))
    \<or> Load cr env' d' dir = (d', Inl (corrupt_error (path_join [dir, ''agent.json''])))"
proof -
  obtain i k n where w: "generated cr k" "valid_utf8 i" "i \<noteq> []"
      "d' = d(path_join [dir, ''agent.json''] \<mapsto> take n (file_text (identity_file i k)))"
    by (rule create_written [OF assms(2-4)])
  show ?thesis
  proof (cases "n < length (file_text (identity_file i k))")
    case True
    from torn_identity_refused [OF w(2) this assms(5), of d' dir cr] w(4) show ?thesis by simp
  next
    case False
    with Load_written [OF assms(1) w(1-3) _ assms(5), of d' dir] w(4) show ?thesis by auto
  qed
qed

text \<open>
  C23. \<open>Load\<close> never replaces an identity. A file that cannot be read, one that does not decode, one without an identifier, and one
  with both keys of which one is bad are refused with an error and left as they are; a complete one
  is returned and left as it is. The disk changes only at the path of the file, and only when there
  was no file or a readable one that lacked a key; then a returned identity keeps the identifier of
  that file. After a change, however the write ended, every later \<open>Load\<close> that can read the file writes
  nothing: it returns an identity, the one of the first \<open>Load\<close> if that succeeded, or refuses the torn
  file; no second identity is ever made.
\<close>

theorem identity_not_overwritten:
  assumes "nacl_laws cr" and "Load cr env d dir = (d', r)" and "read_fault env' = None"
  shows "(case os_read (read_fault env) d (path_join [dir, ''agent.json'']) of
         ReadNotExist \<Rightarrow> True
       | ReadError err \<Rightarrow> d' = d \<and> \<not> is_ok r
       | ReadData data \<Rightarrow>
           (case unmarshal_into file_fields data empty_file of
              None \<Rightarrow> d' = d \<and> r = Inl (corrupt_error (path_join [dir, ''agent.json'']))
            | Some f \<Rightarrow>
                if f_AgentID f = [] then d' = d \<and> r = Inl (corrupt_error (path_join [dir, ''agent.json'']))
                else if f_BoxPub f = [] \<or> f_BoxPriv f = [] then (\<forall>i. r = Inr i \<longrightarrow> AgentID i = f_AgentID f)
                else d' = d
                  \<and> (case DecodeKey (f_BoxPub f) of
                       Inl _ \<Rightarrow> r = Inl ''identity: corrupt public key''
                     | Inr pub \<Rightarrow>
                         (case DecodeKey (f_BoxPriv f) of
                            Inl _ \<Rightarrow> r = Inl ''identity: corrupt private key''
                          | Inr priv \<Rightarrow> r = Inr \<lparr>AgentID = f_AgentID f, id_Keys = \<lparr>Pub = pub, Priv = priv\<rparr>\<rparr>))))
    \<and> (\<forall>q. q \<noteq> path_join [dir, ''agent.json''] \<longrightarrow> d' q = d q)
    \<and> (d' = d
       \<or> Load cr env' d' dir = (d', Inl (corrupt_error (path_join [dir, ''agent.json'']))) \<and> \<not> is_ok r
       \<or> (\<exists>i. Load cr env' d' dir = (d', Inr i) \<and> (is_ok r \<longrightarrow> r = Inr i)))"
    (is "?file \<and> ?other \<and> ?later")
proof (intro conjI)
  let ?p = "path_join [dir, ''agent.json'']"
  show ?file
    using assms(2) create_ok [of cr env d ?p _ d']
    by (auto simp: Load_def Let_def decode_identity_def is_ok_iff split: read_result.splits option.splits sum.splits if_splits)
  have other: "d' q = d q" if "create cr env d ?p keep = (d', r)" "q \<noteq> ?p" for keep q
    using that create_ok [of cr env d ?p keep d'] create_error [of cr env d ?p keep d'] by (cases r) auto
  have later: ?later if "create cr env d ?p keep = (d', r)" "valid_utf8 keep" for keep
    using Load_after_create [OF assms(1) that(1) _ that(2) assms(3)]
      Load_stable [OF assms(1) _ assms(3), of env d dir d' _ d'] assms(2)
    by (cases r) auto
  from assms(2) have "?other \<and> ?later"
  proof (cases rule: Load_cases)
    case fresh
    with other later [of "[]"] show ?thesis by simp
  next
    case (keyless data f)
    have "valid_utf8 (f_AgentID f)" using file_read_valid [OF keyless(2)] by (simp add: valid_file_def)
    from later [OF keyless(5) this] other [OF keyless(5)] show ?thesis by blast
  qed auto
  then show ?other and ?later by blast+
qed

lemma keyed_file_read:
  assumes "valid_utf8 i" and "valid_utf8 pub" and "valid_utf8 priv"
  shows "unmarshal_into file_fields (file_text \<lparr>f_AgentID = i, f_BoxPub = pub, f_BoxPriv = priv\<rparr>) empty_file
    = Some \<lparr>f_AgentID = i, f_BoxPub = pub, f_BoxPriv = priv\<rparr>"
  using identity_codec.dec_enc [of "\<lparr>f_AgentID = i, f_BoxPub = pub, f_BoxPriv = priv\<rparr>"] assms
  by (simp add: valid_file_def file_read_def)

theorem identity_not_overwritten_witness:
  "\<exists>d. d ''/home/u/agent.json'' \<noteq> None
     \<and> Load toy_nacl demo_id_env d ''/home/u'' = (d, Inl ''identity: corrupt public key'')"
proof -
  let ?f = "\<lparr>f_AgentID = ''a'', f_BoxPub = ''!'', f_BoxPriv = ''!''\<rparr>"
  let ?d = "[''/home/u/agent.json'' \<mapsto> file_text ?f]"
  have p: "path_join [''/home/u'', ''agent.json''] = ''/home/u/agent.json''"
    by (simp add: path_join_def path_clean_def clean_step_def Let_def)
  have u: "unmarshal_into file_fields (file_text ?f) empty_file = Some ?f"
    by (rule keyed_file_read) (simp_all add: valid_utf8_ascii_Cons)
  have bad: "\<exists>err. DecodeKey ''!'' = Inl err"
    by (simp add: DecodeKey_def std_decode_def b64_decode_def)
  obtain d' r where l: "Load toy_nacl demo_id_env ?d ''/home/u'' = (d', r)" by fastforce
  have "read_fault demo_id_env = None" by (simp add: demo_id_env_def)
  from identity_not_overwritten [OF toy_nacl_laws l this] this bad have "d' = ?d" "r = Inl ''identity: corrupt public key''"
    by (auto simp: p u os_read_def)
  with l show ?thesis by (intro exI [of _ ?d]) simp
qed

end
