(* ===== verification/Cmd.thy ===== *)
theory Cmd
  imports Agent Webui Identity
begin

text \<open>
  The command (\<open>cmd/lockping-agent\<close>): the dispatch of the commands, the start of the agent from its
  configuration directory, and the helper that opens the page. What the operating system answers
  is an argument.
\<close>

section \<open>Small helpers\<close>

definition word :: "bool \<Rightarrow> string" where
  "word locked = (if locked then ''locked'' else ''unlocked'')"

text \<open>\<open>context.Canceled\<close> is the error of a cancelled context, known here by its message.\<close>

definition canceled :: string where
  "canceled = ''context canceled''"

definition ignoreCancel :: "string option \<Rightarrow> string option" where
  "ignoreCancel err = (if err = Some canceled then None else err)"

definition configDir :: "string result \<Rightarrow> string result" where
  "configDir base =
     (case base of
        Inl err \<Rightarrow> Inl (''resolve config dir: '' @ err)
      | Inr b \<Rightarrow> Inr (path_join [b, ''lockping'']))"

section \<open>Commands\<close>

text \<open>
  What the commands act with, on the state \<open>'o\<close> of the operating system: the constructor of the
  session layer, its \<open>Watch\<close> up to the end of the context, and the commands that have a function of
  their own. The lists of strings are what is printed.
\<close>

record 'o commands_env =
  ce_New :: "'o \<Rightarrow> 'o \<times> 'o controller result"
  ce_Watch :: "'o \<Rightarrow> 'o \<times> bool list \<times> string option"
  ce_install :: "'o \<Rightarrow> 'o \<times> string list \<times> string option"
  ce_uninstall :: "'o \<Rightarrow> 'o \<times> string list \<times> string option"
  ce_open :: "'o \<Rightarrow> 'o \<times> string list \<times> string option"
  ce_runRelay :: "'o controller \<Rightarrow> string list \<Rightarrow> 'o \<Rightarrow> 'o \<times> string list \<times> string option"

definition usage :: "string list" where
  "usage =
     [''usage: lockping-agent <command>'',
      [],
      ''commands:'',
      ''  status                print locked/unlocked and exit'',
      ''  lock                  lock the session'',
      ''  watch                 print the state now and on every change (Ctrl-C to stop)'',
      ''  run [-pair] [-tray] [-ui-port N] [-relay <ws-url>]'',
      ''                        connect to the relay and serve paired devices;'',
      ''                        config UI on http://127.0.0.1:41800'',
      ''  open                  open the companion UI (starts the agent if needed)'',
      ''  install | uninstall   Windows: start LockPing with your session (Run key);'',
      ''                        Linux: prints the systemctl equivalent'']"

definition run :: "'o commands_env \<Rightarrow> string \<Rightarrow> string list \<Rightarrow> 'o \<Rightarrow> 'o \<times> string list \<times> string option" where
  "run env cmd args s =
     (if cmd = ''install'' then ce_install env s
      else if cmd = ''uninstall'' then ce_uninstall env s
      else if cmd = ''open'' then ce_open env s
      else case ce_New env s of
             (s1, Inl err) \<Rightarrow> (s1, [], Some err)
           | (s1, Inr ctrl) \<Rightarrow>
               if cmd = ''status'' then
                 (case ctrl_locked ctrl s1 of
                    (s2, Inl err) \<Rightarrow> (s2, [], Some err)
                  | (s2, Inr locked) \<Rightarrow> (s2, [word locked], None))
               else if cmd = ''lock'' then
                 (case ctrl_lock ctrl s1 of (s2, err) \<Rightarrow> (s2, [], err))
               else if cmd = ''watch'' then
                 (case ce_Watch env s1 of (s2, calls, err) \<Rightarrow> (s2, map word calls, ignoreCancel err))
               else if cmd = ''run'' then ce_runRelay env ctrl args s1
               else (s1, usage, Some (''unknown command '' @ go_quote cmd)))"

text \<open>\<open>main\<close>: the arguments include the name of the program; the result ends in the exit code.\<close>

definition main :: "string \<Rightarrow> 'o commands_env \<Rightarrow> string list \<Rightarrow> 'o \<Rightarrow> 'o \<times> string list \<times> nat" where
  "main goos env args s =
     (if length args < 2 then
        (if goos = ''windows'' then
           (case ce_open env s of
              (s1, out, None) \<Rightarrow> (s1, out, 0)
            | (s1, out, Some err) \<Rightarrow> (s1, out @ [''lockping-agent: '' @ err], 1))
         else (s, usage, 2))
      else (case run env (args ! 1) (drop 2 args) s of
              (s1, out, None) \<Rightarrow> (s1, out, 0)
            | (s1, out, Some err) \<Rightarrow> (s1, out @ [''lockping-agent: '' @ err], 1)))"

section \<open>Flags of the run command\<close>

record flags =
  fl_relay :: string
  fl_pair :: bool
  fl_port :: int
  fl_noUI :: bool
  fl_tray :: bool

definition defaultRelayURL :: string where
  "defaultRelayURL = ''wss://relay.lockping.rm-worx.be/ws''"

definition defaultUIPort :: int where
  "defaultUIPort = 41800"

definition default_flags :: "string \<Rightarrow> flags" where
  "default_flags goos =
     \<lparr>fl_relay = defaultRelayURL, fl_pair = False, fl_port = defaultUIPort, fl_noUI = False,
      fl_tray = (goos = ''windows'')\<rparr>"

text \<open>\<open>strconv.ParseBool\<close>, and \<open>strconv.ParseInt\<close> with base 0: prefixes and digit separators.\<close>

definition parse_bool :: "string \<Rightarrow> bool option" where
  "parse_bool s =
     (if s \<in> {''1'', ''t'', ''T'', ''TRUE'', ''true'', ''True''} then Some True
      else if s \<in> {''0'', ''f'', ''F'', ''FALSE'', ''false'', ''False''} then Some False
      else None)"

fun parse_digits :: "nat \<Rightarrow> bool \<Rightarrow> string \<Rightarrow> nat \<Rightarrow> nat option" where
  "parse_digits base prev [] acc = (if prev then Some acc else None)"
| "parse_digits base prev (c # cs) acc =
     (if c = CHR ''_'' then (if prev then parse_digits base False cs acc else None)
      else case hex_val c of
             None \<Rightarrow> None
           | Some d \<Rightarrow> if d < base then parse_digits base True cs (acc * base + d) else None)"

definition parse_uint0 :: "string \<Rightarrow> nat option" where
  "parse_uint0 s =
     (if s \<noteq> [] \<and> hd s = CHR ''0'' then
        (if length s \<ge> 3 \<and> s ! 1 \<in> {CHR ''b'', CHR ''B''} then parse_digits 2 True (drop 2 s) 0
         else if length s \<ge> 3 \<and> s ! 1 \<in> {CHR ''o'', CHR ''O''} then parse_digits 8 True (drop 2 s) 0
         else if length s \<ge> 3 \<and> s ! 1 \<in> {CHR ''x'', CHR ''X''} then parse_digits 16 True (drop 2 s) 0
         else parse_digits 8 True (drop 1 s) 0)
      else parse_digits 10 False s 0)"

definition parse_int0 :: "string \<Rightarrow> int result" where
  "parse_int0 s =
     (let neg = (s \<noteq> [] \<and> hd s = CHR ''-'');
          u = (if s \<noteq> [] \<and> hd s \<in> {CHR ''-'', CHR ''+''} then drop 1 s else s)
      in case parse_uint0 u of
           None \<Rightarrow> Inl ''parse error''
         | Some n \<Rightarrow>
             (let i = (if neg then - int n else int n)
              in if in_int64 i then Inr i else Inl ''value out of range''))"

definition bool_flag :: "string \<Rightarrow> bool \<Rightarrow> flags \<Rightarrow> flags option" where
  "bool_flag name b fl =
     (if name = ''pair'' then Some (fl\<lparr>fl_pair := b\<rparr>)
      else if name = ''no-ui'' then Some (fl\<lparr>fl_noUI := b\<rparr>)
      else if name = ''tray'' then Some (fl\<lparr>fl_tray := b\<rparr>)
      else None)"

definition value_flag :: "string \<Rightarrow> string \<Rightarrow> flags \<Rightarrow> flags result" where
  "value_flag name v fl =
     (if name = ''relay'' then Inr (fl\<lparr>fl_relay := v\<rparr>)
      else case parse_int0 v of
             Inl err \<Rightarrow> Inl (''invalid value '' @ go_quote v @ '' for flag -'' @ name @ '': '' @ err)
           | Inr p \<Rightarrow> Inr (fl\<lparr>fl_port := p\<rparr>))"

text \<open>\<open>FlagSet.Parse\<close> on the five flags; the arguments after the first non-flag are ignored.\<close>

fun parse_flags :: "string list \<Rightarrow> flags \<Rightarrow> flags result" where
  "parse_flags [] fl = Inr fl"
| "parse_flags (s # args) fl =
     (let body = (if has_prefix s ''--'' then drop 2 s else drop 1 s);
          name = takeWhile (\<lambda>c. c \<noteq> CHR ''='') body;
          val = (if CHR ''='' \<in> set body then Some (drop (length name + 1) body) else None)
      in if length s < 2 \<or> hd s \<noteq> CHR ''-'' \<or> s = ''--'' then Inr fl
         else if body = [] \<or> hd body \<in> {CHR ''-'', CHR ''=''} then Inl (''bad flag syntax: '' @ s)
         else if name \<in> {''pair'', ''no-ui'', ''tray''} then
           (let v = (case val of None \<Rightarrow> ''true'' | Some v \<Rightarrow> v)
            in case parse_bool v of
                 None \<Rightarrow> Inl (''invalid boolean value '' @ go_quote v @ '' for -'' @ name @ '': parse error'')
               | Some b \<Rightarrow> parse_flags args (the (bool_flag name b fl)))
         else if name \<in> {''relay'', ''ui-port''} then
           (case (val, args) of
              (Some v, _) \<Rightarrow> (case value_flag name v fl of Inl err \<Rightarrow> Inl err | Inr fl' \<Rightarrow> parse_flags args fl')
            | (None, v # args') \<Rightarrow>
                (case value_flag name v fl of Inl err \<Rightarrow> Inl err | Inr fl' \<Rightarrow> parse_flags args' fl')
            | (None, []) \<Rightarrow> Inl (''flag needs an argument: -'' @ name))
         else if name \<in> {''help'', ''h''} then Inl ''flag: help requested''
         else Inl (''flag provided but not defined: -'' @ name))"

lemma parse_flags_examples:
  "parse_flags [''-pair'', ''--ui-port=0x10'', ''-relay'', ''ws://x''] (default_flags ''linux'')
     = Inr \<lparr>fl_relay = ''ws://x'', fl_pair = True, fl_port = 16, fl_noUI = False, fl_tray = False\<rparr>"
  "parse_flags [''-bogus''] fl = Inl ''flag provided but not defined: -bogus''"
  "parse_flags [''-tray=false'', ''x'', ''-pair''] (default_flags ''windows'')
     = Inr ((default_flags ''windows'')\<lparr>fl_tray := False\<rparr>)"
  by (simp_all add: default_flags_def has_prefix_def value_flag_def parse_int0_def parse_uint0_def hex_val_def
      byte_in_def in_int64_def min_int64_def max_int64_def bool_flag_def parse_bool_def)

section \<open>Starting the agent\<close>

text \<open>What the operating system contributes to the start.\<close>

record start_env =
  se_goos :: string
  se_base :: "string result"
  se_id :: id_env
  se_devices_fault :: "string option"
  se_hostname :: string
  se_pair1 :: gotime
  se_pair2 :: gotime
  se_secret :: "bytes result"
  se_ui_now :: gotime
  se_token :: "bytes result"

record ('s, 'a) started =
  su_flags :: flags
  su_ident :: identity
  su_gw :: "gateway \<times> 's world"
  su_code :: "string option"
  su_ui :: "('s, 'a) server option"

definition version :: string where
  "version = ''dev''"

text \<open>
  \<open>runRelay\<close> up to the connection: the directory is read, then a pairing window is opened and the
  page set up, as the flags ask for. The steps that can fail are in the order of the code.
\<close>

definition open_at_start :: "start_env \<Rightarrow> flags \<Rightarrow> gateway \<times> 's world \<Rightarrow> ((gateway \<times> 's world) \<times> string option) result" where
  "open_at_start env fl gw =
     (if \<not> fl_pair fl then Inr (gw, None)
      else case OpenPairing (se_pair1 env) (se_pair2 env) (se_secret env) gw of
             (_, Inl err) \<Rightarrow> Inl err
           | (gw', Inr code) \<Rightarrow> Inr (gw', Some code))"

definition page_at_start ::
  "start_env \<Rightarrow> flags \<Rightarrow> 's controller \<Rightarrow> 'a manager \<Rightarrow> ('s, 'a) server option result" where
  "page_at_start env fl ctrl auto =
     (if fl_noUI fl then Inr None
      else case newServer ctrl
             \<lparr>op_Machine = se_hostname env, op_Version = version, op_Connected = True,
              op_Autostart = Some auto, op_Stop = True\<rparr> (se_ui_now env) (se_token env) of
             Inl err \<Rightarrow> Inl err
           | Inr ui \<Rightarrow> Inr (Some ui))"

definition startRelay ::
  "nacl \<Rightarrow> start_env \<Rightarrow> 's controller \<Rightarrow> 'a manager \<Rightarrow> string list \<Rightarrow> disk \<Rightarrow> 's
     \<Rightarrow> disk \<times> ('s, 'a) started result" where
  "startRelay cr env ctrl auto args d s =
     (case parse_flags args (default_flags (se_goos env)) of
        Inl err \<Rightarrow> (d, Inl err)
      | Inr fl \<Rightarrow>
          if fl_relay fl = [] then (d, Inl ''run: -relay is required'')
          else case configDir (se_base env) of
                 Inl err \<Rightarrow> (d, Inl err)
               | Inr dir \<Rightarrow>
                   (case Load cr (se_id env) d dir of
                      (d1, Inl err) \<Rightarrow> (d1, Inl err)
                    | (d1, Inr ident) \<Rightarrow>
                        (case LoadDevices (se_devices_fault env) d1 (path_join [dir, ''devices.json'']) of
                           Inl err \<Rightarrow> (d1, Inl err)
                         | Inr devs \<Rightarrow>
                             (let c = newCore (se_hostname env) (se_goos env);
                                  g = newGateway c (id_Keys ident) (AgentID ident) (fl_relay fl) devs;
                                  w = \<lparr>heap = [], dsk = d1, sess = s\<rparr>
                              in case open_at_start env fl (g, w) of
                                   Inl err \<Rightarrow> (d1, Inl err)
                                 | Inr (gw, code) \<Rightarrow>
                                     (case page_at_start env fl ctrl auto of
                                        Inl err \<Rightarrow> (d1, Inl err)
                                      | Inr ui \<Rightarrow>
                                          (d1, Inr \<lparr>su_flags = fl, su_ident = ident, su_gw = gw, su_code = code,
                                                    su_ui = ui\<rparr>))))))"

text \<open>
  The connection: a relay client of the agent's identity over the gateway's handler. \<open>Run\<close> returns
  the error of the cancelled context, which is no error here; a panic ends the process.
\<close>

datatype run_end = StillRunning | Returned "string option" | Panicking string

definition connect ::
  "nacl \<Rightarrow> 's controller \<Rightarrow> (nat \<Rightarrow> inputs) \<Rightarrow> attempt list \<Rightarrow> ('s, 'a) started
     \<Rightarrow> (client \<times> 's agent) \<times> run_end" where
  "connect cr ctrl env attempts su =
     (case Run cr (gw_handler ctrl cr env) attempts
             (OnState (newClient (AgentID (su_ident su)) (id_Keys (su_ident su))), (su_gw su, 0)) of
        (cs, _, _, r) \<Rightarrow>
          (cs, case r of Running \<Rightarrow> StillRunning
               | Stopped \<Rightarrow> Returned (ignoreCancel (Some canceled))
               | Dead e \<Rightarrow> Panicking e))"

text \<open>What the page shows of the connection: the last state reported, down before the first.\<close>

definition connected :: "client \<Rightarrow> bool" where
  "connected cl = (case cl_onState cl of None \<Rightarrow> False | Some calls \<Rightarrow> calls \<noteq> [] \<and> last calls)"

section \<open>Opening the page\<close>

definition page_url :: "int \<Rightarrow> string" where
  "page_url port = ''http://127.0.0.1:'' @ int_string port @ ''/''"

text \<open>\<open>uiAlive\<close>: the status of the answer to \<open>/api/state\<close>, or the error of the request.\<close>

definition uiAlive :: "nat result \<Rightarrow> bool" where
  "uiAlive answer = (case answer of Inl _ \<Rightarrow> False | Inr code \<Rightarrow> code = 200)"

text \<open>The loop with its counter; \<open>answers k\<close> is what the \<open>k\<close>th request gets. It returns the number of pauses.\<close>

function poll_page :: "(nat \<Rightarrow> nat result) \<Rightarrow> nat \<Rightarrow> nat \<Rightarrow> bool \<times> nat" where
  "poll_page answers i pauses =
     (if i < 20 then
        (if uiAlive (answers (i + 1)) then (True, pauses) else poll_page answers (i + 1) (pauses + 1))
      else (False, pauses))"
  by pat_completeness auto
termination by (relation "measure (\<lambda>(answers, i, pauses). 20 - i)") auto

declare poll_page.simps [simp del]

text \<open>The result: the URLs opened in the browser, the pauses of 300 ms, and the error.\<close>

definition openCompanion ::
  "int \<Rightarrow> (nat \<Rightarrow> nat result) \<Rightarrow> string option \<Rightarrow> string list \<times> nat \<times> string option" where
  "openCompanion port answers start_err =
     (if uiAlive (answers 0) then ([page_url port], 0, None)
      else case start_err of
             Some err \<Rightarrow> ([], 0, Some (''agent starten: '' @ err))
           | None \<Rightarrow>
               (case poll_page answers 0 0 of
                  (True, pauses) \<Rightarrow> ([page_url port], pauses, None)
                | (False, pauses) \<Rightarrow>
                    ([], pauses, Some (''agent gestart, maar de UI antwoordt niet op '' @ page_url port))))"

text \<open>
  \<open>startAgent\<close>: the commands run, in order, each with the attributes of its process. The arguments are
  whether starting the systemd unit worked, the result of \<open>os.Executable\<close>, and the error of starting
  the process.
\<close>

record sysProcAttr =
  HideWindow :: bool
  CreationFlags :: "32 word"

definition createNoWindow :: "32 word" where
  "createNoWindow = 0x08000000"

definition windows_detachAttr :: "sysProcAttr option" where
  "windows_detachAttr = Some \<lparr>HideWindow = True, CreationFlags = createNoWindow\<rparr>"

definition other_detachAttr :: "sysProcAttr option" where
  "other_detachAttr = None"

definition startAgent ::
  "string \<Rightarrow> bool \<Rightarrow> string result \<Rightarrow> string option \<Rightarrow> (string list \<times> sysProcAttr option) list \<times> string option" where
  "startAgent goos unit_started executable spawn_err =
     (let unit_cmd = ([''systemctl'', ''--user'', ''start'', ''lockping-agent''], None) in
      if goos = ''linux'' \<and> unit_started then ([unit_cmd], None)
      else (let before = (if goos = ''linux'' then [unit_cmd] else [])
            in case executable of
                 Inl err \<Rightarrow> (before, Some err)
               | Inr exe \<Rightarrow>
                   (before @ [([exe, ''run''], if goos = ''windows'' then windows_detachAttr else other_detachAttr)],
                    spawn_err)))"

definition browser_command :: "string \<Rightarrow> string \<Rightarrow> string list" where
  "browser_command goos url =
     (if goos = ''windows'' then [''rundll32'', ''url.dll,FileProtocolHandler'', url] else [''xdg-open'', url])"

text \<open>\<open>install\<close> and \<open>uninstall\<close>: on Windows through the autostart manager, elsewhere a hint.\<close>

definition windows_install :: "'a manager \<Rightarrow> 'a \<Rightarrow> 'a \<times> string list \<times> string option" where
  "windows_install m a =
     (case am_enable m a of
        (a', Some err) \<Rightarrow> (a', [], Some err)
      | (a', None) \<Rightarrow>
          (a', [''LockPing start voortaan mee met Windows (tray-icoon bij de klok).'',
                ''Nu meteen starten: lockping-agent run''], None))"

definition windows_uninstall :: "'a manager \<Rightarrow> 'a \<Rightarrow> 'a \<times> string list \<times> string option" where
  "windows_uninstall m a =
     (case am_disable m a of
        (a', Some err) \<Rightarrow> (a', [], Some err)
      | (a', None) \<Rightarrow> (a', [''Autostart verwijderd.''], None))"

definition other_install :: "'a \<Rightarrow> 'a \<times> string list \<times> string option" where
  "other_install a = (a, [''Op Linux: systemctl --user enable --now lockping-agent''], None)"

definition other_uninstall :: "'a \<Rightarrow> 'a \<times> string list \<times> string option" where
  "other_uninstall a = (a, [''Op Linux: systemctl --user disable --now lockping-agent''], None)"

text \<open>
  The \<open>init\<close> function of the Windows binary: where the output goes, given whether there is a console to
  attach to and the result of opening it.
\<close>

record outputs =
  out_stdout :: string
  out_stderr :: string
  out_log :: string

definition console_init :: "bool \<Rightarrow> string result \<Rightarrow> outputs \<Rightarrow> outputs" where
  "console_init attached opened o1 =
     (if \<not> attached then o1
      else case opened of
             Inl _ \<Rightarrow> o1
           | Inr out \<Rightarrow> \<lparr>out_stdout = out, out_stderr = out, out_log = out\<rparr>)"

end
