(* ===== verification/Restart.thy ===== *)
theory Restart
  imports Cmd
begin

text \<open>
  The agent across a restart: what the gateway changes while it runs, followed down to the two
  files of the configuration directory, and what the next start reads from them.
\<close>

section \<open>The two files\<close>

lemma split_on_nonempty [simp]: "split_on c p \<noteq> []"
  by (induction p) (auto split: list.splits)

lemma split_on_append:
  "split_on c (p @ c # name) = split_on c p @ split_on c name"
proof (induction p)
  case (Cons x p)
  then show ?case by (cases "split_on c p") simp_all
qed simp

lemma split_on_plain: "c \<notin> set name \<Longrightarrow> split_on c name = [name]"
  by (induction name) auto

lemma join_last: "\<exists>pre. join sep (xs @ [x]) = pre @ x"
proof (induction sep xs rule: join.induct)
  case (3 sep x1 x2 xs)
  then obtain pre where "join sep ((x2 # xs) @ [x]) = pre @ x" by blast
  then have "join sep ((x1 # x2 # xs) @ [x]) = (x1 @ sep @ pre) @ x" by simp
  then show ?case by blast
qed (auto intro: exI [of _ "[]"])

lemma path_clean_last:
  assumes "CHR ''/'' \<notin> set name" and "name \<notin> {[], ''.'', ''..''}"
  shows "\<exists>pre. path_clean (p @ CHR ''/'' # name) = pre @ name"
proof -
  let ?q = "p @ CHR ''/'' # name"
  let ?r = "hd ?q = CHR ''/''"
  obtain st where st: "foldl (clean_step ?r) [] (split_on CHR ''/'' p) = st" by blast
  have "foldl (clean_step ?r) [] (split_on CHR ''/'' ?q) = name # st"
    using assms st by (simp add: split_on_append split_on_plain) (simp add: clean_step_def)
  moreover obtain pre where "join ''/'' (rev st @ [name]) = pre @ name" using join_last by blast
  ultimately have body: "join ''/'' (rev (foldl (clean_step ?r) [] (split_on CHR ''/'' ?q))) = pre @ name"
    by (simp only: rev.simps)
  have "(?q \<noteq> [] \<and> ?r) = ?r" by simp
  with body have "path_clean ?q = (if ?r then CHR ''/'' # pre @ name else if pre @ name = [] then ''.'' else pre @ name)"
    by (simp only: path_clean_def Let_def)
  with assms(2) have "path_clean ?q = (if ?r then CHR ''/'' # pre else pre) @ name" by simp
  then show ?thesis by blast
qed

lemma config_files_differ: "path_join [dir, ''agent.json''] \<noteq> path_join [dir, ''devices.json'']"
proof -
  have "\<exists>pre. path_join [dir, name] = pre @ name"
    if "CHR ''/'' \<notin> set name" "name \<notin> {[], ''.'', ''..''}" for name
  proof (cases "dir = []")
    case False
    with path_clean_last [OF that, of dir] that show ?thesis by (simp add: path_join_def)
  next
    case True
    have "path_clean name = name"
      using that by (cases name) (auto simp: path_clean_def split_on_plain clean_step_def Let_def)
    with True that show ?thesis by (simp add: path_join_def)
  qed
  from this [of "''agent.json''"] this [of "''devices.json''"] obtain p q where
    "path_join [dir, ''agent.json''] = p @ ''agent.json''" "path_join [dir, ''devices.json''] = q @ ''devices.json''"
    by auto
  moreover have "p @ ''agent.json'' \<noteq> q @ ''devices.json''"
  proof
    assume "p @ ''agent.json'' = q @ ''devices.json''"
    then have "rev (p @ ''agent.json'') = rev (q @ ''devices.json'')" by simp
    then show False by simp
  qed
  ultimately show ?thesis by simp
qed

section \<open>What a start leaves behind\<close>

lemma OpenPairing_opens:
  "OpenPairing t1 t2 rnd (g, w) = ((g', w'), Inr code) \<Longrightarrow> \<exists>a. g_window g' = Some a \<and> a < length (heap w')"
  by (auto simp: OpenPairing_def Let_def split: sum.splits prod.splits)

lemma open_at_start_frame:
  assumes "open_at_start env fl gw = Inr (gw', code)"
  shows "g_devices (fst gw') = g_devices (fst gw) \<and> g_keys (fst gw') = g_keys (fst gw)
    \<and> g_agentID (fst gw') = g_agentID (fst gw) \<and> dsk (snd gw') = dsk (snd gw)
    \<and> (g_window (fst gw') = g_window (fst gw) \<and> heap (snd gw') = heap (snd gw)
       \<or> (\<exists>a. g_window (fst gw') = Some a \<and> a < length (heap (snd gw'))))"
proof -
  obtain g w g' w' where gw: "gw = (g, w)" "gw' = (g', w')" by (cases gw; cases gw') auto
  show ?thesis
  proof (cases "fl_pair fl")
    case True
    with assms gw obtain c where "OpenPairing (se_pair1 env) (se_pair2 env) (se_secret env) (g, w) = ((g', w'), Inr c)"
      by (auto simp: open_at_start_def split: prod.splits sum.splits)
    from OpenPairing_frame [OF this] OpenPairing_opens [OF this] show ?thesis by (simp add: gw)
  qed (use assms in \<open>simp add: open_at_start_def\<close>)
qed

lemma startRelay_ok:
  assumes "startRelay cr env ctrl auto args d s = (d1, Inr su)"
  obtains dir devs where "configDir (se_base env) = Inr dir" "Load cr (se_id env) d dir = (d1, Inr (su_ident su))"
    "LoadDevices (se_devices_fault env) d1 (path_join [dir, ''devices.json'']) = Inr devs"
    "g_devices (fst (su_gw su)) = devs" "dsk (snd (su_gw su)) = d1"
    "g_keys (fst (su_gw su)) = id_Keys (su_ident su)" "g_agentID (fst (su_gw su)) = AgentID (su_ident su)"
    "\<forall>a. g_window (fst (su_gw su)) = Some a \<longrightarrow> a < length (heap (snd (su_gw su)))"
proof -
  obtain fl where fl: "parse_flags args (default_flags (se_goos env)) = Inr fl" "fl_relay fl \<noteq> []"
    using assms by (auto simp: startRelay_def split: sum.splits if_splits)
  obtain dir where dir: "configDir (se_base env) = Inr dir"
    using assms fl by (auto simp: startRelay_def split: sum.splits)
  obtain d' ident where id: "Load cr (se_id env) d dir = (d', Inr ident)"
    using assms fl dir by (auto simp: startRelay_def split: sum.splits prod.splits)
  obtain devs where devs: "LoadDevices (se_devices_fault env) d' (path_join [dir, ''devices.json'']) = Inr devs"
    using assms fl dir id by (auto simp: startRelay_def split: sum.splits)
  let ?g = "newGateway (newCore (se_hostname env) (se_goos env)) (id_Keys ident) (AgentID ident) (fl_relay fl) devs"
  let ?w = "\<lparr>heap = [], dsk = d', sess = s\<rparr>"
  obtain gw code where op: "open_at_start env fl (?g, ?w) = Inr (gw, code)"
    and su: "d1 = d'" "su_ident su = ident" "su_gw su = gw"
    using assms fl dir id devs by (auto simp: startRelay_def Let_def split: sum.splits prod.splits)
  show thesis
    using open_at_start_frame [OF op] su dir id devs
    by (intro that [of dir devs]) (auto simp: newGateway_def)
qed

lemma startRelay_succeeds:
  assumes "parse_flags args (default_flags (se_goos env)) = Inr fl" and "fl_relay fl \<noteq> []"
    and "configDir (se_base env) = Inr dir" and "Load cr (se_id env) d dir = (d1, Inr ident)"
    and "LoadDevices (se_devices_fault env) d1 (path_join [dir, ''devices.json'']) = Inr devs"
    and "is_ok (se_secret env)" and "is_ok (se_token env)"
  shows "\<exists>su. startRelay cr env ctrl auto args d s = (d1, Inr su)"
proof -
  let ?gw = "(newGateway (newCore (se_hostname env) (se_goos env)) (id_Keys ident) (AgentID ident) (fl_relay fl) devs,
    \<lparr>heap = [], dsk = d1, sess = s\<rparr>)"
  obtain gw code where op: "open_at_start env fl ?gw = Inr (gw, code)"
    using assms(6) by (cases "fl_pair fl") (auto simp: open_at_start_def OpenPairing_def NewWindow_def is_ok_iff Let_def)
  obtain ui where "page_at_start env fl ctrl auto = Inr ui"
    using assms(7) by (cases "fl_noUI fl") (auto simp: page_at_start_def newServer_def is_ok_iff)
  with op assms(1-5) show ?thesis by (simp add: startRelay_def Let_def)
qed

section \<open>What the gateway does to the files while it runs\<close>

text \<open>What is decoded from a relay frame holds valid texts only.\<close>

lemma wire_decode_valid:
  assumes "wire_decode s = Inr p" shows "valid_payload p"
proof -
  from assms have "unmarshal_into payload_fields s empty_payload = Some p"
    by (simp add: wire_decode_def split: option.splits)
  then show ?thesis
    by (rule unmarshal_invariant [where P = valid_payload])
       (auto simp: valid_payload_def empty_payload_def payload_fields_def dest: into_string_utf8)
qed

text \<open>
  A run of the agent whose page is served by \<open>srv\<close>: requests to the page, the second parts of the
  gateway's handlers, and whatever the session does by itself. A pair request that was decoded
  earlier may finish later, with the window it took then, so page and relay interleave as they do
  in \<open>GatewayRun\<close>. Only pair requests of senders in \<open>ok\<close> finish, which for most theorems is everybody.
  The sender of a payload comes from a decoded frame; a local zone is a whole number of minutes.
\<close>

inductive agent_run ::
  "(string \<Rightarrow> bool) \<Rightarrow> 's controller \<Rightarrow> nacl \<Rightarrow> assets \<Rightarrow> ('s, 'a) server
     \<Rightarrow> gateway \<times> 's world \<Rightarrow> gateway \<times> 's world \<Rightarrow> bool"
  for ok ctrl cr as srv gw0 where
  begin_run: "agent_run ok ctrl cr as srv gw0 gw0"
| run_page: "agent_run ok ctrl cr as srv gw0 (rn_gw rn) \<Longrightarrow> Handler as srv env rq rn = (rn', rs) \<Longrightarrow>
    agent_run ok ctrl cr as srv gw0 (rn_gw rn')"
| run_sealed: "agent_run ok ctrl cr as srv gw0 gw \<Longrightarrow> sealedFinish ctrl cr i gw payload peer = (gw', out) \<Longrightarrow>
    agent_run ok ctrl cr as srv gw0 gw'"
| run_pair: "agent_run ok ctrl cr as srv gw0 gw \<Longrightarrow> wire_decode payload = Inr inp \<Longrightarrow>
    pairFinish i gw sender inp addr = (gw', out) \<Longrightarrow> ok sender \<Longrightarrow> valid_utf8 sender \<Longrightarrow>
    60 dvd snd (paired_now i) \<Longrightarrow> agent_run ok ctrl cr as srv gw0 gw'"
| run_session: "agent_run ok ctrl cr as srv gw0 (g, w) \<Longrightarrow> agent_run ok ctrl cr as srv gw0 (g, w\<lparr>sess := s\<rparr>)"

text \<open>What holds of the allowlist and the files along a run that started with the files \<open>d\<close>.\<close>

definition files_inv :: "string \<Rightarrow> disk \<Rightarrow> gateway \<times> 's world \<Rightarrow> bool" where
  "files_inv p d gw =
     (wf_store (g_devices (fst gw)) \<and> list_all storable (entries (g_devices (fst gw)))
      \<and> path (g_devices (fst gw)) = p \<and> (\<forall>q. q \<noteq> p \<longrightarrow> dsk (snd gw) q = d q))"

lemma path_dev [simp]: "path (dev_put now s i p n) = path s" "path (dev_del s i) = path s"
  by (simp_all add: dev_put_def dev_del_def)

lemma storable_entries_put:
  "list_all storable (entries s) \<Longrightarrow> valid_utf8 i \<Longrightarrow> valid_utf8 p \<Longrightarrow> valid_utf8 n \<Longrightarrow> 60 dvd snd now \<Longrightarrow>
     list_all storable (entries (dev_put now s i p n))"
  by simp (intro storable_update, simp_all add: storable_def empty_device_def)

lemma Add_other_files: "q \<noteq> path s \<Longrightarrow> fst (fst (Add now w d s i p n)) q = d q"
  using persistLocked_other [of q "dev_put now s i p n" w d] Add_disk [of p s now w d i n]
  by (cases "is_ok (DecodeKey p) \<and> devices s \<noteq> None") (auto simp: Add_def split: sum.splits option.splits)

lemma Remove_other_files: "q \<noteq> path s \<Longrightarrow> fst (fst (Remove w d s i)) q = d q"
  using persistLocked_other [of q "dev_del s i" w d] Remove_disk [of s i w d]
  by (cases "map_of (entries s) i = None") (auto simp: Remove_def)

lemma pairFinish_disk:
  assumes "pairFinish i (g, w) sender inp addr = ((g', w'), r)" and "q \<noteq> path (g_devices g)"
  shows "dsk w' q = dsk w q"
proof -
  have "dsk w' = dsk w \<or> dsk w' = fst (fst (Add (paired_now i) (wr i) (dsk w) (g_devices g) sender (PubKey inp)
      (sanitizeName (Machine inp))))"
    using assms(1) by (auto simp: pairFinish_def Let_def split: if_splits prod.splits outcome.splits)
  then show ?thesis using Add_other_files [OF assms(2)] by metis
qed

lemma files_inv_pair:
  assumes "files_inv p d (g, w)" and "pairFinish i (g, w) sender inp addr = ((g', w'), r)"
    and "valid_payload inp" and "valid_utf8 sender" and "60 dvd snd (paired_now i)"
  shows "files_inv p d (g', w')"
proof -
  have ut: "valid_utf8 (PubKey inp)" "valid_utf8 (sanitizeName (Machine inp))"
    using assms(3) by (simp_all add: valid_payload_def valid_utf8_sanitizeName)
  have "path (g_devices g) = p" using assms(1) by (simp add: files_inv_def)
  with pairFinish_disk [OF assms(2)] pairFinish_devices [OF assms(2)] assms(1) show ?thesis
    by (auto simp: files_inv_def wf_dev_put assms(4,5) ut simp del: entries_dev_put intro!: storable_entries_put)
qed

lemma files_inv_unpair:
  assumes "files_inv p d (g, w)" and "Gateway.unpair wo (g, w) dev = ((g', w'), e)"
  shows "files_inv p d (g', w')"
proof -
  have eq: "g_devices g' = snd (fst (Remove wo (dsk w) (g_devices g) dev))"
      "dsk w' = fst (fst (Remove wo (dsk w) (g_devices g) dev))"
    using assms(2) by (auto simp: Gateway.unpair_def split: prod.splits)
  have "list_all storable (AList.delete dev m)" if "list_all storable m" for m
    using that by (auto simp: list_all_iff AList.delete_eq)
  moreover have "dsk w' q = dsk w q" if "q \<noteq> p" for q
    using assms(1) that Remove_other_files [of q "g_devices g"] by (simp add: eq files_inv_def)
  ultimately show ?thesis
    using assms(1) by (auto simp: files_inv_def eq Remove_store wf_dev_del)
qed

lemma files_inv_same:
  "files_inv p d gw \<Longrightarrow> g_devices (fst gw') = g_devices (fst gw) \<Longrightarrow> dsk (snd gw') = dsk (snd gw) \<Longrightarrow> files_inv p d gw'"
  by (simp add: files_inv_def)

lemma files_inv_sealed:
  assumes "files_inv p d gw" and "sealedFinish ctrl cr i gw payload peer = (gw', r)"
  shows "files_inv p d gw'"
proof -
  have "sealedFinish ctrl cr i (fst gw, snd gw) payload peer = ((fst gw', snd gw'), r)" using assms(2) by simp
  note f = sealedFinish_frame [OF this]
  have "g_devices (fst gw') = g_devices (fst gw)" "dsk (snd gw') = dsk (snd gw)"
    using arg_cong [OF f(1), of g_devices] arg_cong [OF f(2), of dsk] by simp_all
  with assms(1) show ?thesis by (rule files_inv_same)
qed

lemma files_inv_Handle:
  assumes "files_inv p d gw" and "Handle ctrl cr i gw sender payload = (gw', r)"
    and "valid_utf8 sender" and "60 dvd snd (paired_now i)"
  shows "files_inv p d gw'"
proof (cases "IsSealed payload")
  case True
  with assms(1,2) files_inv_sealed [OF assms(1)] show ?thesis
    by (auto simp: Handle_def handleSealed_def split: prod.splits option.splits)
next
  case False
  have pair: "files_inv p d gw'" if "wire_decode payload = Inr inp" "pairFinish i gw sender inp addr = (gw', r)" for inp addr
    using files_inv_pair [of p d "fst gw" "snd gw" i sender inp addr "fst gw'" "snd gw'" r]
      wire_decode_valid [OF that(1)] that(2) assms(1,3,4) by simp
  from False assms(1,2) show ?thesis
    by (auto simp: Handle_def handlePairRequest_def pairStart_def split: option.splits sum.splits if_splits
        intro: pair)
qed

text \<open>What a request to the page can do to the allowlist and the files: one removal, or nothing.\<close>

lemma page_step:
  assumes "Handler as srv env rq rn = (rn', rs)"
  obtains (same) "g_devices (fst (rn_gw rn')) = g_devices (fst (rn_gw rn))" "dsk (snd (rn_gw rn')) = dsk (snd (rn_gw rn))"
    | (removal) wo dev e where "Gateway.unpair wo (rn_gw rn) dev = (rn_gw rn', e)"
  using assms
proof (cases rule: Handler_cases)
  case refused
  with same show thesis by simp
next
  case (routed rt)
  have quiet: thesis if "settings rn' = settings rn"
    using that by (intro same) (simp_all add: settings_def)
  have pair: "pair env rn = (rn', rs) \<Longrightarrow> thesis"
    using OpenPairing_frame [of _ _ _ "fst (rn_gw rn)" "snd (rn_gw rn)"]
    by (intro same) (auto simp: pair_def split: prod.splits sum.splits)
  have unpair: "unpair env b rn = (rn', rs) \<Longrightarrow> thesis" for b
    using same removal by (auto simp: unpair_def split: prod.splits option.splits if_splits)
  have stop: "stop srv rn = (rn', rs) \<Longrightarrow> thesis"
    by (intro same) (auto simp: stop_def split: if_splits)
  have "rn' = rn \<or> (rt = RState \<and> state srv env rn = (rn', rs)) \<or> pair env rn = (rn', rs) \<or> unpair env (rq_body rq) rn = (rn', rs)
      \<or> stop srv rn = (rn', rs) \<or> autostart srv (rq_body rq) rn = (rn', rs)"
    using routed(3) by (cases rt) (auto simp: handle_route_def guarded_def split: if_splits)
  then show thesis
    using same pair unpair stop quiet autostart_settings [of srv "rq_body rq" rn rn' rs] state_settings [of srv env rn]
    by auto
qed

lemma files_inv_page:
  assumes "files_inv p d (rn_gw rn)" and "Handler as srv env rq rn = (rn', rs)"
  shows "files_inv p d (rn_gw rn')"
  using assms(2)
proof (cases rule: page_step)
  case same
  with assms(1) show ?thesis by (rule files_inv_same)
next
  case (removal wo dev e)
  then show ?thesis
    using files_inv_unpair [of p d "fst (rn_gw rn)" "snd (rn_gw rn)" wo dev "fst (rn_gw rn')" "snd (rn_gw rn')" e] assms(1)
    by simp
qed

lemma agent_run_files: "agent_run ok ctrl cr as srv gw0 gw \<Longrightarrow> files_inv p d gw0 \<Longrightarrow> files_inv p d gw"
proof (induction rule: agent_run.induct)
  case (run_pair gw payload inp i sender addr gw' out)
  then show ?case
    using files_inv_pair [of p d "fst gw" "snd gw" i sender inp addr "fst gw'" "snd gw'" out] wire_decode_valid
    by simp
next
  case (run_session g w s)
  then show ?case by (auto elim: files_inv_same)
qed (auto intro: files_inv_page files_inv_sealed)

text \<open>A whole handler is a run.\<close>

lemma run_handle:
  assumes "agent_run ok ctrl cr as srv gw0 gw" and "Handle ctrl cr i gw sender payload = (gw', out)"
    and "ok sender" and "valid_utf8 sender" and "60 dvd snd (paired_now i)"
  shows "agent_run ok ctrl cr as srv gw0 gw'"
  using assms(1,2) run_sealed [OF assms(1)] run_pair [OF assms(1) _ _ assms(3-5)]
  by (auto simp: Handle_def handleSealed_def handlePairRequest_def pairStart_def
      split: if_splits prod.splits option.splits sum.splits)

text \<open>
  A device file that holds \<open>null\<close> is accepted by the start, but it leaves a nil map behind, and the first
  pair request that verifies makes the agent panic.
\<close>

lemma null_file_panics:
  assumes "d p = Some ''null''" and "g_window g = Some a"
    and "VerifyRequest (Some (heap w ! a)) (now1 i) sender (PubKey inp) (MAC inp)" and "is_ok (DecodeKey (PubKey inp))"
  shows "\<exists>s. LoadDevices None d p = Inr s
    \<and> snd (pairFinish i (g\<lparr>g_devices := s\<rparr>, w) sender inp (Some a)) = Panic ''assignment to entry in nil map''"
proof -
  have "json_parse (json_marshal JNull) = Some JNull" by (rule json_parse_marshal) simp_all
  then have "LoadDevices None d p = Inr \<lparr>path = p, devices = None\<rparr>"
    using assms(1) by (simp add: LoadDevices_def json_marshal_def)
  moreover have "snd (pairFinish i (g\<lparr>g_devices := \<lparr>path = p, devices = None\<rparr>\<rparr>, w) sender inp (Some a))
      = Panic ''assignment to entry in nil map''"
    using assms(3,4) by (auto simp: pairFinish_def Add_def is_ok_iff)
  ultimately show ?thesis by blast
qed

section \<open>Properties\<close>

text \<open>The next start reads the identity and the allowlist as the last answered pairing left them.\<close>

lemma start_files_inv:
  assumes "startRelay cr env ctrl auto args d s = (d1, Inr su)" and "configDir (se_base env) = Inr dir"
  shows "files_inv (path_join [dir, ''devices.json'']) d1 (su_gw su)"
  using assms LoadDevices_storable wf_LoadDevices
  by (elim startRelay_ok) (auto simp: files_inv_def)

lemma pairing_answered:
  assumes "\<not> IsSealed payload" and "Handle ctrl cr i (g, w) sender payload = ((g', w'), Ret (Some enc))"
  shows "\<exists>inp. valid_payload inp \<and> is_ok (DecodeKey (PubKey inp)) \<and> Add (paired_now i) (wr i) (dsk w) (g_devices g) sender (PubKey inp)
    (sanitizeName (Machine inp)) = ((dsk w', g_devices g'), Ret ())"
proof -
  obtain inp where inp: "wire_decode payload = Inr inp"
      "pairFinish i (g, w) sender inp (g_window g) = ((g', w'), Ret (Some enc))"
    using assms by (auto simp: Handle_def handlePairRequest_def pairStart_def split: option.splits sum.splits if_splits)
  from pairFinish_reply [OF inp(2)] obtain a where
    "VerifyRequest (Some (heap w ! a)) (now1 i) sender (PubKey inp) (MAC inp)" "g_window g = Some a"
    "is_ok (DecodeKey (PubKey inp))" by blast
  with inp(2) have "Add (paired_now i) (wr i) (dsk w) (g_devices g) sender (PubKey inp)
    (sanitizeName (Machine inp)) = ((dsk w', g_devices g'), Ret ())"
    by (auto simp: pairFinish_def Let_def split: prod.splits outcome.splits)
  with wire_decode_valid [OF inp(1)] \<open>is_ok (DecodeKey (PubKey inp))\<close> show ?thesis by blast
qed

text \<open>
  C7. A pairing survives a restart. Take a start of the agent, any run of it (requests to the page
  and payloads from the relay, interleaved), and a pair request it answered. A new start
  that can read the two files then leaves them as they are and runs with the same identity, and
  its allowlist answers every lookup as the old one did; the new device is in it.
\<close>

theorem pairing_survives_restart:
  assumes "nacl_laws cr" and "startRelay cr env ctrl auto args d s = (d1, Inr su)"
    and "agent_run ok ctrl cr as srv (su_gw su) (g, w)"
    and "\<not> IsSealed payload" and "valid_utf8 sender" and "60 dvd snd (paired_now i)"
    and "Handle ctrl cr i (g, w) sender payload = ((g', w'), Ret (Some enc))"
    and "parse_flags args' (default_flags (se_goos env')) = Inr fl" and "fl_relay fl \<noteq> []"
    and "se_base env' = se_base env" and "read_fault (se_id env') = None" and "se_devices_fault env' = None"
    and "is_ok (se_secret env')" and "is_ok (se_token env')"
  shows "\<exists>su'. startRelay cr env' ctrl auto' args' (dsk w') s' = (dsk w', Inr su') \<and> su_ident su' = su_ident su
    \<and> Get (g_devices (fst (su_gw su'))) = Get (g_devices g') \<and> Get (g_devices g') sender \<noteq> None"
proof -
  obtain dir where dir: "configDir (se_base env) = Inr dir" "Load cr (se_id env) d dir = (d1, Inr (su_ident su))"
    using assms(2) by (elim startRelay_ok)
  let ?p = "path_join [dir, ''devices.json'']"
  from agent_run_files [OF assms(3) start_files_inv [OF assms(2) dir(1)]]
  have inv: "files_inv ?p d1 (g, w)" .
  from pairing_answered [OF assms(4,7)] obtain inp where inp: "valid_payload inp" "is_ok (DecodeKey (PubKey inp))"
    and add: "Add (paired_now i) (wr i) (dsk w) (g_devices g) sender (PubKey inp) (sanitizeName (Machine inp))
      = ((dsk w', g_devices g'), Ret ())" by blast
  note a = Add_persisted [OF add]
  have st: "storable_store (g_devices g)" and path: "path (g_devices g) = ?p"
    using inv a(1) by (simp_all add: files_inv_def storable_store_def)
  have "storable_store (g_devices g')"
    using inp(1) by (simp add: a(2) storable_put [OF st assms(5)] valid_payload_def valid_utf8_sanitizeName assms(6))
  from reload_after_write [OF this, of "wr i" "dsk w" "dsk w'"] obtain s2 where
    s2: "LoadDevices (se_devices_fault env') (dsk w') ?p = Inr s2" "Get s2 = Get (g_devices g')"
    using a(3) path by (auto simp: a(2) assms(12))
  from files_inv_Handle [OF inv assms(7,5,6)] config_files_differ [of dir]
  have "dsk w' (path_join [dir, ''agent.json'']) = d1 (path_join [dir, ''agent.json''])"
    by (simp add: files_inv_def)
  then have id: "Load cr (se_id env') (dsk w') dir = (dsk w', Inr (su_ident su))"
    by (rule Load_stable [OF assms(1) dir(2) assms(11)])
  from startRelay_succeeds [OF assms(8,9) _ id s2(1) assms(13,14), of ctrl auto' s'] dir(1) obtain su' where
    su': "startRelay cr env' ctrl auto' args' (dsk w') s' = (dsk w', Inr su')" by (auto simp: assms(10))
  have "su_ident su' = su_ident su \<and> g_devices (fst (su_gw su')) = s2"
    using su' dir(1) id s2(1) by (elim startRelay_ok) (simp add: assms(10))
  moreover obtain k where "DecodeKey (PubKey inp) = Inr k" using inp(2) by (auto simp: is_ok_iff)
  then have "Get (g_devices g') sender = Some k" unfolding a(2) by (subst Get_dev_put) (simp_all add: key_read_def)
  ultimately show ?thesis using su' s2(2) by auto
qed

definition demo_start :: start_env where
  "demo_start =
     \<lparr>se_goos = ''linux'', se_base = Inr ''/home/u'', se_id = demo_id_env, se_devices_fault = None,
      se_hostname = ''pc'', se_pair1 = at_time 990 1, se_pair2 = at_time 990 1, se_secret = Inr ''secret'',
      se_ui_now = at_time 990 1, se_token = Inr ''token''\<rparr>"

lemma demo_start_runs:
  "\<exists>d1 su. startRelay toy_nacl demo_start fakeSession (linux_manager unit_commands) [] Map.empty (False, 0) = (d1, Inr su)
     \<and> devices (g_devices (fst (su_gw su))) = Some []"
proof -
  have dir: "configDir (se_base demo_start) = Inr ''/home/u/lockping''"
    by (simp add: configDir_def demo_start_def path_join_def path_clean_def clean_step_def Let_def)
  have p: "path_join [''/home/u/lockping'', ''agent.json''] = ''/home/u/lockping/agent.json''"
    by (simp add: path_join_def path_clean_def clean_step_def Let_def)
  have q: "path_join [''/home/u/lockping'', ''devices.json''] = ''/home/u/lockping/devices.json''"
    by (simp add: path_join_def path_clean_def clean_step_def Let_def)
  obtain i where i: "newUUID (Inr (replicate 16 CHR 0x00)) = Inr i" by (simp add: newUUID_def Let_def)
  obtain d1 ident where l: "Load toy_nacl (se_id demo_start) Map.empty ''/home/u/lockping'' = (d1, Inr ident)"
    and none: "d1 ''/home/u/lockping/devices.json'' = None"
    by (simp add: Load_def Let_def os_read_def create_def demo_id_env_def demo_start_def i GenerateKeys_def
        toy_nacl_def os_mkdirall_def p)
  have devs: "LoadDevices (se_devices_fault demo_start) d1 (path_join [''/home/u/lockping'', ''devices.json''])
      = Inr \<lparr>path = ''/home/u/lockping/devices.json'', devices = Some []\<rparr>"
    by (simp add: LoadDevices_def q none) (simp add: demo_start_def os_read_def none)
  have "fl_relay (default_flags (se_goos demo_start)) \<noteq> []" "is_ok (se_secret demo_start)" "is_ok (se_token demo_start)"
    by (simp_all add: default_flags_def defaultRelayURL_def demo_start_def)
  from startRelay_succeeds [OF _ this(1) dir l devs this(2,3), of "[]" fakeSession "linux_manager unit_commands" "(False, 0)"]
  obtain su where su: "startRelay toy_nacl demo_start fakeSession (linux_manager unit_commands) [] Map.empty (False, 0) = (d1, Inr su)"
    by auto
  then show ?thesis by (elim startRelay_ok) (use su dir devs in simp)
qed

text \<open>A start with no files, a window opened on the page, and a tablet that pairs.\<close>

abbreviation "demo_manager \<equiv> linux_manager unit_commands"

lemma demo_pairing_run:
  obtains d1 su g1 w1 g2 w2 p enc where
    "startRelay toy_nacl demo_start fakeSession demo_manager [] Map.empty (False, 0) = (d1, Inr su)"
    "devices (g_devices (fst (su_gw su))) = Some []" "g_devices g1 = g_devices (fst (su_gw su))"
    "agent_run (\<lambda>_. True) fakeSession toy_nacl demo_assets demo_server (su_gw su) (g1, w1)"
    "Handle fakeSession toy_nacl demo_inputs (g1, w1) ''tablet'' (wire_text p) = ((g2, w2), Ret (Some enc))"
proof -
  obtain d1 su where su: "startRelay toy_nacl demo_start fakeSession demo_manager [] Map.empty (False, 0) = (d1, Inr su)"
    and dev: "devices (g_devices (fst (su_gw su))) = Some []" using demo_start_runs by blast
  obtain g0 w0 where gw0: "su_gw su = (g0, w0)" by fastforce
  obtain g1 w1 code where op: "OpenPairing (at_time 990 1) (at_time 990 1) (Inr ''secret'') (g0, w0) = ((g1, w1), Inr code)"
    by (simp add: OpenPairing_def NewWindow_def Let_def)
  obtain p where p: "pairRequest (rawurl_encode ''secret'') ''tablet'' (EncodeKey (Pub phone_keys)) ''Tab'' = Inr p"
    by (simp add: pairRequest_def RequestMAC_def)
  have devs: "devices (g_devices g0) = Some []" using dev gw0 by simp
  have "is_ok (store_text (dev_put (paired_now demo_inputs) (g_devices g0) ''tablet'' (EncodeKey (Pub phone_keys)) (sanitizeName ''Tab'')))"
    by (rule store_text_ok [OF _ ballI]) (auto simp: dev_put_def entries_def devs demo_inputs_def demo_time_text)
  with devs have st: "devices (g_devices g0) \<noteq> None"
      "is_ok (store_text (dev_put (paired_now demo_inputs) (g_devices g0) ''tablet'' (EncodeKey (Pub phone_keys)) (sanitizeName ''Tab'')))"
    by simp_all
  obtain g2 w2 enc where run: "pairStart g1 (wire_text p) = Some (p, Some (length (heap w0)))"
      "pairFinish demo_inputs (g1, w1) ''tablet'' p (Some (length (heap w0))) = ((g2, w2), Ret (Some enc))"
    using pairing_run [OF op p demo_pairing(1-3) st(1) demo_pairing(5) st(2)] by auto
  have h: "Handle fakeSession toy_nacl demo_inputs (g1, w1) ''tablet'' (wire_text p) = ((g2, w2), Ret (Some enc))"
    using run by (simp add: Handle_def handlePairRequest_def)
  let ?rn = "\<lparr>rn_gw = (g0, w0), rn_auto = False, rn_stops = 0\<rparr>" and ?rq = "demo_request ''/api/pair'' ''c0ffee'' []"
  have "host_of (rq_host ?rq) \<in> {''127.0.0.1'', ''localhost''}" by (simp add: demo_request_def demo_host)
  from Handler_post(1) [OF this, of demo_server demo_assets demo_page_env ?rn]
  obtain rn' rs where h0: "Handler demo_assets demo_server demo_page_env ?rq ?rn = (rn', rs)" "rn_gw rn' = (g1, w1)"
    by (simp add: demo_request_def demo_server_def pair_def demo_page_env_def op)
  have r: "agent_run (\<lambda>_. True) fakeSession toy_nacl demo_assets demo_server (su_gw su) (g1, w1)"
    unfolding gw0 h0(2) [symmetric] by (rule run_page [OF _ h0(1)]) (simp add: begin_run)
  have "g_devices g1 = g_devices (fst (su_gw su))" using OpenPairing_frame(1) [OF op] gw0 by simp
  from that [OF su dev this r h] show thesis .
qed

lemma demo_start_env:
  "read_fault (se_id demo_start) = None" "se_devices_fault demo_start = None" "is_ok (se_secret demo_start)"
  "is_ok (se_token demo_start)" "60 dvd snd (paired_now demo_inputs)" "valid_utf8 ''tablet''"
  by (simp_all add: demo_start_def demo_id_env_def demo_inputs_def valid_utf8_ascii_Cons)

theorem pairing_survives_restart_witness:
  "\<exists>d su' i. startRelay toy_nacl demo_start fakeSession demo_manager [''-ui-port'', ''0'', ''-pair''] d (True, 7)
       = (d, Inr su')
     \<and> Get (g_devices (fst (su_gw su'))) ''tablet'' \<noteq> None \<and> AgentID (su_ident su') = i \<and> d \<noteq> Map.empty"
proof -
  obtain d1 su g1 w1 g2 w2 p enc where
    su: "startRelay toy_nacl demo_start fakeSession demo_manager [] Map.empty (False, 0) = (d1, Inr su)"
    and r: "agent_run (\<lambda>_. True) fakeSession toy_nacl demo_assets demo_server (su_gw su) (g1, w1)"
    and h: "Handle fakeSession toy_nacl demo_inputs (g1, w1) ''tablet'' (wire_text p) = ((g2, w2), Ret (Some enc))"
    by (rule demo_pairing_run)
  have fl: "parse_flags [''-ui-port'', ''0'', ''-pair''] (default_flags (se_goos demo_start))
      = Inr ((default_flags (se_goos demo_start))\<lparr>fl_port := 0, fl_pair := True\<rparr>)"
    by (simp add: has_prefix_def value_flag_def parse_int0_def parse_uint0_def hex_val_def byte_in_def
        in_int64_def min_int64_def max_int64_def bool_flag_def parse_bool_def)
  have relay: "fl_relay ((default_flags (se_goos demo_start))\<lparr>fl_port := 0, fl_pair := True\<rparr>) \<noteq> []"
    by (simp add: default_flags_def defaultRelayURL_def)
  from pairing_survives_restart [OF toy_nacl_laws su r wire_text_not_sealed demo_start_env(6,5) h fl relay refl demo_start_env(1-4)]
  obtain su' where "startRelay toy_nacl demo_start fakeSession demo_manager [''-ui-port'', ''0'', ''-pair''] (dsk w2) (True, 7)
      = (dsk w2, Inr su')" "Get (g_devices (fst (su_gw su'))) ''tablet'' \<noteq> None"
    by metis
  moreover obtain inp :: payload where "Add (paired_now demo_inputs) (wr demo_inputs) (dsk w1) (g_devices g1) ''tablet''
      (PubKey inp) (sanitizeName (Machine inp)) = ((dsk w2, g_devices g2), Ret ())"
    using pairing_answered [OF wire_text_not_sealed h] by blast
  from persistLocked_ok [OF Add_persisted(3) [OF this]] have "dsk w2 (path (g_devices g1)) \<noteq> None" by auto
  then have "dsk w2 \<noteq> Map.empty" by force
  ultimately show ?thesis by blast
qed

end
