(* ===== verification/Lifecycle.thy ===== *)
theory Lifecycle
  imports Restart
begin

text \<open>
  Two promises of a whole run of the agent: a removed device stays out, also of the next start, and
  the run command ends only when it is told to.
\<close>

section \<open>A removed device\<close>

text \<open>What the next start could read from the device file knows nothing of the device.\<close>

definition forgotten :: "string \<Rightarrow> string \<Rightarrow> disk \<Rightarrow> bool" where
  "forgotten dev p d = (\<forall>s. LoadDevices None d p = Inr s \<longrightarrow> Get s dev = None)"

definition locked_out :: "string \<Rightarrow> gateway \<times> 's world \<Rightarrow> bool" where
  "locked_out dev gw = (Get (g_devices (fst gw)) dev = None)"

lemma locked_out_ignored:
  "locked_out dev (g, w) \<Longrightarrow> IsSealed payload \<Longrightarrow> Handle ctrl cr i (g, w) dev payload = ((g, w), Ret None)"
  by (simp add: locked_out_def Handle_def handleSealed_def)

lemma locked_out_unpair:
  assumes "Gateway.unpair wo gw i = (gw', e)"
  shows "locked_out i gw'" and "locked_out dev gw \<Longrightarrow> locked_out dev gw'"
proof -
  obtain g w g' w' where gw: "gw = (g, w)" "gw' = (g', w')" by (cases gw; cases gw') auto
  have "Get (g_devices g') j = (if i = j then None else Get (g_devices g) j)" for j
    using unpair_frame(4) [OF assms [unfolded gw]] by (simp add: Get_Remove)
  then show "locked_out i gw'" "locked_out dev gw \<Longrightarrow> locked_out dev gw'" by (simp_all add: locked_out_def gw)
qed

lemma locked_out_pair:
  assumes "pairFinish i gw sender inp addr = (gw', r)" and "locked_out dev gw" and "sender \<noteq> dev"
  shows "locked_out dev gw'"
proof -
  obtain g w g' w' where gw: "gw = (g, w)" "gw' = (g', w')" by (cases gw; cases gw') auto
  have "Get (dev_put now s sender k n) dev = Get s dev" for now s k n
    using assms(3) by (simp add: Get_entries AList.update_conv')
  with pairFinish_devices [OF assms(1) [unfolded gw]] assms(2) show ?thesis
    by (auto simp: locked_out_def gw)
qed

lemma sealed_same_files:
  assumes "sealedFinish ctrl cr i gw payload peer = (gw', r)"
  shows "g_devices (fst gw') = g_devices (fst gw)" and "dsk (snd gw') = dsk (snd gw)"
proof -
  have "sealedFinish ctrl cr i (fst gw, snd gw) payload peer = ((fst gw', snd gw'), r)" using assms by simp
  note f = sealedFinish_frame [OF this]
  show "g_devices (fst gw') = g_devices (fst gw)" "dsk (snd gw') = dsk (snd gw)"
    using arg_cong [OF f(1), of g_devices] arg_cong [OF f(2), of dsk] by simp_all
qed

lemma locked_out_run:
  "agent_run (\<lambda>s. s \<noteq> dev) ctrl cr as srv gw0 gw \<Longrightarrow> locked_out dev gw0 \<Longrightarrow> locked_out dev gw"
proof (induction rule: agent_run.induct)
  case (run_page rn env rq rn' rs)
  from run_page.hyps(2) show ?case
  proof (cases rule: page_step)
    case same
    with run_page show ?thesis by (simp add: locked_out_def)
  next
    case (removal wo i e)
    from locked_out_unpair(2) [OF removal] run_page show ?thesis by blast
  qed
next
  case (run_sealed gw i payload peer gw' out)
  then show ?case using sealed_same_files [OF run_sealed.hyps(2)] by (simp add: locked_out_def)
next
  case (run_pair gw payload inp i sender addr gw' out)
  then show ?case using locked_out_pair by blast
qed (auto simp: locked_out_def)

text \<open>The file: one write of a store without the device leaves it forgotten, however the write ends.\<close>

lemma forgotten_write:
  assumes "storable_store s" and "persistLocked w d s = (d', e)" and "Get s dev = None" and "e = None \<or> forgotten dev (path s) d"
  shows "forgotten dev (path s) d'"
  using persist_all_or_nothing [OF assms(1,2)]
proof (elim disjE conjE exE)
  fix s'
  assume "LoadDevices None d' (path s) = Inr s'" "Get s' = Get s"
  with assms(3) show ?thesis by (simp add: forgotten_def)
qed (use assms(4) in \<open>auto simp: forgotten_def corrupt_devices_def\<close>)

definition removed_inv :: "string \<Rightarrow> string \<Rightarrow> disk \<Rightarrow> gateway \<times> 's world \<Rightarrow> bool" where
  "removed_inv dev p d gw = (files_inv p d gw \<and> locked_out dev gw \<and> forgotten dev p (dsk (snd gw)))"

lemma files_inv_storable:
  "files_inv p d gw \<Longrightarrow> devices (g_devices (fst gw)) \<noteq> None \<Longrightarrow> storable_store (g_devices (fst gw))"
  by (simp add: files_inv_def storable_store_def)

lemma unpair_forgets:
  assumes "Gateway.unpair wo (g, w) i = ((g', w'), e)" and "files_inv p d (g, w)"
    and "e = None \<and> dev = i \<or> locked_out dev (g, w) \<and> forgotten dev p (dsk w)"
  shows "forgotten dev p (dsk w')"
proof -
  have path: "path (g_devices g) = p" using assms(2) by (simp add: files_inv_def)
  have "Remove wo (dsk w) (g_devices g) i = ((dsk w', g_devices g'), e)"
    using assms(1) by (auto simp: Gateway.unpair_def split: prod.splits)
  note r = Remove_write [OF this]
  show ?thesis
  proof (cases "dsk w' = dsk w \<and> e \<noteq> None \<and> g_devices g' = g_devices g")
    case True
    with assms(3) show ?thesis by auto
  next
    case False
    with r have s': "g_devices g' = dev_del (g_devices g) i" "persistLocked wo (dsk w) (g_devices g') = (dsk w', e)" by auto
    show ?thesis
    proof (cases "devices (g_devices g)")
      case None
      then have "Remove wo (dsk w) (g_devices g) i = ((dsk w, g_devices g), Some (''secure: onbekend device '' @ go_quote i))"
        by (simp add: Remove_def entries_def)
      with \<open>Remove wo (dsk w) (g_devices g) i = ((dsk w', g_devices g'), e)\<close> False show ?thesis by simp
    next
      case (Some m)
      then have "storable_store (g_devices g')"
        using files_inv_storable [OF assms(2)] storable_del s'(1) by simp
      moreover have "Get (g_devices g') dev = None"
        using assms(3) s'(1) by (auto simp: Get_dev_del locked_out_def)
      moreover have "path (g_devices g') = p" using path by (simp add: s'(1))
      ultimately show ?thesis
        using forgotten_write [OF _ s'(2), of dev] assms(3) by auto
    qed
  qed
qed

lemma pair_forgets:
  assumes "pairFinish i (g, w) sender inp addr = ((g', w'), r)" and "removed_inv dev p d (g, w)" and "sender \<noteq> dev"
    and "valid_payload inp" and "valid_utf8 sender" and "60 dvd snd (paired_now i)"
  shows "forgotten dev p (dsk w')"
proof -
  let ?add = "Add (paired_now i) (wr i) (dsk w) (g_devices g) sender (PubKey inp) (sanitizeName (Machine inp))"
  have inv: "files_inv p d (g, w)" "locked_out dev (g, w)" "forgotten dev p (dsk w)" "path (g_devices g) = p"
    using assms(2) by (simp_all add: removed_inv_def files_inv_def)
  have "dsk w' = dsk w \<or> dsk w' = fst (fst ?add)"
    using assms(1) by (auto simp: pairFinish_def Let_def split: if_splits prod.splits outcome.splits)
  then show ?thesis
  proof
    assume w': "dsk w' = fst (fst ?add)"
    show ?thesis
    proof (cases "devices (g_devices g)")
      case None
      then have "fst (fst ?add) = dsk w" by (simp add: Add_def split: sum.splits)
      with inv w' show ?thesis by simp
    next
      case (Some m)
      then have st: "storable_store (g_devices g)" using files_inv_storable [OF inv(1)] by simp
      obtain d' s' o' where a: "?add = ((d', s'), o')" by (metis prod.collapse)
      from Add_write [OF st a] show ?thesis
      proof (elim disjE conjE exE)
        assume "d' = dsk w"
        with inv w' a show ?thesis by simp
      next
        fix e
        assume s': "s' = dev_put (paired_now i) (g_devices g) sender (PubKey inp) (sanitizeName (Machine inp))"
          and p: "persistLocked (wr i) (dsk w) s' = (d', e)"
        have "valid_utf8 (PubKey inp)" "valid_utf8 (sanitizeName (Machine inp))"
          using assms(4) by (simp_all add: valid_payload_def valid_utf8_sanitizeName)
        then have "storable_store s'" unfolding s' by (intro storable_put [OF st] assms(5,6))
        moreover have "Get s' dev = None"
          using inv(2) assms(3) by (simp add: s' locked_out_def Get_entries AList.update_conv' del: entries_dev_put)
             (simp add: AList.update_conv')
        ultimately show ?thesis
          using forgotten_write [OF _ p, of dev] inv(3,4) w' a by (simp add: s')
      qed
    qed
  qed (use inv in simp)
qed

lemma removed_run:
  "agent_run (\<lambda>s. s \<noteq> dev) ctrl cr as srv gw0 gw \<Longrightarrow> removed_inv dev p d gw0 \<Longrightarrow> removed_inv dev p d gw"
proof (induction rule: agent_run.induct)
  case (run_page rn env rq rn' rs)
  then have inv: "removed_inv dev p d (rn_gw rn)" by blast
  then have f: "files_inv p d (rn_gw rn')" using files_inv_page [OF _ run_page.hyps(2)] by (simp add: removed_inv_def)
  from run_page.hyps(2) show ?case
  proof (cases rule: page_step)
    case same
    with inv f show ?thesis by (simp add: removed_inv_def locked_out_def)
  next
    case (removal wo i e)
    then have "Gateway.unpair wo (fst (rn_gw rn), snd (rn_gw rn)) i = ((fst (rn_gw rn'), snd (rn_gw rn')), e)" by simp
    from unpair_forgets [OF this, of p d dev] locked_out_unpair(2) [OF removal, of dev] inv f
    show ?thesis by (simp add: removed_inv_def)
  qed
next
  case (run_sealed gw i payload peer gw' out)
  with files_inv_sealed [OF _ run_sealed.hyps(2)] sealed_same_files [OF run_sealed.hyps(2)]
  show ?case by (simp add: removed_inv_def locked_out_def)
next
  case (run_pair gw payload inp i sender addr gw' out)
  then have inv: "removed_inv dev p d gw" by blast
  note v = wire_decode_valid [OF run_pair.hyps(2)]
  have fin: "pairFinish i (fst gw, snd gw) sender inp addr = ((fst gw', snd gw'), out)" using run_pair.hyps(3) by simp
  from pair_forgets [OF fin _ run_pair.hyps(4) v run_pair.hyps(5,6), of p d]
    files_inv_pair [OF _ fin v run_pair.hyps(5,6), of p d] locked_out_pair [OF run_pair.hyps(3) _ run_pair.hyps(4)] inv
  show ?case by (simp add: removed_inv_def)
next
  case (run_session g w s)
  then show ?case by (auto simp: removed_inv_def locked_out_def elim: files_inv_same)
qed

text \<open>A later start of the same agent reads the device file of the disk it finds.\<close>

lemma start_forgets:
  assumes "startRelay cr env ctrl auto args d s = (d1, Inr su)" and "configDir (se_base env) = Inr dir"
    and "forgotten dev (path_join [dir, ''devices.json'']) d" and "fst (Load cr (se_id env) d dir) = d"
  shows "Get (g_devices (fst (su_gw su))) dev = None"
  using assms(1)
proof (rule startRelay_ok)
  fix dir' devs
  assume a: "configDir (se_base env) = Inr dir'" "Load cr (se_id env) d dir' = (d1, Inr (su_ident su))"
    "LoadDevices (se_devices_fault env) d1 (path_join [dir', ''devices.json'']) = Inr devs" "g_devices (fst (su_gw su)) = devs"
  with assms(2,4) have "d1 = d" "dir' = dir" by simp_all
  moreover have "se_devices_fault env = None" using a(3) by (cases "se_devices_fault env") (simp_all add: LoadDevices_def os_read_def)
  ultimately show ?thesis using a(3,4) assms(3) by (simp add: forgotten_def)
qed

section \<open>The demonstration\<close>

text \<open>The tablet of the demonstration, paired.\<close>

lemma demo_paired:
  obtains d1 su g2 w2 inp where
    "startRelay toy_nacl demo_start fakeSession demo_manager [] Map.empty (False, 0) = (d1, Inr su)"
    "devices (g_devices (fst (su_gw su))) = Some []"
    "agent_run (\<lambda>_. True) fakeSession toy_nacl demo_assets demo_server (su_gw su) (g2, w2)"
    "g_devices g2 = dev_put (paired_now demo_inputs) (g_devices (fst (su_gw su))) ''tablet'' (PubKey inp)
       (sanitizeName (Machine (inp :: payload)))"
    "Get (g_devices g2) ''tablet'' \<noteq> None"
proof -
  obtain d1 su g1 w1 g2 w2 p enc where
    su: "startRelay toy_nacl demo_start fakeSession demo_manager [] Map.empty (False, 0) = (d1, Inr su)"
    and dev: "devices (g_devices (fst (su_gw su))) = Some []" "g_devices g1 = g_devices (fst (su_gw su))"
    and r: "agent_run (\<lambda>_. True) fakeSession toy_nacl demo_assets demo_server (su_gw su) (g1, w1)"
    and h: "Handle fakeSession toy_nacl demo_inputs (g1, w1) ''tablet'' (wire_text p) = ((g2, w2), Ret (Some enc))"
    by (rule demo_pairing_run)
  obtain inp :: payload where add: "is_ok (DecodeKey (PubKey inp))" "Add (paired_now demo_inputs) (wr demo_inputs) (dsk w1) (g_devices g1) ''tablet''
      (PubKey inp) (sanitizeName (Machine inp)) = ((dsk w2, g_devices g2), Ret ())"
    using pairing_answered [OF wire_text_not_sealed h] by blast
  have g2: "g_devices g2 = dev_put (paired_now demo_inputs) (g_devices g1) ''tablet'' (PubKey inp) (sanitizeName (Machine inp))"
    by (rule Add_persisted(2) [OF add(2)])
  have run: "agent_run (\<lambda>_. True) fakeSession toy_nacl demo_assets demo_server (su_gw su) (g2, w2)"
    by (rule run_handle [OF r h]) (simp_all add: demo_start_env)
  obtain k where "DecodeKey (PubKey inp) = Inr k" using add(1) by (auto simp: is_ok_iff)
  then have "Get (g_devices g2) ''tablet'' \<noteq> None"
    unfolding g2 by (subst Get_dev_put) (simp_all add: key_read_def)
  with that [OF su dev(1) run] g2 dev(2) show thesis by simp
qed

text \<open>The tablet, removed again, and the next start.\<close>

lemma demo_removal_run:
  obtains d1 su gw g w where
    "startRelay toy_nacl demo_start fakeSession demo_manager [] Map.empty (False, 0) = (d1, Inr su)"
    "agent_run (\<lambda>_. True) fakeSession toy_nacl demo_assets demo_server (su_gw su) gw"
    "Get (g_devices (fst gw)) ''tablet'' \<noteq> None" "Gateway.unpair WriteOk gw ''tablet'' = ((g, w), None)"
    "\<exists>su'. startRelay toy_nacl demo_start fakeSession demo_manager [] (dsk w) (False, 0) = (dsk w, Inr su')"
proof -
  obtain d1 su g2 w2 and inp :: payload where
    su: "startRelay toy_nacl demo_start fakeSession demo_manager [] Map.empty (False, 0) = (d1, Inr su)"
    and dev: "devices (g_devices (fst (su_gw su))) = Some []"
    and run: "agent_run (\<lambda>_. True) fakeSession toy_nacl demo_assets demo_server (su_gw su) (g2, w2)"
    and g2: "g_devices g2 = dev_put (paired_now demo_inputs) (g_devices (fst (su_gw su))) ''tablet'' (PubKey inp)
       (sanitizeName (Machine inp))"
    and get: "Get (g_devices g2) ''tablet'' \<noteq> None"
    by (rule demo_paired)
  let ?s = "dev_del (g_devices g2) ''tablet''"
  have none: "devices ?s = Some []" by (simp add: g2 dev_del_def dev_put_def entries_def dev)
  have "map_of (entries (g_devices g2)) ''tablet'' \<noteq> None"
    using get by (auto simp: Get_entries split: bind_splits)
  moreover have "is_ok (store_text ?s)" by (rule store_text_ok [OF none]) simp
  ultimately obtain d3 where rem: "Remove WriteOk (dsk w2) (g_devices g2) ''tablet'' = ((d3, ?s), None)"
      "persistLocked WriteOk (dsk w2) ?s = (d3, None)"
    using Remove_store [of WriteOk "dsk w2" "g_devices g2" "''tablet''"] Remove_result [of "g_devices g2" "''tablet''" WriteOk "dsk w2"]
      Remove_disk [of "g_devices g2" "''tablet''" WriteOk "dsk w2"] persistLocked_err_iff [of WriteOk "dsk w2" ?s]
    by (metis prod.collapse)
  let ?g = "g2\<lparr>g_devices := ?s\<rparr>" and ?w = "w2\<lparr>dsk := d3\<rparr>"
  have un: "Gateway.unpair WriteOk (g2, w2) ''tablet'' = ((?g, ?w), None)" using rem(1) by (simp add: Gateway.unpair_def)
  obtain dir where dir: "configDir (se_base demo_start) = Inr dir" "Load toy_nacl (se_id demo_start) Map.empty dir = (d1, Inr (su_ident su))"
    using su by (elim startRelay_ok)
  let ?p = "path_join [dir, ''devices.json'']"
  have "files_inv ?p d1 (g2, w2)" by (rule agent_run_files [OF run start_files_inv [OF su dir(1)]])
  from files_inv_unpair [OF this un] have f: "files_inv ?p d1 (?g, ?w)" .
  then have "d3 (path_join [dir, ''agent.json'']) = d1 (path_join [dir, ''agent.json''])"
    using config_files_differ [of dir] by (simp add: files_inv_def)
  then have id: "Load toy_nacl (se_id demo_start) d3 dir = (d3, Inr (su_ident su))"
    by (rule Load_stable [OF toy_nacl_laws dir(2) demo_start_env(1)])
  have "storable_store ?s" "path ?s = ?p"
    using files_inv_storable [OF f] none f by (simp_all add: files_inv_def)
  from reload_after_write [OF this(1) rem(2)] this(2) obtain s2 where
    devs: "LoadDevices (se_devices_fault demo_start) d3 ?p = Inr s2" by (auto simp: demo_start_env)
  have fl: "parse_flags [] (default_flags (se_goos demo_start)) = Inr (default_flags (se_goos demo_start))" by simp
  have "\<exists>su'. startRelay toy_nacl demo_start fakeSession demo_manager [] d3 (False, 0) = (d3, Inr su')"
    by (rule startRelay_succeeds [OF fl _ dir(1) id devs demo_start_env(3,4)])
       (simp add: default_flags_def defaultRelayURL_def)
  with that [OF su run _ un] get show thesis by simp
qed

section \<open>No panic\<close>

text \<open>The only operation that can panic is an insertion into a nil map, and a map stays a map.\<close>

lemma devices_run:
  "agent_run ok ctrl cr as srv gw0 gw \<Longrightarrow> devices (g_devices (fst gw0)) \<noteq> None \<Longrightarrow> devices (g_devices (fst gw)) \<noteq> None"
proof (induction rule: agent_run.induct)
  case (run_page rn env rq rn' rs)
  from run_page.hyps(2) show ?case
  proof (cases rule: page_step)
    case same
    with run_page show ?thesis by simp
  next
    case (removal wo i e)
    then have "Gateway.unpair wo (fst (rn_gw rn), snd (rn_gw rn)) i = ((fst (rn_gw rn'), snd (rn_gw rn')), e)" by simp
    from unpair_frame(4) [OF this] run_page show ?thesis by (simp add: Remove_store dev_del_def)
  qed
next
  case (run_sealed gw i payload peer gw' out)
  then show ?case using sealed_same_files(1) [OF run_sealed.hyps(2)] by simp
next
  case (run_pair gw payload inp i sender addr gw' out)
  have "pairFinish i (fst gw, snd gw) sender inp addr = ((fst gw', snd gw'), out)" using run_pair.hyps(3) by simp
  from pairFinish_devices [OF this] run_pair show ?case by (auto simp: dev_put_def)
qed auto

lemma pairFinish_no_panic:
  "devices (g_devices g) \<noteq> None \<Longrightarrow> snd (pairFinish i (g, w) sender inp addr) \<noteq> Panic msg"
  by (auto simp: pairFinish_def Let_def wire_encode_text Add_def
      split: if_splits prod.splits outcome.splits sum.splits option.splits)

lemma Handle_no_panic:
  assumes "devices (g_devices g) \<noteq> None" shows "snd (Handle ctrl cr i (g, w) sender payload) \<noteq> Panic msg"
proof -
  obtain g' w' r where h: "Handle ctrl cr i (g, w) sender payload = ((g', w'), r)" by (metis prod.collapse)
  from h have "r \<noteq> Panic msg"
  proof (cases rule: Handle_cases)
    case (pair inp)
    with pairFinish_no_panic [OF assms, of i w sender inp "g_window g" msg] show ?thesis by simp
  qed auto
  with h show ?thesis by simp
qed

section \<open>Properties\<close>

text \<open>
  C16. The agent never crashes on what the relay sends and the page does. After a start that found or
  made an allowlist, and any run (requests to the page, payloads from the relay, interleaved), no
  payload makes a handler panic, and neither does the rest of a pair request that was decoded
  earlier, with whatever window it took then.
\<close>

theorem agent_never_panics:
  assumes "startRelay cr env ctrl auto args d s = (d1, Inr su)" and "devices (g_devices (fst (su_gw su))) \<noteq> None"
    and "agent_run (\<lambda>_. True) ctrl cr as srv (su_gw su) (g, w)"
  shows "snd (Handle ctrl cr i (g, w) sender payload) \<noteq> Panic msg
    \<and> snd (pairFinish i' (g, w) sender' inp addr) \<noteq> Panic msg'"
proof -
  have "devices (g_devices g) \<noteq> None" using devices_run [OF assms(3,2)] by simp
  then show ?thesis by (intro conjI Handle_no_panic pairFinish_no_panic)
qed

theorem agent_never_panics_witness:
  "\<exists>(su :: (bool \<times> nat, bool) started) g w. agent_run (\<lambda>_. True) fakeSession toy_nacl demo_assets demo_server (su_gw su) (g, w)
     \<and> Get (g_devices g) ''tablet'' \<noteq> None \<and> devices (g_devices (fst (su_gw su))) = Some []
     \<and> snd (Handle fakeSession toy_nacl demo_inputs (g, w) ''x'' ''garbage'') \<noteq> Panic ''assignment to entry in nil map''"
proof -
  obtain d1 g w and su :: "(bool \<times> nat, bool) started" and inp :: payload where
    su: "startRelay toy_nacl demo_start fakeSession demo_manager [] Map.empty (False, 0) = (d1, Inr su)"
    and dev: "devices (g_devices (fst (su_gw su))) = Some []"
    and run: "agent_run (\<lambda>_. True) fakeSession toy_nacl demo_assets demo_server (su_gw su) (g, w)"
    and "g_devices g = dev_put (paired_now demo_inputs) (g_devices (fst (su_gw su))) ''tablet'' (PubKey inp)
      (sanitizeName (Machine inp))"
    and get: "Get (g_devices g) ''tablet'' \<noteq> None"
    by (rule demo_paired)
  have "devices (g_devices (fst (su_gw su))) \<noteq> None" using dev by simp
  from agent_never_panics [OF su this run, THEN conjunct1] run get dev
  show ?thesis by (intro exI [of _ su] exI [of _ g] exI [of _ w] conjI)
qed

text \<open>
  C13. A removed device stays out. Take a start of the agent and any run of it (requests to the page
  and payloads from the relay, interleaved), then a removal of a device, whether writing the file
  worked or not, and any further run in which no pair request of that device is finished. The
  allowlist does not know the device, and nothing it seals is opened or answered. If the removal
  was reported as done, this lasts: every later start that succeeds comes up without the device too,
  however the writes since then ended.
\<close>

theorem removed_device_stays_out:
  assumes "nacl_laws cr" and "startRelay cr env ctrl auto args d s = (d1, Inr su)"
    and "agent_run (\<lambda>_. True) ctrl cr as srv (su_gw su) gw" and "Gateway.unpair wo gw dev = (gw0, e)"
    and "agent_run (\<lambda>sender. sender \<noteq> dev) ctrl cr as srv gw0 (g, w)"
  shows "Get (g_devices g) dev = None
    \<and> (IsSealed payload \<longrightarrow> Handle ctrl cr i (g, w) dev payload = ((g, w), Ret None))
    \<and> (e = None \<and> se_base env' = se_base env \<and> startRelay cr env' ctrl' auto' args' (dsk w) s' = (d2, Inr su')
         \<longrightarrow> Get (g_devices (fst (su_gw su'))) dev = None)"
proof (intro conjI impI)
  have out: "locked_out dev (g, w)"
    by (rule locked_out_run [OF assms(5) locked_out_unpair(1) [OF assms(4)]])
  then show "Get (g_devices g) dev = None" by (simp add: locked_out_def)
  show "Handle ctrl cr i (g, w) dev payload = ((g, w), Ret None)" if "IsSealed payload"
    by (rule locked_out_ignored [OF out that])
  assume "e = None \<and> se_base env' = se_base env \<and> startRelay cr env' ctrl' auto' args' (dsk w) s' = (d2, Inr su')"
  then have e: "e = None" "se_base env' = se_base env" and su': "startRelay cr env' ctrl' auto' args' (dsk w) s' = (d2, Inr su')"
    by simp_all
  obtain dir where dir: "configDir (se_base env) = Inr dir" "Load cr (se_id env) d dir = (d1, Inr (su_ident su))"
    using assms(2) by (elim startRelay_ok)
  let ?p = "path_join [dir, ''devices.json'']"
  have f: "files_inv ?p d1 gw" by (rule agent_run_files [OF assms(3) start_files_inv [OF assms(2) dir(1)]])
  have un: "Gateway.unpair wo (fst gw, snd gw) dev = ((fst gw0, snd gw0), e)" using assms(4) by simp
  have "removed_inv dev ?p d1 gw0"
    using files_inv_unpair [OF _ un] unpair_forgets [OF un, of ?p d1 dev] locked_out_unpair(1) [OF assms(4)] f e
    by (simp add: removed_inv_def)
  from removed_run [OF assms(5) this] have inv: "removed_inv dev ?p d1 (g, w)" .
  have "fst (Load cr (se_id env') (dsk w) dir) = dsk w"
  proof (cases "read_fault (se_id env')")
    case None
    have "dsk w (path_join [dir, ''agent.json'']) = d1 (path_join [dir, ''agent.json''])"
      using inv config_files_differ [of dir] by (simp add: removed_inv_def files_inv_def)
    then have "Load cr (se_id env') (dsk w) dir = (dsk w, Inr (su_ident su))"
      by (rule Load_stable [OF assms(1) dir(2) None])
    then show ?thesis by simp
  qed (simp add: Load_def Let_def os_read_def)
  with start_forgets [OF su' _ _ this, of dev] inv dir(1) e(2)
  show "Get (g_devices (fst (su_gw su'))) dev = None" by (simp add: removed_inv_def)
qed

theorem removed_device_stays_out_witness:
  "\<exists>gw g w d2 su'. Gateway.unpair WriteOk gw ''tablet'' = ((g, w), None) \<and> Get (g_devices (fst gw)) ''tablet'' \<noteq> None
     \<and> Handle fakeSession toy_nacl demo_inputs (g, w) ''tablet'' (demo_sealed demo_lock) = ((g, w), Ret None)
     \<and> startRelay toy_nacl demo_start fakeSession demo_manager [] (dsk w) (False, 0) = (d2, Inr su')
     \<and> Get (g_devices (fst (su_gw su'))) ''tablet'' = None"
proof -
  obtain d1 su gw g w where r: "startRelay toy_nacl demo_start fakeSession demo_manager [] Map.empty (False, 0) = (d1, Inr su)"
    "agent_run (\<lambda>_. True) fakeSession toy_nacl demo_assets demo_server (su_gw su) gw"
    "Get (g_devices (fst gw)) ''tablet'' \<noteq> None" "Gateway.unpair WriteOk gw ''tablet'' = ((g, w), None)"
    "\<exists>su'. startRelay toy_nacl demo_start fakeSession demo_manager [] (dsk w) (False, 0) = (dsk w, Inr su')"
    by (rule demo_removal_run)
  then obtain su' where su': "startRelay toy_nacl demo_start fakeSession demo_manager [] (dsk w) (False, 0) = (dsk w, Inr su')" by blast
  have "IsSealed (demo_sealed demo_lock)" by (simp add: demo_sealed_def IsSealed_def)
  with removed_device_stays_out [OF toy_nacl_laws r(1,2,4) begin_run, where env' = demo_start and ctrl' = fakeSession
      and auto' = demo_manager and args' = "[]" and s' = "(False, 0)" and su' = su' and ?d2.0 = "dsk w" and i = demo_inputs
      and payload = "demo_sealed demo_lock"] r(3,4) su'
  show ?thesis by blast
qed

text \<open>
  C31. The run command ends exactly when it is told to. After a start that found or made an
  allowlist, over any sequence of connections (dials that fail, handshakes that are refused,
  connections that break, any frames the relay sends), it returns if and only if its context was
  cancelled, then without an error; otherwise it goes on reconnecting. It never panics, and the
  gateway stays well-formed.
\<close>

theorem run_ends_when_told:
  assumes "startRelay cr senv ctrl auto args d s = (d1, Inr su)" and "devices (g_devices (fst (su_gw su))) \<noteq> None"
  shows "snd (connect cr ctrl env attempts su)
      = (if \<exists>a\<in>set attempts. cancelled a \<or> cancelled_waiting a then Returned None else StillRunning)
    \<and> agent_ok (snd (fst (connect cr ctrl env attempts su)))"
proof -
  let ?c = "(OnState (newClient (AgentID (su_ident su)) (id_Keys (su_ident su))), (su_gw su, 0))"
  have "agent_ok (su_gw su, 0)"
    using assms wf_LoadDevices by (elim startRelay_ok) (auto simp: agent_ok_def)
  then have ok: "agent_ok (snd ?c)" by simp
  obtain cs waits cos r where run: "Run cr (gw_handler ctrl cr env) attempts ?c = (cs, waits, cos, r)"
    by (metis prod_cases4)
  have "connect cr ctrl env attempts su
      = (cs, case r of Running \<Rightarrow> StillRunning | Stopped \<Rightarrow> Returned None | Dead e \<Rightarrow> Panicking e)"
    by (cases r) (simp_all add: connect_def run ignoreCancel_def)
  with gateway_calm.run_end [OF run ok] gateway_handler.run_inv [OF run ok] show ?thesis by simp
qed

theorem run_ends_when_told_witness:
  "\<exists>su :: (bool \<times> nat, bool) started. snd (connect toy_nacl fakeSession (\<lambda>_. demo_inputs)
       [failed_dial, failed_dial\<lparr>dial := Inr (demo_conn [welcome_frame, envelope ''x'' ''garbage''])\<rparr>, failed_dial\<lparr>cancelled_waiting := True\<rparr>] su)
     = Returned None
   \<and> snd (connect toy_nacl fakeSession (\<lambda>_. demo_inputs) [failed_dial, failed_dial] su) = StillRunning"
proof -
  obtain d1 su where su: "startRelay toy_nacl demo_start fakeSession demo_manager [] Map.empty (False, 0) = (d1, Inr su)"
    "devices (g_devices (fst (su_gw su))) = Some []" using demo_start_runs by blast
  then have "devices (g_devices (fst (su_gw su))) \<noteq> None" by simp
  note e = run_ends_when_told [OF su(1) this, of "\<lambda>_. demo_inputs"]
  from e [of "[failed_dial, failed_dial\<lparr>dial := Inr (demo_conn [welcome_frame, envelope ''x'' ''garbage''])\<rparr>, failed_dial\<lparr>cancelled_waiting := True\<rparr>]"]
    e [of "[failed_dial, failed_dial]"]
  show ?thesis by (intro exI [of _ su]) (simp add: failed_dial_def)
qed

end
