(* ===== verification/Companion.thy ===== *)
theory Companion
  imports Cmd
begin

text \<open>
  What the user of the desktop sees of the command: \<open>open\<close>, which finds or starts the agent and shows
  its page (\<open>open.go\<close>), and the tray icon beside the connection (\<open>tray.go\<close>). The tray library is
  known by what the code relies on: \<open>systray.Run\<close> returns once \<open>systray.Quit\<close> was called.
\<close>

section \<open>Opening the page\<close>


text \<open>The request of \<open>uiAlive\<close> as the page's server sees it.\<close>

definition alive_request :: "int \<Rightarrow> request" where
  "alive_request port =
     \<lparr>rq_method = ''GET'', rq_host = ui_addr port, rq_path = ''/api/state'', rq_token = [], rq_body = []\<rparr>"

lemma plain_port_int_string: "plain_port (int_string p)"
proof -
  have "c \<noteq> CHR '':'' \<and> c \<noteq> CHR ''['' \<and> c \<noteq> CHR '']''" if "is_digit c" for c
    using that by (intro conjI of_char_neqI) (auto simp: is_digit_def byte_in_def)
  with nat_string_digits [of "nat p"] nat_string_digits [of "nat (- p)"] show ?thesis
    by (auto simp: plain_port_def int_string_def)
qed

lemma host_of_ui_addr: "host_of (ui_addr port) = ''127.0.0.1''"
  by (subst host_of_local) (auto simp: ui_addr_def plain_port_int_string intro: exI [of _ "int_string port"])

lemma Handler_alive: "rs_status (snd (Handler as srv env (alive_request port) rn)) = 200"
proof -
  have "clean_url_path ''/api/state'' = ''/api/state''"
    by (simp add: clean_url_path_def path_clean_def clean_step_def Let_def)
  then have "Handler as srv env (alive_request port) rn = state srv env rn"
    by (simp add: Handler_def localOnly_def host_of_ui_addr mux_def mux_match_def handle_route_def
        alive_request_def)
  then show ?thesis by (simp add: state_def writeJSON_def Let_def split: prod.splits)
qed

section \<open>The tray icon\<close>

text \<open>
  The two goroutines of \<open>runWithTray\<close> and the events they see. The context is done when the one of
  the command is, or after a click on the last menu item. The loop leaves with \<open>Quit\<close> once the
  context is done, though it may take clicks before it notices; the other goroutine puts the result
  of the connection into its channel and then calls \<open>Quit\<close>.
\<close>

datatype tray_event =
  ParentDone | ClickOpen | ClickQuit | LoopDone | ConnectReturns "string option" | ConnectQuits

datatype connect_phase = Connecting | Sent | Gone

record tray =
  ty_done :: bool
  ty_looping :: bool
  ty_phase :: connect_phase
  ty_result :: "string option option"
  ty_quits :: nat
  ty_opened :: nat

definition tray_start :: tray where
  "tray_start = \<lparr>ty_done = False, ty_looping = True, ty_phase = Connecting, ty_result = None, ty_quits = 0, ty_opened = 0\<rparr>"

fun tray_step :: "tray_event \<Rightarrow> tray \<Rightarrow> tray option" where
  "tray_step ParentDone t = Some (t\<lparr>ty_done := True\<rparr>)"
| "tray_step ClickOpen t = (if ty_looping t then Some (t\<lparr>ty_opened := Suc (ty_opened t)\<rparr>) else None)"
| "tray_step ClickQuit t = (if ty_looping t then Some (t\<lparr>ty_done := True\<rparr>) else None)"
| "tray_step LoopDone t =
     (if ty_looping t \<and> ty_done t then Some (t\<lparr>ty_quits := Suc (ty_quits t), ty_looping := False\<rparr>) else None)"
| "tray_step (ConnectReturns r) t =
     (if ty_phase t = Connecting then Some (t\<lparr>ty_result := Some r, ty_phase := Sent\<rparr>) else None)"
| "tray_step ConnectQuits t =
     (if ty_phase t = Sent then Some (t\<lparr>ty_quits := Suc (ty_quits t), ty_phase := Gone\<rparr>) else None)"

fun tray_run :: "tray_event list \<Rightarrow> tray \<Rightarrow> tray option" where
  "tray_run [] t = Some t"
| "tray_run (e # es) t = Option.bind (tray_step e t) (tray_run es)"

text \<open>
  \<open>None\<close> while \<open>systray.Run\<close> is running (or for a sequence of events that cannot happen); afterwards
  the result is taken from the channel when there is one.
\<close>

definition runWithTray :: "tray_event list \<Rightarrow> string option option" where
  "runWithTray es =
     (case tray_run es tray_start of
        None \<Rightarrow> None
      | Some t \<Rightarrow>
          if ty_quits t = 0 then None
          else (case ty_result t of Some err \<Rightarrow> Some err | None \<Rightarrow> Some None))"

definition trayIcon :: "string \<Rightarrow> bytes \<Rightarrow> bytes \<Rightarrow> bytes" where
  "trayIcon goos trayIconPNG trayIconICO = (if goos = ''windows'' then trayIconICO else trayIconPNG)"

text \<open>The end of \<open>runRelay\<close>: with the tray or without, \<open>r\<close> being what the connection returned.\<close>

definition relay_returns :: "flags \<Rightarrow> tray_event list \<Rightarrow> string option \<Rightarrow> string option option" where
  "relay_returns fl es r = (if fl_tray fl then runWithTray es else Some r)"

lemma tray_run_append: "tray_run (xs @ ys) t = Option.bind (tray_run xs t) (tray_run ys)"
  by (induction xs arbitrary: t) (auto split: bind_splits)

text \<open>What the events so far tell about the state.\<close>

definition tray_inv :: "tray_event list \<Rightarrow> tray \<Rightarrow> bool" where
  "tray_inv es t =
     ((ty_done t \<longleftrightarrow> ParentDone \<in> set es \<or> ClickQuit \<in> set es)
      \<and> (ty_looping t \<or> ty_done t \<and> 0 < ty_quits t)
      \<and> (case ty_result t of
           None \<Rightarrow> ty_phase t = Connecting \<and> (\<forall>r. ConnectReturns r \<notin> set es)
         | Some r \<Rightarrow> ty_phase t \<noteq> Connecting \<and> (\<forall>s. ConnectReturns s \<in> set es \<longleftrightarrow> s = r))
      \<and> (0 < ty_quits t \<longleftrightarrow> \<not> ty_looping t \<or> ty_phase t = Gone))"

lemma tray_inv_step:
  assumes "tray_inv es t" and "tray_step e t = Some t'"
  shows "tray_inv (es @ [e]) t'"
proof (cases e)
  case (ConnectReturns r)
  with assms(2) have t': "ty_phase t = Connecting" "t' = t\<lparr>ty_result := Some r, ty_phase := Sent\<rparr>"
    by (auto split: if_splits)
  with assms(1) have "\<forall>s. ConnectReturns s \<notin> set es" by (auto simp: tray_inv_def split: option.splits)
  with assms(1) t' show ?thesis by (simp add: tray_inv_def ConnectReturns) blast
qed (use assms in \<open>cases "ty_result t"; simp split: if_splits; clarify; simp add: tray_inv_def; blast?\<close>)+

lemma tray_inv_run: "tray_run es tray_start = Some t \<Longrightarrow> tray_inv es t"
proof (induction es arbitrary: t rule: rev_induct)
  case Nil
  then show ?case by (auto simp: tray_inv_def tray_start_def)
next
  case (snoc e es)
  then show ?case by (auto simp: tray_run_append split: bind_splits intro: tray_inv_step)
qed

section \<open>Properties\<close>


text \<open>
  \<open>open\<close> recognises the agent it belongs to: when the page's server runs on the port, whatever
  the state of the agent is, the first request is answered with 200, and \<open>open\<close> shows the page at
  once and starts nothing.
\<close>

theorem open_finds_running_agent:
  "openCompanion port (\<lambda>k. Inr (rs_status (snd (Handler as srv (env k) (alive_request port) (rn k))))) start_err
     = ([page_url port], 0, None)"
  by (simp add: openCompanion_def uiAlive_def Handler_alive)

text \<open>
  C28. The tray loses no error: when \<open>runWithTray\<close> returns, it returns what the connection returned,
  or, if the connection had not returned yet, no error, and then the agent had been told to stop.
\<close>

theorem tray_keeps_result:
  assumes "runWithTray es = Some r"
  shows "ConnectReturns r \<in> set es
    \<or> (\<forall>s. ConnectReturns s \<notin> set es) \<and> r = None \<and> (ParentDone \<in> set es \<or> ClickQuit \<in> set es)"
proof -
  obtain t where t: "tray_run es tray_start = Some t" "0 < ty_quits t"
    using assms by (auto simp: runWithTray_def split: option.splits if_splits)
  from tray_inv_run [OF t(1)] assms t show ?thesis
    by (cases "ty_result t") (auto simp: runWithTray_def tray_inv_def)
qed

theorem tray_keeps_result_witness:
  "runWithTray [ClickOpen, ConnectReturns (Some ''lost''), ClickOpen, ConnectQuits] = Some (Some ''lost'')
     \<and> ConnectReturns (Some ''lost'') \<in> set [ClickOpen, ConnectReturns (Some ''lost''), ClickOpen, ConnectQuits]"
proof -
  have "runWithTray [ClickOpen, ConnectReturns (Some ''lost''), ClickOpen, ConnectQuits] = Some (Some ''lost'')"
    by (simp add: runWithTray_def tray_start_def)
  from tray_keeps_result [OF this] this show ?thesis by auto
qed

text \<open>
  Stopping works from every state: once the context is done, by a signal, the page or the menu,
  \<open>runWithTray\<close> has returned or returns with the next step of the loop, without any further click
  and without waiting for the connection.
\<close>

theorem tray_stops:
  assumes "tray_run es tray_start = Some t" and "ParentDone \<in> set es \<or> ClickQuit \<in> set es"
  shows "runWithTray es \<noteq> None \<or> runWithTray (es @ [LoopDone]) \<noteq> None"
  using tray_inv_run [OF assms(1)] assms
  by (auto simp: runWithTray_def tray_run_append tray_inv_def split: option.splits if_splits)

theorem tray_stops_witness:
  "tray_run [ClickQuit, ClickOpen] tray_start \<noteq> None
     \<and> (runWithTray [ClickQuit, ClickOpen] \<noteq> None \<or> runWithTray ([ClickQuit, ClickOpen] @ [LoopDone]) \<noteq> None)"
proof -
  obtain t where "tray_run [ClickQuit, ClickOpen] tray_start = Some t" by (simp add: tray_start_def)
  from tray_stops [OF this] this show ?thesis by simp
qed

end
