(* ===== verification/Phone.thy ===== *)
theory Phone
  imports Agent
begin

text \<open>
  A phone from its first frame on: it answers the code on the page and then locks the session, over
  one connection of the relay.
\<close>



section \<open>Properties\<close>



end
