(* ===== verification/Spec2Isabelle.thy ===== *)
theory Spec2Isabelle
  imports Lifecycle Companion Phone
begin

text \<open>
  A verification library of the LockPing agent, the program on a PC that reports whether the
  session is locked and locks it on the command of a paired phone, over a relay that must not be
  trusted with either.

  The program. The command (\<open>cmd/lockping-agent\<close>) loads the agent's identity and its allowlist of
  devices, connects a relay client (\<open>internal/relay\<close>) and gives it the gateway
  (\<open>internal/gateway\<close>) as the handler of every envelope. The gateway opens what a paired device
  sealed (\<open>internal/secure\<close>) and hands it to the core (\<open>internal/core\<close>), which checks that a lock
  command is fresh and calls the session layer (\<open>internal/session\<close>) for the platform; the answer
  goes back the same way. The only other payload it takes is a pair request while a pairing window
  is open. A page on the local host (\<open>internal/webui\<close>) opens windows, removes devices, switches
  autostart (\<open>internal/autostart\<close>) and stops the agent.

  How it is modelled. A Go string and a byte slice are HOL strings of 8-bit characters, a struct is
  a record, an error is its message: \<open>'a result\<close> is a value or an error, \<open>'a outcome\<close> may also be a
  panic. State is passed explicitly. Clock readings, random bytes, outcomes of file operations,
  the iteration order of a map, and what the network delivers are arguments of each definition, so a
  theorem holds for all of them. All definitions are executable.

  The standard library, as far as the agent uses it:
  \<^item> \<open>Prelude\<close>, \<open>Go_Text\<close>: results, lists, words; trimming, quoting, \<open>net.SplitHostPort\<close>.
  \<^item> \<open>Utf8\<close>, \<open>Json_Text\<close>, \<open>Json\<close>, \<open>Unmarshal\<close>, \<open>Json_Valid\<close>, \<open>Json_Torn\<close>: \<open>unicode/utf8\<close> and \<open>encoding/json\<close>,
    scanner, parser, printer and decoding into structs; what is printed is read back, what is read or
    printed is valid text, and no proper prefix of a printed object is a document.
  \<^item> \<open>Base64\<close>, \<open>Sha256\<close>: the encodings with their round trip, in a locale over the alphabet; SHA-256
    and HMAC on 32-bit words.
  \<^item> \<open>Go_Time\<close>, \<open>Rfc3339\<close>: times with a wall and a monotonic reading, their text form and its round
    trip; \<open>Disk\<close>: whole files, path cleaning, failing writes.

  The program's own parts, each theory named with the file it models:
  \<^item> \<open>Wire\<close> (\<open>wire.go\<close>): the payload codec.
  \<^item> \<open>Nonce\<close>, \<open>Core\<close> (\<open>nonce.go\<close>, \<open>core.go\<close>): the replay cache against a locale of its laws; which lock
    commands are accepted, in terms of those accepted before, that none is accepted twice while the
    clock is steady, and when one is after the wall clock was set back.
  \<^item> \<open>Session\<close>, \<open>Logind\<close>, \<open>Wts\<close> (\<open>session.go\<close>, \<open>pick.go\<close>, \<open>winmap.go\<close>, \<open>logind_linux.go\<close>, \<open>wts_windows.go\<close>,
    \<open>stub_other.go\<close>): the interface as a record, the choice of the session, the D-Bus and the Win32
    implementation; the two threads of the Windows watcher are interleaved steps, compared with a queue
    without a limit.
  \<^item> \<open>Keys\<close>, \<open>Crypt\<close>, \<open>Auth\<close>, \<open>Pairing\<close>, \<open>Devices\<close> (\<open>internal/secure\<close>): keys, sealed payloads, the relay
    challenge, pairing windows and codes, the allowlist and its file, with a locale for the contract
    of an allowlist; a write that breaks off is never read as another allowlist.
  \<^item> \<open>Gateway\<close>, \<open>GatewayRun\<close> (\<open>gateway.go\<close>): every handler, sequential and cut where it gives up a
    mutex; the step relation \<open>gstep\<close> interleaves the pieces with the page, \<open>greach\<close> is its closure,
    and \<open>abs_gw\<close> abstracts it to tickets and keys, where the promise of pairing is stated.
  \<^item> \<open>Relay\<close> (\<open>client.go\<close>): frames, handshake, the serving loop and the reconnecting loop with its
    backoff, over scripts of connections, with locales for the contract of a handler (an invariant,
    a count, no panics) that the gateway's handler provides.
  \<^item> \<open>Identity\<close> (\<open>identity.go\<close>), \<open>Autostart\<close> (\<open>autostart*.go\<close>), \<open>Webui\<close> (\<open>webui.go\<close>).
  \<^item> \<open>Agent\<close>, \<open>Cmd\<close>, \<open>Companion\<close> (\<open>main.go\<close>, \<open>install_*.go\<close>, \<open>open.go\<close>, \<open>browser.go\<close>, \<open>tray.go\<close>,
    \<open>spawn_*.go\<close>, \<open>console_windows.go\<close>): the composition
    of relay client, gateway, core and session; the commands, flags and start; opening the page
    and the tray.
  \<^item> \<open>Phone\<close>: the life of a phone on one connection, from the code on the page to the call that locks
    the session.
  \<^item> \<open>Restart\<close>, \<open>Lifecycle\<close>: a run of the agent (\<open>agent_run\<close>, page and relay interleaved) followed down to
    its two files and the start that reads them: pairings survive it, removals are final, no
    handler panics, and the run command ends only when it is told to.

  Bounds and loops. Every loop is a total function. The serving loop recurses over the frames a
  connection delivers and ends with its read error, the reconnecting loop over the list of attempts
  it is given and is still \<open>Running\<close> when that is used up; a longer list is a longer run, and no
  theorem bounds its length. The polling loop of \<open>open\<close> has its counter as the measure.

  What is assumed. \<open>nacl_laws\<close> states of the cryptographic library that keys have 32 bytes and that a
  box opens with the matching keys; it is not assumed that a box cannot be forged, so the theorems
  speak of what an opened box leads to. \<open>bus_laws\<close> says of login1 which \<open>Lock\<close> calls it has received,
  not what it does about them. \<open>systemd_laws\<close> and \<open>registry_laws\<close> state what switching the
  unit or setting a value does to a later query. Each has a concrete instance, on which the
  witnesses run. Hypotheses on single calls (a clock not set back, a write that succeeds, valid
  UTF-8 from the decoder, zones of whole minutes) stand in the theorems.

  Approximations. The messages of errors from other packages are shortened where nothing depends on
  them. A path has the separator \<open>/\<close>; a URL path is taken without percent-encoding; a 405 answer
  has no \<open>Allow\<close> header, a redirect no body. \<open>go_quote\<close> escapes what is not ASCII or not printable;
  letters beyond ASCII are left as they are. Equal pairing times may be listed in another order
  than \<open>sort.Slice\<close> gives beyond twelve devices. A pairing time written with JSON escapes is read as if
  it were written plainly. Seconds on the page are exact integers.

  Not modelled: the drawing of the QR code, the HTML and JavaScript of the page and the images (the
  page model has them as parameters); log lines; file modes; the closing of handles; the texts of
  the tray's menu; TLS and the WebSocket protocol below a frame; the relay itself, which is not part of the repository.
\<close>

end
